(* ===== verification/Fpvd_Prelude.thy ===== *)
theory Fpvd_Prelude
  imports Complex_Main "HOL-Library.Word" "HOL-Library.AList"
begin

text \<open>
  Shared vocabulary of the development: Python exceptions as values, results that may
  raise, the few built-in operations of the language that several components use
  (\<open>int()\<close> on a float, bounded deques, dictionaries in insertion order), and the
  generic interfaces (locales) that the components instantiate.

  Conventions of the whole library.
  \<^item> Python \<open>int\<close> is \<open>int\<close>. Python \<open>float\<close> is \<open>real\<close>: comparisons and the
    arithmetic the code performs are exact, rounding, infinities and NaN are not modelled.
  \<^item> A function that can raise returns \<open>py_exn + 'a\<close> (\<open>Inl\<close> the exception).
  \<^item> A \<open>dict\<close> that the code iterates is an association list in insertion order
    (\<open>map_of\<close>, \<open>AList.update\<close>, \<open>AList.delete\<close>); a \<open>dict\<close> that is only looked up
    and stored into is a map.
  \<^item> \<open>bytes\<close> is \<open>8 word list\<close>.
\<close>

section \<open>Exceptions and results\<close>

datatype py_exn =
    SchemaError string
  | ValueError
  | TypeError
  | AttributeError
  | KeyError
  | IndexError
  | ZeroDivisionError
  | StructError
  | TapDecodeError
  | ContractVersionError
  | OSError

type_synonym 'a res = "py_exn + 'a"

definition res_bind :: "'a res \<Rightarrow> ('a \<Rightarrow> 'b res) \<Rightarrow> 'b res" where
  "res_bind r k = (case r of Inl e \<Rightarrow> Inl e | Inr x \<Rightarrow> k x)"

definition raise_if :: "bool \<Rightarrow> py_exn \<Rightarrow> unit res" where
  "raise_if b e = (if b then Inl e else Inr ())"

text \<open>Statements in sequence: the first one that raises ends the block.\<close>

fun in_order :: "unit res list \<Rightarrow> unit res" where
  "in_order [] = Inr ()"
| "in_order (c # cs) = (case c of Inl e \<Rightarrow> Inl e | Inr _ \<Rightarrow> in_order cs)"

section \<open>Built-in operations\<close>

type_synonym bytes = "8 word list"

text \<open>\<open>int(x)\<close> on a float truncates towards zero.\<close>

definition py_int :: "real \<Rightarrow> int" where
  "py_int x = (if 0 \<le> x then \<lfloor>x\<rfloor> else \<lceil>x\<rceil>)"

text \<open>\<open>round(x)\<close> and \<open>round(x, n)\<close>: ties go to the even neighbour.\<close>

definition round_half_even :: "real \<Rightarrow> int" where
  "round_half_even x = (let f = \<lfloor>x\<rfloor>; d = x - of_int f in
     if d < 1 / 2 then f else if 1 / 2 < d then f + 1 else if even f then f else f + 1)"

definition py_round :: "real \<Rightarrow> nat \<Rightarrow> real" where
  "py_round x n = of_int (round_half_even (x * 10 ^ n)) / 10 ^ n"

text \<open>\<open>collections.deque(maxlen = n).append\<close>: the oldest element leaves a full deque.\<close>

definition deque_append :: "nat \<Rightarrow> 'a \<Rightarrow> 'a list \<Rightarrow> 'a list" where
  "deque_append n x xs = (let ys = xs @ [x] in drop (length ys - n) ys)"

text \<open>\<open>d.get(k, dflt)\<close> on a map.\<close>

definition map_get :: "('k \<rightharpoonup> 'v) \<Rightarrow> 'k \<Rightarrow> 'v \<Rightarrow> 'v" where
  "map_get m k d = (case m k of None \<Rightarrow> d | Some v \<Rightarrow> v)"

text \<open>How many steps of a run \<open>acted\<close> holds of.\<close>

fun count_acts :: "('s \<Rightarrow> 'e \<Rightarrow> 's) \<Rightarrow> ('s \<Rightarrow> 'e \<Rightarrow> bool) \<Rightarrow> 's \<Rightarrow> 'e list \<Rightarrow> nat" where
  "count_acts step acted s [] = 0"
| "count_acts step acted s (e # es) =
     (if acted s e then 1 else 0) + count_acts step acted (step s e) es"

section \<open>Interfaces\<close>

text \<open>
  A component that reacts to events: a step function, the events it accepts, and an
  invariant that every accepted step keeps. What it promises of one step holds of every
  run, and of every moment of a run.
\<close>

locale machine =
  fixes step :: "'s \<Rightarrow> 'e \<Rightarrow> 's"
    and ok :: "'e \<Rightarrow> bool"
    and inv :: "'s \<Rightarrow> bool"
  assumes inv_step: "inv s \<Longrightarrow> ok e \<Longrightarrow> inv (step s e)"
begin

lemma inv_run: "inv s \<Longrightarrow> list_all ok es \<Longrightarrow> inv (foldl step s es)"
  by (induction es arbitrary: s) (auto intro: inv_step)

lemma inv_prefix: "inv s \<Longrightarrow> list_all ok es \<Longrightarrow> inv (foldl step s (take n es))"
  by (rule inv_run) (auto simp: list_all_iff dest: in_set_takeD)

end

text \<open>
  A machine with a rate limit: a counter of elapsed windows that only window events
  advance, by one, and that an action needs at \<open>quota\<close> and resets. The action then
  happens at most once per \<open>quota\<close> windows, whatever the interleaving of events.
\<close>

locale rate_limited =
  fixes step :: "'s \<Rightarrow> 'e \<Rightarrow> 's"
    and inv :: "'s \<Rightarrow> bool"
    and acted :: "'s \<Rightarrow> 'e \<Rightarrow> bool"
    and windows :: "'s \<Rightarrow> int"
    and is_window :: "'e \<Rightarrow> bool"
    and quota :: int
  assumes rl_inv: "inv s \<Longrightarrow> inv (step s e)"
    and rl_quota: "inv s \<Longrightarrow> acted s e \<Longrightarrow> quota \<le> windows s + (if is_window e then 1 else 0)"
    and rl_reset: "inv s \<Longrightarrow> acted s e \<Longrightarrow> windows (step s e) = 0"
    and rl_keep: "inv s \<Longrightarrow> \<not> acted s e \<Longrightarrow>
      windows (step s e) = windows s + (if is_window e then 1 else 0)"
begin

lemma actions_bound:
  "inv s \<Longrightarrow> int (count_acts step acted s es) * quota + windows (foldl step s es)
     \<le> windows s + int (length (filter is_window es))"
proof (induction es arbitrary: s)
  case Nil
  then show ?case by simp
next
  case (Cons e es)
  have IH: "int (count_acts step acted (step s e) es) * quota + windows (foldl step (step s e) es)
      \<le> windows (step s e) + int (length (filter is_window es))"
    by (rule Cons.IH [OF rl_inv [OF Cons.prems]])
  show ?case
  proof (cases "acted s e")
    case True
    then show ?thesis
      using IH rl_quota [OF Cons.prems True] rl_reset [OF Cons.prems True]
      by (simp add: algebra_simps split: if_splits)
  next
    case False
    then show ?thesis
      using IH rl_keep [OF Cons.prems False] by (simp split: if_splits)
  qed
qed

end

section \<open>Lemma collections and shared lemmas\<close>

named_theorems res_simps \<open>rewrite rules for results and raised exceptions\<close>

lemma res_bind_simps [simp, res_simps]:
  "res_bind (Inl e) k = Inl e" "res_bind (Inr x) k = k x"
  by (simp_all add: res_bind_def)

lemma res_bind_eq_Inr: "res_bind r k = Inr y \<longleftrightarrow> (\<exists>x. r = Inr x \<and> k x = Inr y)"
  by (cases r) auto

lemma raise_if_simps [simp, res_simps]:
  "raise_if True e = Inl e" "raise_if False e = Inr ()"
  by (simp_all add: raise_if_def)

lemma raise_if_eq_Inr [simp]: "raise_if b e = Inr u \<longleftrightarrow> \<not> b"
  by (auto simp: raise_if_def)

lemma raise_if_eq_Inl [simp]: "raise_if b e = Inl e' \<longleftrightarrow> b \<and> e' = e"
  by (auto simp: raise_if_def)

lemma in_order_ok: "in_order cs = Inr () \<longleftrightarrow> (\<forall>c \<in> set cs. c = Inr ())"
  by (induction cs) (auto split: sum.splits)

lemma in_order_raise:
  "in_order cs = Inl e \<Longrightarrow> Inl e \<in> set cs"
  by (induction cs) (auto split: sum.splits)

lemma py_int_nonneg: "0 \<le> x \<Longrightarrow> 0 \<le> py_int x"
  by (simp add: py_int_def)

lemma py_int_le: "0 \<le> x \<Longrightarrow> real_of_int (py_int x) \<le> x"
  by (simp add: py_int_def)

lemma py_int_mono: "x \<le> y \<Longrightarrow> py_int x \<le> py_int y"
proof -
  assume xy: "x \<le> y"
  consider "0 \<le> x" | "x < 0" "0 \<le> y" | "y < 0" using xy by linarith
  then show ?thesis
  proof cases
    case 2
    then have "\<lceil>x\<rceil> \<le> 0" "0 \<le> \<lfloor>y\<rfloor>" by (simp_all add: ceiling_le_iff)
    then have "\<lceil>x\<rceil> \<le> \<lfloor>y\<rfloor>" by (rule order_trans)
    with 2 show ?thesis by (simp add: py_int_def)
  qed (use xy in \<open>auto simp: py_int_def intro: floor_mono ceiling_mono\<close>)
qed

lemma py_int_of_int [simp]: "py_int (real_of_int k) = k"
  by (simp add: py_int_def)

lemma length_deque_append: "length (deque_append n x xs) = min n (Suc (length xs))"
  by (simp add: deque_append_def Let_def)

lemma deque_append_bound: "length (deque_append n x xs) \<le> n"
  by (simp add: length_deque_append)

lemma set_deque_append: "set (deque_append n x xs) \<subseteq> insert x (set xs)"
  unfolding deque_append_def Let_def using set_drop_subset by fastforce

lemma deque_append_room: "length xs < n \<Longrightarrow> deque_append n x xs = xs @ [x]"
  by (simp add: deque_append_def)

lemma deque_append_full:
  "length xs = n \<Longrightarrow> 0 < n \<Longrightarrow> deque_append n x xs = tl xs @ [x]"
  by (cases xs) (auto simp: deque_append_def)

lemma map_get_simps [simp]:
  "m k = None \<Longrightarrow> map_get m k d = d" "m k = Some v \<Longrightarrow> map_get m k d = v"
  by (simp_all add: map_get_def)

lemma map_get_upd [simp]: "map_get (m(k \<mapsto> v)) k' d = (if k' = k then v else map_get m k' d)"
  by (simp add: map_get_def)

lemma alist_update_new: "k \<notin> fst ` set al \<Longrightarrow> AList.update k v al = al @ [(k, v)]"
  by (induction al) auto

lemma set_alist_delete: "set (AList.delete k al) = {p \<in> set al. fst p \<noteq> k}"
  by (auto simp: AList.delete_eq)

lemma set_alist_update: "set (AList.update k v al) \<subseteq> insert (k, v) (set al)"
  by (induction al) auto

end
