(* ===== verification/Py_Str.thy ===== *)
theory Py_Str
  imports Fpvd_Prelude
begin

text \<open>
  The string operations of the Python library that the parsers use: \<open>str.strip\<close>,
  \<open>str.split\<close>, \<open>str.partition\<close>, \<open>int(s, base)\<close> and \<open>str(int)\<close>. A string is a
  sequence of code points below 256 (\<open>char\<close>); the interpreter's limit on the number of
  digits \<open>int()\<close> accepts (4300) is not modelled. The lemmas are the round trips the
  protocol parsers rest on: splitting undoes joining, and \<open>int(str(n)) = n\<close>.
\<close>

section \<open>Definitions\<close>

definition code :: "char \<Rightarrow> nat" where
  "code c = (of_char c :: nat)"

text \<open>\<open>str.isspace\<close> of one character, for code points below 256.\<close>

definition is_space :: "char \<Rightarrow> bool" where
  "is_space c = (let n = code c in
     (9 \<le> n \<and> n \<le> 13) \<or> (28 \<le> n \<and> n \<le> 32) \<or> n = 133 \<or> n = 160)"

definition lstrip :: "string \<Rightarrow> string" where
  "lstrip s = dropWhile is_space s"

definition rstrip :: "string \<Rightarrow> string" where
  "rstrip s = rev (dropWhile is_space (rev s))"

definition strip :: "string \<Rightarrow> string" where
  "strip s = rstrip (lstrip s)"

text \<open>\<open>s.split(sep)\<close> for a one-character separator.\<close>

fun split_on :: "char \<Rightarrow> string \<Rightarrow> string list" where
  "split_on sep [] = [[]]"
| "split_on sep (c # cs) =
     (if c = sep then [] # split_on sep cs
      else (case split_on sep cs of [] \<Rightarrow> [[c]] | w # ws \<Rightarrow> (c # w) # ws))"

fun join_with :: "char \<Rightarrow> string list \<Rightarrow> string" where
  "join_with sep [] = []"
| "join_with sep [w] = w"
| "join_with sep (w # ws) = w @ sep # join_with sep ws"

text \<open>\<open>s.split(sep, 1)\<close> and \<open>s.rsplit(sep, 1)\<close> when the result has two parts.\<close>

definition split_first :: "char \<Rightarrow> string \<Rightarrow> (string \<times> string) option" where
  "split_first sep s =
     (if sep \<in> set s
      then Some (takeWhile (\<lambda>c. c \<noteq> sep) s, tl (dropWhile (\<lambda>c. c \<noteq> sep) s)) else None)"

definition split_last :: "char \<Rightarrow> string \<Rightarrow> (string \<times> string) option" where
  "split_last sep s =
     (case split_first sep (rev s) of None \<Rightarrow> None
      | Some (b, a) \<Rightarrow> Some (rev a, rev b))"

text \<open>\<open>s.startswith(p)\<close> and \<open>p in s\<close>.\<close>

fun starts_with :: "string \<Rightarrow> string \<Rightarrow> bool" where
  "starts_with [] s = True"
| "starts_with (p # ps) [] = False"
| "starts_with (p # ps) (c # cs) = (p = c \<and> starts_with ps cs)"

fun has_substring :: "string \<Rightarrow> string \<Rightarrow> bool" where
  "has_substring p [] = (p = [])"
| "has_substring p (c # cs) = (starts_with p (c # cs) \<or> has_substring p cs)"

definition lower_char :: "char \<Rightarrow> char" where
  "lower_char c = (let n = code c in
     if (65 \<le> n \<and> n \<le> 90) \<or> (192 \<le> n \<and> n \<le> 222 \<and> n \<noteq> 215) then char_of (n + 32) else c)"

definition lower :: "string \<Rightarrow> string" where
  "lower s = map lower_char s"

text \<open>The value of a digit, in any base up to 16.\<close>

definition digit_val :: "char \<Rightarrow> nat option" where
  "digit_val c = (let n = code c in
     if 48 \<le> n \<and> n \<le> 57 then Some (n - 48)
     else if 97 \<le> n \<and> n \<le> 102 then Some (n - 87)
     else if 65 \<le> n \<and> n \<le> 70 then Some (n - 55)
     else None)"

text \<open>
  Digits with single underscores between them. The flag says whether the previous
  character was a digit (an underscore or the end is only legal then).
\<close>

fun digits_loop :: "nat \<Rightarrow> bool \<Rightarrow> nat \<Rightarrow> string \<Rightarrow> nat option" where
  "digits_loop b after acc [] = (if after then Some acc else None)"
| "digits_loop b after acc (c # cs) =
     (if c = CHR ''_'' then (if after then digits_loop b False acc cs else None)
      else (case digit_val c of
              None \<Rightarrow> None
            | Some d \<Rightarrow> if d < b then digits_loop b True (acc * b + d) cs else None))"

definition hex_prefix :: "string \<Rightarrow> string option" where
  "hex_prefix s = (case s of
     z # x # rest \<Rightarrow> if z = CHR ''0'' \<and> (x = CHR ''x'' \<or> x = CHR ''X'') then Some rest else None
   | _ \<Rightarrow> None)"

text \<open>The unsigned part of \<open>int(s, 10)\<close> and \<open>int(s, 16)\<close>; a base-16 literal may carry
  the prefix \<open>0x\<close>, after which one underscore is legal too.\<close>

definition parse_unsigned :: "nat \<Rightarrow> string \<Rightarrow> nat option" where
  "parse_unsigned b s =
     (case (if b = 16 then hex_prefix s else None) of
        Some rest \<Rightarrow> digits_loop b (rest \<noteq> [] \<and> hd rest = CHR ''_'') 0 rest
      | None \<Rightarrow> digits_loop b False 0 s)"

definition parse_int_base :: "nat \<Rightarrow> string \<Rightarrow> int option" where
  "parse_int_base b s =
     (case strip s of
        [] \<Rightarrow> None
      | c # cs \<Rightarrow>
          if c = CHR ''-'' then map_option (\<lambda>n. - int n) (parse_unsigned b cs)
          else if c = CHR ''+'' then map_option int (parse_unsigned b cs)
          else map_option int (parse_unsigned b (c # cs)))"

abbreviation parse_int :: "string \<Rightarrow> int option" where
  "parse_int \<equiv> parse_int_base 10"

text \<open>\<open>[int(v) for v in ws]\<close>: the first element that does not parse raises.\<close>

fun parse_ints :: "string list \<Rightarrow> int list option" where
  "parse_ints [] = Some []"
| "parse_ints (w # ws) =
     (case parse_int w of None \<Rightarrow> None
      | Some n \<Rightarrow> map_option ((#) n) (parse_ints ws))"

text \<open>\<open>str(n)\<close>.\<close>

definition digit_char :: "nat \<Rightarrow> char" where
  "digit_char d = char_of (48 + d)"

fun show_nat :: "nat \<Rightarrow> string" where
  "show_nat n = (if n < 10 then [digit_char n] else show_nat (n div 10) @ [digit_char (n mod 10)])"

declare show_nat.simps [simp del]

definition show_int :: "int \<Rightarrow> string" where
  "show_int n = (if n < 0 then CHR ''-'' # show_nat (nat (- n)) else show_nat (nat n))"

text \<open>\<open>str.isdigit\<close> (superscript digits count).\<close>

definition is_digit_char :: "char \<Rightarrow> bool" where
  "is_digit_char c = (let n = code c in (48 \<le> n \<and> n \<le> 57) \<or> n = 178 \<or> n = 179 \<or> n = 185)"

definition isdigit :: "string \<Rightarrow> bool" where
  "isdigit s = (s \<noteq> [] \<and> list_all is_digit_char s)"

text \<open>Non-empty strings of decimal digits (used in proofs).\<close>

definition digit_string :: "string \<Rightarrow> bool" where
  "digit_string s = (s \<noteq> [] \<and> (\<forall>c \<in> set s. \<exists>d < 10. c = digit_char d))"

section \<open>Lemmas\<close>

lemma split_on_nonempty [simp]: "split_on sep s \<noteq> []"
  by (induction s) (auto split: list.splits)

lemma split_on_join:
  "ws \<noteq> [] \<Longrightarrow> \<forall>w \<in> set ws. sep \<notin> set w \<Longrightarrow> split_on sep (join_with sep ws) = ws"
proof (induction sep ws rule: join_with.induct)
  case (2 sep w)
  then show ?case by (induction w) auto
next
  case (3 sep w v vs)
  then have IH: "split_on sep (join_with sep (v # vs)) = v # vs" by simp
  from 3(3) have "sep \<notin> set w" by simp
  then show ?case using IH by (induction w) auto
qed simp

lemma join_split_on: "join_with sep (split_on sep s) = s"
proof (induction s)
  case (Cons c cs)
  show ?case
  proof (cases "split_on sep cs")
    case (Cons w ws)
    then show ?thesis using Cons.IH by (cases ws) auto
  qed simp
qed simp

lemma split_on_no_sep: "w \<in> set (split_on sep s) \<Longrightarrow> sep \<notin> set w"
  by (induction s arbitrary: w) (auto split: if_splits list.splits)

lemma code_digit_char [simp]: "d < 10 \<Longrightarrow> code (digit_char d) = 48 + d"
  by (simp add: code_def digit_char_def)

lemma digit_val_digit_char [simp]: "d < 10 \<Longrightarrow> digit_val (digit_char d) = Some d"
  by (simp add: digit_val_def Let_def)

lemma digit_char_not_underscore [simp]: "d < 10 \<Longrightarrow> digit_char d \<noteq> CHR ''_''"
  using code_digit_char [of d] by (auto simp: code_def)

lemma digit_char_not_sign:
  "d < 10 \<Longrightarrow> digit_char d \<noteq> CHR ''-''" "d < 10 \<Longrightarrow> digit_char d \<noteq> CHR ''+''"
  using code_digit_char [of d] by (auto simp: code_def)

lemma digit_char_not_space: "d < 10 \<Longrightarrow> \<not> is_space (digit_char d)"
  by (simp add: is_space_def Let_def)

lemma show_nat_digits: "digit_string (show_nat n)"
proof (induction n rule: show_nat.induct)
  case (1 n)
  then show ?case
    by (subst show_nat.simps) (auto simp: digit_string_def intro: exI [of _ "n mod 10"])
qed

lemma digits_loop_append:
  assumes "\<forall>c \<in> set s. \<exists>d < 10. c = digit_char d" and "d < 10"
    and "digits_loop 10 after acc s = Some v"
  shows "digits_loop 10 after acc (s @ [digit_char d]) = Some (v * 10 + d)"
  using assms
  by (induction s arbitrary: after acc) (auto split: if_splits option.splits)

lemma digits_loop_show_nat: "digits_loop 10 False 0 (show_nat n) = Some n"
proof (induction n rule: show_nat.induct)
  case (1 n)
  show ?case
  proof (cases "n < 10")
    case True
    then show ?thesis by (subst show_nat.simps) simp
  next
    case False
    with 1 have IH: "digits_loop 10 False 0 (show_nat (n div 10)) = Some (n div 10)" by simp
    have "\<forall>c \<in> set (show_nat (n div 10)). \<exists>d < 10. c = digit_char d"
      using show_nat_digits by (simp add: digit_string_def)
    from digits_loop_append [OF this _ IH, of "n mod 10"] show ?thesis
      using False by (subst show_nat.simps) simp
  qed
qed

lemma strip_no_space:
  assumes "s \<noteq> []" "\<not> is_space (hd s)" "\<not> is_space (last s)"
  shows "strip s = s"
proof -
  have "lstrip s = s" using assms by (cases s) (auto simp: lstrip_def)
  moreover have "dropWhile is_space (rev s) = rev s"
    using assms by (cases s rule: rev_cases) auto
  ultimately show ?thesis by (simp add: strip_def rstrip_def)
qed

lemma digit_string_ends:
  "digit_string s \<Longrightarrow> \<not> is_space (last s)"
  unfolding digit_string_def by (metis digit_char_not_space last_in_set)

lemma digit_string_hd:
  "digit_string s \<Longrightarrow> \<exists>d < 10. hd s = digit_char d"
  unfolding digit_string_def by (metis list.set_sel(1))

lemma parse_show_nat: "parse_int (show_nat n) = Some (int n)"
proof -
  let ?s = "show_nat n"
  have ds: "digit_string ?s" by (rule show_nat_digits)
  obtain d where d: "d < 10" "hd ?s = digit_char d" using digit_string_hd [OF ds] by blast
  obtain c cs where s: "?s = c # cs" using ds by (cases ?s) (auto simp: digit_string_def)
  have c: "c = digit_char d" using d s by simp
  have "strip ?s = ?s"
    by (rule strip_no_space) (use ds d digit_string_ends digit_char_not_space in
      \<open>auto simp: digit_string_def\<close>)
  moreover have "c \<noteq> CHR ''-''" "c \<noteq> CHR ''+''" using c d digit_char_not_sign by auto
  ultimately show ?thesis
    using digits_loop_show_nat [of n] s
    by (simp add: parse_int_base_def parse_unsigned_def)
qed

lemma parse_show_int: "parse_int (show_int k) = Some k"
proof (cases "k < 0")
  case False
  then show ?thesis using parse_show_nat by (simp add: show_int_def)
next
  case True
  let ?s = "show_nat (nat (- k))"
  have ds: "digit_string ?s" by (rule show_nat_digits)
  have "strip (CHR ''-'' # ?s) = CHR ''-'' # ?s"
    by (rule strip_no_space)
      (use ds digit_string_ends in \<open>auto simp: digit_string_def is_space_def code_def\<close>)
  then show ?thesis
    using True digits_loop_show_nat [of "nat (- k)"]
    by (simp add: show_int_def parse_int_base_def parse_unsigned_def)
qed

lemma show_int_no_sep:
  assumes "sep \<notin> set (map digit_char [0..<10])" "sep \<noteq> CHR ''-''"
  shows "sep \<notin> set (show_int k)"
proof -
  have "sep \<notin> set (show_nat n)" for n
    using show_nat_digits [of n] assms(1) by (auto simp: digit_string_def)
  then show ?thesis using assms(2) by (simp add: show_int_def)
qed

lemma parse_ints_show: "parse_ints (map show_int ns) = Some ns"
  by (induction ns) (simp_all add: parse_show_int)

lemma parse_ints_length: "parse_ints ws = Some ns \<Longrightarrow> length ns = length ws"
  by (induction ws arbitrary: ns) (auto split: option.splits)

end
