(* ===== verification/Py_Json.thy ===== *)
theory Py_Json
  imports Py_Str
begin

text \<open>
  JSON values as \<open>json.load\<close> returns them, and what the code does with them: dictionary
  lookup, \<open>isinstance\<close> tests (a \<open>bool\<close> is an \<open>int\<close>), truth values, \<open>int()\<close> and
  \<open>float()\<close>, and Python's \<open>==\<close> (numbers compare by value across \<open>bool\<close>, \<open>int\<close> and
  \<open>float\<close>; dictionaries compare regardless of order). A dictionary is an association
  list in insertion order; \<open>json_wf\<close> says that its keys are distinct at every level.
\<close>

section \<open>Definitions\<close>

datatype json =
    JNull
  | JBool bool
  | JInt int
  | JFloat real
  | JStr string
  | JList "json list"
  | JObj "(string \<times> json) list"

type_synonym dict = "(string \<times> json) list"

fun json_wf :: "json \<Rightarrow> bool" where
  "json_wf (JObj d) = (distinct (map fst d) \<and> list_all (\<lambda>(k, v). json_wf v) d)"
| "json_wf (JList xs) = list_all json_wf xs"
| "json_wf _ = True"

subsection \<open>Type tests\<close>

definition is_dict :: "json \<Rightarrow> bool" where
  "is_dict j = (case j of JObj _ \<Rightarrow> True | _ \<Rightarrow> False)"

definition is_list :: "json \<Rightarrow> bool" where
  "is_list j = (case j of JList _ \<Rightarrow> True | _ \<Rightarrow> False)"

definition is_str :: "json \<Rightarrow> bool" where
  "is_str j = (case j of JStr _ \<Rightarrow> True | _ \<Rightarrow> False)"

definition is_bool :: "json \<Rightarrow> bool" where
  "is_bool j = (case j of JBool _ \<Rightarrow> True | _ \<Rightarrow> False)"

text \<open>\<open>isinstance(j, int)\<close> and \<open>isinstance(j, (int, float))\<close>.\<close>

definition is_int :: "json \<Rightarrow> bool" where
  "is_int j = (case j of JInt _ \<Rightarrow> True | JBool _ \<Rightarrow> True | _ \<Rightarrow> False)"

definition is_num :: "json \<Rightarrow> bool" where
  "is_num j = (case j of JInt _ \<Rightarrow> True | JFloat _ \<Rightarrow> True | JBool _ \<Rightarrow> True | _ \<Rightarrow> False)"

text \<open>The value of a number (\<open>True\<close> is 1).\<close>

definition num_of :: "json \<Rightarrow> real option" where
  "num_of j = (case j of JInt n \<Rightarrow> Some (real_of_int n) | JFloat r \<Rightarrow> Some r
     | JBool b \<Rightarrow> Some (if b then 1 else 0) | _ \<Rightarrow> None)"

fun truthy :: "json \<Rightarrow> bool" where
  "truthy JNull = False"
| "truthy (JBool b) = b"
| "truthy (JInt n) = (n \<noteq> 0)"
| "truthy (JFloat r) = (r \<noteq> 0)"
| "truthy (JStr s) = (s \<noteq> [])"
| "truthy (JList xs) = (xs \<noteq> [])"
| "truthy (JObj d) = (d \<noteq> [])"

subsection \<open>Dictionary access\<close>

text \<open>\<open>d.get(k, dflt)\<close> of a dictionary; \<open>j.get(k, dflt)\<close> of any value raises
  AttributeError on the others.\<close>

definition dget :: "dict \<Rightarrow> string \<Rightarrow> json \<Rightarrow> json" where
  "dget d k dflt = (case map_of d k of None \<Rightarrow> dflt | Some v \<Rightarrow> v)"

definition has_key :: "dict \<Rightarrow> string \<Rightarrow> bool" where
  "has_key d k = (map_of d k \<noteq> None)"

definition jget :: "json \<Rightarrow> string \<Rightarrow> json \<Rightarrow> json res" where
  "jget j k dflt = (case j of JObj d \<Rightarrow> Inr (dget d k dflt) | _ \<Rightarrow> Inl AttributeError)"

text \<open>\<open>j or {}\<close>.\<close>

definition or_empty :: "json \<Rightarrow> json" where
  "or_empty j = (if truthy j then j else JObj [])"

text \<open>\<open>set(d) - known\<close>, in the dictionary's order.\<close>

definition unknown_keys :: "dict \<Rightarrow> string list \<Rightarrow> string list" where
  "unknown_keys d known = filter (\<lambda>k. k \<notin> set known) (map fst d)"

subsection \<open>Equality\<close>

lemma json_size_dict: "(k, v) \<in> set d \<Longrightarrow> size v < size (JObj d)"
  using size_list_estimation' [of "(k, v)" d "size v" "size_prod (\<lambda>_. 0) size"] by simp

lemma json_size_list: "v \<in> set xs \<Longrightarrow> size v < size (JList xs)"
  using size_list_estimation' [of v xs "size v" size] by simp

function py_eq :: "json \<Rightarrow> json \<Rightarrow> bool" where
  "py_eq x y = (case x of
     JObj a \<Rightarrow> (case y of
         JObj b \<Rightarrow> length a = length b \<and>
           (\<forall>(k, v) \<in> set a. case map_of b k of None \<Rightarrow> False | Some w \<Rightarrow> py_eq v w)
       | _ \<Rightarrow> False)
   | JList xs \<Rightarrow> (case y of
         JList ys \<Rightarrow> length xs = length ys \<and> (\<forall>(u, w) \<in> set (zip xs ys). py_eq u w)
       | _ \<Rightarrow> False)
   | JNull \<Rightarrow> y = JNull
   | JStr s \<Rightarrow> y = JStr s
   | _ \<Rightarrow> num_of x = num_of y)"
  by pat_completeness auto
termination
  by (relation "measure (\<lambda>(x, y). size x)")
    (auto simp: json_size_dict json_size_list dest: set_zip_leftD simp del: json.size)

declare py_eq.simps [simp del]

subsection \<open>Numeric conversions\<close>

definition opt_digits :: "string \<Rightarrow> nat option" where
  "opt_digits s = (if s = [] then Some 0 else digits_loop 10 False 0 s)"

text \<open>\<open>float(s)\<close> for finite decimal literals (\<open>inf\<close> and \<open>nan\<close> have no real value and
  are treated as unparsable).\<close>

definition mantissa_val :: "string \<Rightarrow> real option" where
  "mantissa_val m = (case split_first CHR ''.'' m of
     None \<Rightarrow> map_option real (digits_loop 10 False 0 m)
   | Some (a, b) \<Rightarrow>
       if a = [] \<and> b = [] then None
       else (case (opt_digits a, opt_digits b) of
               (Some x, Some y) \<Rightarrow>
                 Some (real x + real y / 10 ^ length (filter (\<lambda>c. c \<noteq> CHR ''_'') b))
             | _ \<Rightarrow> None))"

definition exponent_val :: "string \<Rightarrow> int option" where
  "exponent_val s = (case s of
     [] \<Rightarrow> None
   | c # cs \<Rightarrow>
       if c = CHR ''-'' then map_option (\<lambda>n. - int n) (digits_loop 10 False 0 cs)
       else if c = CHR ''+'' then map_option int (digits_loop 10 False 0 cs)
       else map_option int (digits_loop 10 False 0 s))"

definition unsigned_float :: "string \<Rightarrow> real option" where
  "unsigned_float s = (case split_first CHR ''e'' (map (\<lambda>c. if c = CHR ''E'' then CHR ''e'' else c) s) of
     None \<Rightarrow> mantissa_val s
   | Some (m, e) \<Rightarrow> (case (mantissa_val m, exponent_val e) of
        (Some v, Some x) \<Rightarrow> Some (v * 10 powi x) | _ \<Rightarrow> None))"

definition parse_float :: "string \<Rightarrow> real option" where
  "parse_float s = (case strip s of
     [] \<Rightarrow> None
   | c # cs \<Rightarrow>
       if c = CHR ''-'' then map_option uminus (unsigned_float cs)
       else if c = CHR ''+'' then unsigned_float cs
       else unsigned_float (c # cs))"

text \<open>\<open>float(j)\<close> and \<open>int(j)\<close>.\<close>

definition to_float :: "json \<Rightarrow> real res" where
  "to_float j = (case j of
     JStr s \<Rightarrow> (case parse_float s of None \<Rightarrow> Inl ValueError | Some r \<Rightarrow> Inr r)
   | _ \<Rightarrow> (case num_of j of None \<Rightarrow> Inl TypeError | Some r \<Rightarrow> Inr r))"

definition to_int :: "json \<Rightarrow> int res" where
  "to_int j = (case j of
     JInt n \<Rightarrow> Inr n
   | JBool b \<Rightarrow> Inr (if b then 1 else 0)
   | JFloat r \<Rightarrow> Inr (py_int r)
   | JStr s \<Rightarrow> (case parse_int s of None \<Rightarrow> Inl ValueError | Some n \<Rightarrow> Inr n)
   | _ \<Rightarrow> Inl TypeError)"

text \<open>A list comprehension whose element expression may raise.\<close>

fun res_map :: "('a \<Rightarrow> 'b res) \<Rightarrow> 'a list \<Rightarrow> 'b list res" where
  "res_map f [] = Inr []"
| "res_map f (x # xs) =
     (case f x of Inl e \<Rightarrow> Inl e
      | Inr y \<Rightarrow> (case res_map f xs of Inl e \<Rightarrow> Inl e | Inr ys \<Rightarrow> Inr (y # ys)))"

section \<open>Lemmas\<close>

lemmas type_test_defs =
  is_dict_def is_list_def is_str_def is_bool_def is_int_def is_num_def

lemma is_dict_simps [simp]:
  "is_dict (JObj d)" "\<not> is_dict JNull" "\<not> is_dict (JBool b)" "\<not> is_dict (JInt n)"
  "\<not> is_dict (JFloat r)" "\<not> is_dict (JStr s)" "\<not> is_dict (JList xs)"
  by (simp_all add: is_dict_def)

lemma is_dictE: "is_dict j \<Longrightarrow> (\<And>d. j = JObj d \<Longrightarrow> P) \<Longrightarrow> P"
  by (cases j) auto

lemma jget_simps [simp]: "jget (JObj d) k v = Inr (dget d k v)"
  by (simp add: jget_def)

lemma jget_dict: "is_dict j \<Longrightarrow> \<exists>v. jget j k dflt = Inr v"
  by (auto elim: is_dictE)

lemma dget_Nil [simp]: "dget [] k v = v"
  by (simp add: dget_def)

lemma dget_Cons [simp]: "dget ((k', w) # d) k v = (if k = k' then w else dget d k v)"
  by (simp add: dget_def)

lemma dget_update: "dget (AList.update k v d) k' dflt = (if k' = k then v else dget d k' dflt)"
  by (simp add: dget_def update_conv')

lemma dget_delete: "dget (AList.delete k d) k' dflt = (if k' = k then dflt else dget d k' dflt)"
  by (simp add: dget_def delete_conv')

lemma unknown_keys_Nil: "unknown_keys d known = [] \<longleftrightarrow> fst ` set d \<subseteq> set known"
  by (auto simp: unknown_keys_def filter_empty_conv)

lemma json_wf_dict: "json_wf (JObj d) \<Longrightarrow> map_of d k = Some v \<Longrightarrow> json_wf v"
  by (auto simp: list_all_iff dest: map_of_SomeD)

text \<open>A value equals itself (dictionaries with distinct keys).\<close>

lemma py_eq_refl: "json_wf x \<Longrightarrow> py_eq x x"
proof (induction "size x" arbitrary: x rule: less_induct)
  case less
  show ?case
  proof (cases x)
    case (JObj d)
    then have "distinct (map fst d)" and wf: "\<forall>(k, v) \<in> set d. json_wf v"
      using less.prems by (auto simp: list_all_iff)
    then have "case map_of d k of None \<Rightarrow> False | Some w \<Rightarrow> py_eq v w" if "(k, v) \<in> set d" for k v
      using that less.hyps [of v] json_size_dict [OF that] wf JObj
      by (fastforce simp: map_of_is_SomeI)
    then show ?thesis using JObj by (auto simp: py_eq.simps [of "JObj d" "JObj d"])
  next
    case (JList xs)
    have "py_eq u w" if "(u, w) \<in> set (zip xs xs)" for u w
    proof -
      from that have "u = w" "u \<in> set xs" by (auto simp: set_zip)
      then show ?thesis
        using less JList json_size_list by (auto simp: list_all_iff)
    qed
    then show ?thesis using JList by (auto simp: py_eq.simps [of "JList xs" "JList xs"])
  qed (simp_all add: py_eq.simps [of JNull] py_eq.simps [of "JBool b" for b]
      py_eq.simps [of "JInt n" for n] py_eq.simps [of "JFloat r" for r] py_eq.simps [of "JStr s" for s])
qed

lemma res_map_Inr: "res_map f xs = Inr ys \<longleftrightarrow> list_all2 (\<lambda>x y. f x = Inr y) xs ys"
proof (induction xs arbitrary: ys)
  case (Cons x xs)
  then show ?case
    by (cases "res_map f xs") (auto split: sum.splits simp: list_all2_Cons1)
qed auto

lemma res_map_length: "res_map f xs = Inr ys \<Longrightarrow> length ys = length xs"
  by (simp add: res_map_Inr list_all2_lengthD)

lemma res_map_map: "(\<And>x. x \<in> set xs \<Longrightarrow> f (g x) = Inr (h x)) \<Longrightarrow>
    res_map f (map g xs) = Inr (map h xs)"
  by (induction xs) auto

end
