(* ===== verification/Cards.thy ===== *)
theory Cards
  imports Py_Json
begin

text \<open>
  \<open>src/gs/fpvdgs/wfb/cards.py\<close>: the list of wifi cards of the ground station. A card is local or
  reached over SSH; \<open>link.cards\<close> wins over the legacy \<open>link.wlans\<close>, and without a list the cards
  are detected. The fields of a card are the JSON values of the configuration, which the schema
  checks separately.
\<close>

section \<open>Definitions\<close>

record wifi_card =
  cd_host :: json
  cd_iface :: json
  ssh_user :: json
  ssh_port :: int
  ssh_key :: json
  txpower_dbm :: json
  init_script :: json

definition Card :: "json \<Rightarrow> json \<Rightarrow> wifi_card" where
  "Card host iface = \<lparr> cd_host = host, cd_iface = iface, ssh_user = JStr ''root'', ssh_port = 22, ssh_key = JNull,
     txpower_dbm = JNull, init_script = JNull \<rparr>"

definition is_local :: "wifi_card \<Rightarrow> bool" where
  "is_local c = (cd_host c = JNull)"

definition is_rx_only :: "wifi_card \<Rightarrow> bool" where
  "is_rx_only c = (txpower_dbm c = JStr ''off'')"

definition card_from_dict :: "dict \<Rightarrow> wifi_card res" where
  "card_from_dict d =
     (if \<not> has_key d ''iface'' then Inl ValueError
      else res_bind (to_int (dget d ''sshPort'' (JInt 22))) (\<lambda>port.
        Inr \<lparr> cd_host = dget d ''host'' JNull, cd_iface = dget d ''iface'' JNull, ssh_user = dget d ''sshUser'' (JStr ''root''),
              ssh_port = port, ssh_key = dget d ''sshKey'' JNull, txpower_dbm = dget d ''txPowerDbm'' JNull,
              init_script = dget d ''initScript'' JNull \<rparr>))"

definition parse_entry :: "json \<Rightarrow> wifi_card res" where
  "parse_entry entry = (case entry of
     JStr s \<Rightarrow> Inr (Card JNull (JStr s))
   | JObj d \<Rightarrow> card_from_dict d
   | _ \<Rightarrow> Inl ValueError)"

definition parse_entries :: "json list \<Rightarrow> wifi_card list res" where
  "parse_entries entries = res_map parse_entry entries"

datatype parsed_cards = Auto | Cards "wifi_card list"

text \<open>The fallback to the legacy list.\<close>

definition parse_wlans :: "json \<Rightarrow> parsed_cards res" where
  "parse_wlans link =
     res_bind (jget link ''wlans'' JNull) (\<lambda>wlans_raw. case wlans_raw of
        JList entries \<Rightarrow> res_bind (parse_entries entries) (\<lambda>cs.
          if list_ex (\<lambda>c. \<not> is_local c) cs then Inl ValueError else Inr (Cards cs))
      | _ \<Rightarrow> Inr Auto)"

definition parse_cards :: "json \<Rightarrow> parsed_cards res" where
  "parse_cards link =
     res_bind (jget link ''cards'' JNull) (\<lambda>cards_raw. case cards_raw of
        JList entries \<Rightarrow> res_bind (parse_entries entries) (\<lambda>cs. Inr (Cards cs))
      | _ \<Rightarrow> parse_wlans link)"

text \<open>\<open>nics\<close> is what the detector finds.\<close>

definition resolve_cards :: "string list \<Rightarrow> dict \<Rightarrow> wifi_card list res" where
  "resolve_cards nics effective =
     res_bind (parse_cards (dget effective ''link'' (JObj []))) (\<lambda>p. case p of
        Cards cs \<Rightarrow> Inr cs
      | Auto \<Rightarrow> Inr (map (\<lambda>i. Card JNull (JStr i)) nics))"

definition local_ifaces :: "wifi_card list \<Rightarrow> json list" where
  "local_ifaces cs = map cd_iface (filter is_local cs)"

definition remote_cards :: "wifi_card list \<Rightarrow> wifi_card list" where
  "remote_cards cs = filter (\<lambda>c. \<not> is_local c) cs"

definition has_remote :: "wifi_card list \<Rightarrow> bool" where
  "has_remote cs = (\<exists>c \<in> set cs. \<not> is_local c)"

section \<open>Lemmas\<close>

lemma Card_local [simp]: "is_local (Card JNull i)"
  by (simp add: is_local_def Card_def)

lemma has_remote_iff: "has_remote cs \<longleftrightarrow> remote_cards cs \<noteq> []"
  by (auto simp: has_remote_def remote_cards_def filter_empty_conv)

lemma parse_wlans_local:
  assumes "parse_wlans link = Inr (Cards cs)"
  shows "list_all is_local cs"
proof -
  obtain v where v: "jget link ''wlans'' JNull = Inr v" using assms by (cases "jget link ''wlans'' JNull") (auto simp: parse_wlans_def)
  obtain es where "v = JList es" using assms v by (cases v) (auto simp: parse_wlans_def)
  then show ?thesis
    using assms v by (cases "parse_entries es") (auto simp: parse_wlans_def list_all_iff list_ex_iff split: if_splits)
qed

text \<open>The legacy list and detection only ever give local cards: a remote card needs \<open>link.cards\<close>.\<close>

lemma remote_needs_cards:
  assumes "resolve_cards nics effective = Inr cs" "has_remote cs"
  obtains link entries where "dget effective ''link'' (JObj []) = JObj link" "dget link ''cards'' JNull = JList entries"
    and "parse_entries entries = Inr cs"
proof -
  obtain link where l: "dget effective ''link'' (JObj []) = JObj link"
    using assms(1) by (cases "dget effective ''link'' (JObj [])") (auto simp: resolve_cards_def parse_cards_def jget_def)
  obtain p where p: "parse_cards (JObj link) = Inr p" using assms(1) l
    by (cases "parse_cards (JObj link)") (auto simp: resolve_cards_def)
  have c: "p = Cards cs" using assms p l
    by (cases p) (auto simp: resolve_cards_def has_remote_def)
  show ?thesis
  proof (cases "is_list (dget link ''cards'' JNull)")
    case True
    then obtain entries where e: "dget link ''cards'' JNull = JList entries" by (cases "dget link ''cards'' JNull") (auto simp: is_list_def)
    then have "parse_entries entries = Inr cs" using p c by (cases "parse_entries entries") (simp_all add: parse_cards_def)
    then show ?thesis using that l e by blast
  next
    case False
    then have "parse_wlans (JObj link) = Inr (Cards cs)" using p c by (auto simp: parse_cards_def is_list_def split: json.splits)
    then show ?thesis using parse_wlans_local assms(2) by (auto simp: has_remote_def list_all_iff)
  qed
qed

end
