(* ===== verification/Schema.thy ===== *)
theory Schema
  imports Cards
begin

text \<open>
  \<open>src/gs/fpvdgs/schema.py\<close>: validation of a configuration patch and of the full configuration.
  A validator returns \<open>Inr ()\<close> or the exception it raises; a \<open>SchemaError\<close> carries the fixed part
  of its message. The exceptions that are not schema errors (a lookup in a value that is not an
  object, a comparison with \<open>None\<close>, an unhashable value in a set) are modelled where the code can
  raise them. \<open>bf_capable\<close> is the hook of \<open>set_bf_capable\<close>.
\<close>

section \<open>Definitions\<close>

subsection \<open>Keys\<close>

definition LINK_KEYS :: "string list" where
  "LINK_KEYS = [''channel'', ''width'', ''txPowerDbm'', ''region'', ''linkId'', ''beamforming'', ''cards'',
     ''serverAddress'', ''wlans'', ''videoEncryption'']"

definition CONFIG_TOP_KEYS :: "string list" where
  "CONFIG_TOP_KEYS = [''link'', ''wfb'', ''drone'', ''dynamicLink'', ''pixelpilot'', ''idrForward'', ''connectionMonitor'']"

definition DYNAMIC_LINK_KEYS :: "string list" where
  "DYNAMIC_LINK_KEYS = [''enabled'', ''maxMcs'', ''dronePort'', ''selector'', ''smoothing'', ''flightlog'',
     ''learnedPrior'', ''tap'', ''probe'']"

definition DRONE_KEYS :: "string list" where
  "DRONE_KEYS = [''host'', ''apiPort'']"

definition SELECTOR_KEYS :: "string list" where
  "SELECTOR_KEYS = [''videoDemotePer'', ''emergencyFecPressure'', ''holdModesDownMs'', ''minBetweenChangesMs'',
     ''starvationWindows'', ''snrPromoteMarginDb'', ''snrDemoteMarginDb'', ''flapBaseBackoffMs'', ''flapBackoffMult'',
     ''flapBackoffCapMs'', ''flapResetCleanDwellTicks'', ''trialWindowMs'', ''promoteDwellTicks'', ''promoteSlopeMin'',
     ''collapseDeltaDb'', ''snapbackRecoverMarginDb'', ''confirmTtlMs'', ''flapSnrReleaseDb'', ''flapDecayMs'']"

definition SMOOTHING_KEYS :: "string list" where
  "SMOOTHING_KEYS = [''ewmaAlphaRssi'', ''ewmaAlphaFec'', ''ewmaAlphaBurst'', ''starvationThresholdPps'']"

definition LEARNED_PRIOR_KEYS :: "string list" where
  "LEARNED_PRIOR_KEYS = [''settleTicks'', ''viableLoss'', ''alphaTighten'', ''alphaRelax'', ''minSamples'', ''recencyDecay'']"

definition TAP_KEYS :: "string list" where
  "TAP_KEYS = [''enabled'', ''port'', ''staleMs'', ''captureRaw'']"

definition PROBE_KEYS :: "string list" where
  "PROBE_KEYS = [''enabled'']"

definition CARD_KEYS :: "string list" where
  "CARD_KEYS = [''host'', ''iface'', ''sshUser'', ''sshPort'', ''sshKey'', ''txPowerDbm'', ''initScript'']"

definition VALID_WIDTHS :: "int list" where
  "VALID_WIDTHS = [5, 10, 20, 40]"

definition TX_SELECTOR_KEYS :: "string list" where
  "TX_SELECTOR_KEYS = [''rssiDeltaDb'', ''counterRelDelta'', ''counterAbsDelta'']"

subsection \<open>Tests on values\<close>

text \<open>An \<open>int\<close> that is not a \<open>bool\<close>, in a range; a number that is not a \<open>bool\<close>, with a property.\<close>

definition int_in :: "int \<Rightarrow> int \<Rightarrow> json \<Rightarrow> bool" where
  "int_in lo hi v = (case v of JInt n \<Rightarrow> lo \<le> n \<and> n \<le> hi | _ \<Rightarrow> False)"

definition num_with :: "(real \<Rightarrow> bool) \<Rightarrow> json \<Rightarrow> bool" where
  "num_with P v = (case v of JInt n \<Rightarrow> P (real_of_int n) | JFloat r \<Rightarrow> P r | _ \<Rightarrow> False)"

definition nonempty_str :: "json \<Rightarrow> bool" where
  "nonempty_str v = (is_str v \<and> truthy v)"

text \<open>\<open>v in {n, \<dots>}\<close> for a set of ints: the value is hashed first.\<close>

definition hashable :: "json \<Rightarrow> bool" where
  "hashable v = (\<not> is_list v \<and> \<not> is_dict v)"

definition in_int_set :: "int list \<Rightarrow> json \<Rightarrow> bool res" where
  "in_int_set ns v = (if hashable v then Inr (\<exists>n \<in> set ns. py_eq v (JInt n)) else Inl TypeError)"

text \<open>\<open>a <= b\<close> on numbers.\<close>

definition num_le :: "json \<Rightarrow> json \<Rightarrow> bool res" where
  "num_le a b = (case (num_of a, num_of b) of (Some x, Some y) \<Rightarrow> Inr (x \<le> y) | _ \<Rightarrow> Inl TypeError)"

text \<open>A set built from a list.\<close>

definition py_set :: "json list \<Rightarrow> json list" where
  "py_set xs = fold (\<lambda>x acc. if list_ex (py_eq x) acc then acc else acc @ [x]) xs []"

text \<open>\<open>unknown = set(v) - known; if unknown: raise SchemaError(\<dots> sorted(unknown))\<close>.\<close>

definition reject_unknown :: "string \<Rightarrow> json \<Rightarrow> string list \<Rightarrow> unit res" where
  "reject_unknown msg v known = (case v of
     JObj d \<Rightarrow> raise_if (unknown_keys d known \<noteq> []) (SchemaError msg)
   | JStr s \<Rightarrow> raise_if (\<exists>c \<in> set s. [c] \<notin> set known) (SchemaError msg)
   | JList xs \<Rightarrow>
       if list_ex (\<lambda>x. \<not> hashable x) xs then Inl TypeError
       else let unk = py_set (filter (\<lambda>x. case x of JStr s \<Rightarrow> s \<notin> set known | _ \<Rightarrow> True) xs)
            in if unk = [] then Inr ()
               else if length unk = 1 \<or> list_all is_str unk \<or> list_all is_num unk then Inl (SchemaError msg)
               else Inl TypeError
   | _ \<Rightarrow> Inl TypeError)"

definition unless_none :: "json \<Rightarrow> (json \<Rightarrow> unit res) \<Rightarrow> unit res" where
  "unless_none v f = (if v = JNull then Inr () else f v)"

definition validate_block_keys :: "string \<Rightarrow> json \<Rightarrow> string list \<Rightarrow> unit res" where
  "validate_block_keys name blk known =
     in_order [raise_if (\<not> is_dict blk) (SchemaError (name @ '' must be an object'')),
               reject_unknown (''unknown '' @ name @ '' keys'') blk known]"

definition validate_prob :: "string \<Rightarrow> json \<Rightarrow> unit res" where
  "validate_prob name v =
     raise_if (v \<noteq> JNull \<and> \<not> num_with (\<lambda>x. 0 \<le> x \<and> x \<le> 1) v) (SchemaError (name @ '' must be a number in 0..1''))"

definition validate_alpha :: "string \<Rightarrow> json \<Rightarrow> unit res" where
  "validate_alpha name v =
     raise_if (v \<noteq> JNull \<and> \<not> num_with (\<lambda>x. 0 < x \<and> x \<le> 1) v) (SchemaError (name @ '' must be a number in (0,1]''))"

definition validate_pos_int :: "string \<Rightarrow> json \<Rightarrow> unit res" where
  "validate_pos_int name v =
     raise_if (v \<noteq> JNull \<and> \<not> (case v of JInt n \<Rightarrow> n > 0 | _ \<Rightarrow> False)) (SchemaError (name @ '' must be a positive int''))"

definition validate_non_neg_num :: "string \<Rightarrow> json \<Rightarrow> unit res" where
  "validate_non_neg_num name v =
     raise_if (v \<noteq> JNull \<and> \<not> num_with (\<lambda>x. 0 \<le> x) v) (SchemaError (name @ '' must be a non-negative number''))"

definition check_port :: "string \<Rightarrow> json \<Rightarrow> unit res" where
  "check_port name v = raise_if (\<not> int_in 1 65535 v) (SchemaError (name @ '' must be an int in 1..65535''))"

definition check_bool :: "string \<Rightarrow> json \<Rightarrow> unit res" where
  "check_bool name v = raise_if (\<not> is_bool v) (SchemaError (name @ '' must be a bool''))"

definition check_opt_str :: "string \<Rightarrow> json \<Rightarrow> unit res" where
  "check_opt_str name v = raise_if (v \<noteq> JNull \<and> \<not> nonempty_str v) (SchemaError (name @ '' must be a non-empty string''))"

subsection \<open>Patches\<close>

definition patch_block :: "dict \<Rightarrow> string \<Rightarrow> string list \<Rightarrow> unit res" where
  "patch_block sparse name known = unless_none (dget sparse name JNull) (\<lambda>v. validate_block_keys name v known)"

definition validate_config_patch :: "json \<Rightarrow> unit res" where
  "validate_config_patch sparse = in_order
     [reject_unknown ''unknown config keys'' sparse CONFIG_TOP_KEYS,
      (case sparse of
         JObj d \<Rightarrow> in_order [patch_block d ''link'' LINK_KEYS, patch_block d ''dynamicLink'' DYNAMIC_LINK_KEYS,
                            patch_block d ''drone'' DRONE_KEYS]
       | _ \<Rightarrow> Inl AttributeError)]"

subsection \<open>Blocks of the configuration\<close>

definition validate_drone :: "json \<Rightarrow> unit res" where
  "validate_drone dr = (case dr of
     JObj d \<Rightarrow> in_order
       [raise_if (\<not> nonempty_str (dget d ''host'' (JStr ''10.5.0.10''))) (SchemaError ''drone.host must be a non-empty string''),
        check_port ''drone.apiPort'' (dget d ''apiPort'' (JInt 8080))]
   | _ \<Rightarrow> Inl (SchemaError ''drone must be an object''))"

text \<open>\<open>v.partition(sep)\<close>: what precedes the first occurrence of \<open>sep\<close> and what follows it.\<close>

fun str_partition :: "string \<Rightarrow> string \<Rightarrow> (string \<times> string) option" where
  "str_partition sep [] = (if sep = [] then Some ([], []) else None)"
| "str_partition sep (c # cs) =
     (if starts_with sep (c # cs) then Some ([], drop (length sep) (c # cs))
      else map_option (\<lambda>(a, b). (c # a, b)) (str_partition sep cs))"

definition validate_mavlink_peer :: "string \<Rightarrow> json \<Rightarrow> unit res" where
  "validate_mavlink_peer name v = (case v of
     JStr s \<Rightarrow>
       if s = [] then Inl (SchemaError (name @ '' must be a non-empty string''))
       else (case str_partition ''://'' s of
           None \<Rightarrow> Inl (SchemaError (name @ '' must match connect://host:port or listen://host:port''))
         | Some (scheme, rest) \<Rightarrow>
             if scheme \<noteq> ''connect'' \<and> scheme \<noteq> ''listen''
             then Inl (SchemaError (name @ '' must match connect://host:port or listen://host:port''))
             else (case split_last CHR '':'' rest of
                 None \<Rightarrow> Inl (SchemaError (name @ '' must match connect://host:port or listen://host:port''))
               | Some (host, port) \<Rightarrow>
                   raise_if (host = [] \<or> \<not> isdigit port)
                     (SchemaError (name @ '' must match connect://host:port or listen://host:port''))))
   | _ \<Rightarrow> Inl (SchemaError (name @ '' must be a non-empty string'')))"

definition validate_txsel :: "json \<Rightarrow> unit res" where
  "validate_txsel txsel = in_order
     [validate_block_keys ''wfb.txSelector'' txsel TX_SELECTOR_KEYS,
      (case txsel of
         JObj d \<Rightarrow> in_order
           [validate_non_neg_num ''wfb.txSelector.rssiDeltaDb'' (dget d ''rssiDeltaDb'' JNull),
            validate_prob ''wfb.txSelector.counterRelDelta'' (dget d ''counterRelDelta'' JNull),
            unless_none (dget d ''counterAbsDelta'' JNull) (\<lambda>v.
              raise_if (\<not> (case v of JInt n \<Rightarrow> 0 \<le> n | _ \<Rightarrow> False))
                (SchemaError ''wfb.txSelector.counterAbsDelta must be a non-negative int''))]
       | _ \<Rightarrow> Inr ())]"

definition validate_wfb :: "json \<Rightarrow> unit res" where
  "validate_wfb wfb = (case wfb of
     JObj d \<Rightarrow> in_order
       [unless_none (dget d ''txSelector'' JNull) validate_txsel,
        unless_none (dget d ''mavlink'' JNull) (\<lambda>mav. case mav of
           JObj m \<Rightarrow> validate_mavlink_peer ''wfb.mavlink.peer'' (dget m ''peer'' JNull)
         | _ \<Rightarrow> Inl (SchemaError ''wfb.mavlink must be an object''))]
   | _ \<Rightarrow> Inl (SchemaError ''wfb must be an object''))"

definition validate_beamforming :: "json \<Rightarrow> unit res" where
  "validate_beamforming bf = (case bf of
     JObj d \<Rightarrow> in_order
       [reject_unknown ''unknown link.beamforming keys'' bf [''enabled''],
        check_bool ''link.beamforming.enabled'' (dget d ''enabled'' (JBool False))]
   | _ \<Rightarrow> Inl (SchemaError ''link.beamforming must be an object''))"

definition validate_card :: "json \<Rightarrow> unit res" where
  "validate_card c = (case c of
     JStr _ \<Rightarrow> Inr ()
   | JObj d \<Rightarrow> in_order
       [raise_if (\<not> has_key d ''iface'') (SchemaError ''link.cards object entries require iface''),
        reject_unknown ''unknown link.cards keys'' c CARD_KEYS,
        raise_if (has_key d ''host'' \<and> \<not> nonempty_str (dget d ''host'' JNull)) (SchemaError ''link.cards.host must be a non-empty string''),
        check_port ''link.cards.sshPort'' (dget d ''sshPort'' (JInt 22)),
        raise_if (\<not> nonempty_str (dget d ''sshUser'' (JStr ''root''))) (SchemaError ''link.cards.sshUser must be a non-empty string''),
        raise_if (dget d ''sshKey'' JNull \<noteq> JNull \<and> \<not> is_str (dget d ''sshKey'' JNull)) (SchemaError ''link.cards.sshKey must be a string or absent''),
        raise_if (has_key d ''txPowerDbm'' \<and> dget d ''txPowerDbm'' JNull \<noteq> JNull \<and> dget d ''txPowerDbm'' JNull \<noteq> JStr ''off''
            \<and> \<not> num_with (\<lambda>_. True) (dget d ''txPowerDbm'' JNull))
          (SchemaError ''link.cards.txPowerDbm must be a number, off, or null''),
        raise_if (has_key d ''initScript'' \<and> dget d ''initScript'' JNull \<noteq> JNull \<and> \<not> is_str (dget d ''initScript'' JNull))
          (SchemaError ''link.cards.initScript must be a string or null'')]
   | _ \<Rightarrow> Inl (SchemaError ''link.cards entries must be a string or an object''))"

definition validate_cards :: "json \<Rightarrow> unit res" where
  "validate_cards cards = (case cards of
     JList cs \<Rightarrow> in_order (map validate_card cs)
   | _ \<Rightarrow> Inl (SchemaError ''link.cards must be a list or auto''))"

text \<open>\<open>parse_cards\<close> raising \<open>ValueError\<close> becomes a schema error.\<close>

definition validate_single_remote_host :: "json \<Rightarrow> unit res" where
  "validate_single_remote_host link = (case parse_cards link of
     Inl ValueError \<Rightarrow> Inl (SchemaError ''link.cards'')
   | Inl e \<Rightarrow> Inl e
   | Inr Auto \<Rightarrow> Inr ()
   | Inr (Cards cs) \<Rightarrow>
       let hosts = map cd_host (filter (\<lambda>c. cd_host c \<noteq> JNull) cs)
       in if list_ex (\<lambda>h. \<not> hashable h) hosts then Inl TypeError
          else raise_if (1 < length (py_set hosts)) (SchemaError ''multiple remote-card hosts not yet supported''))"

definition validate_tap :: "json \<Rightarrow> unit res" where
  "validate_tap tap = (case tap of
     JObj d \<Rightarrow> in_order
       [reject_unknown ''unknown dynamicLink.tap keys'' tap TAP_KEYS,
        check_bool ''dynamicLink.tap.enabled'' (dget d ''enabled'' (JBool True)),
        check_bool ''dynamicLink.tap.captureRaw'' (dget d ''captureRaw'' (JBool False)),
        raise_if (\<not> int_in 1024 65535 (dget d ''port'' (JInt 8110))) (SchemaError ''dynamicLink.tap.port must be an int in 1024..65535''),
        raise_if (\<not> num_with (\<lambda>x. 0 < x) (dget d ''staleMs'' (JInt 500))) (SchemaError ''dynamicLink.tap.staleMs must be > 0'')]
   | _ \<Rightarrow> Inl (SchemaError ''dynamicLink.tap must be an object''))"

definition validate_probe :: "json \<Rightarrow> unit res" where
  "validate_probe probe = (case probe of
     JObj d \<Rightarrow> in_order
       [reject_unknown ''unknown dynamicLink.probe keys'' probe PROBE_KEYS,
        raise_if (has_key d ''enabled'' \<and> \<not> is_bool (dget d ''enabled'' JNull)) (SchemaError ''dynamicLink.probe.enabled must be a bool'')]
   | _ \<Rightarrow> Inl (SchemaError ''dynamicLink.probe must be an object''))"

definition selector_name :: "string \<Rightarrow> string" where
  "selector_name k = ''dynamicLink.selector.'' @ k"

definition validate_selector :: "json \<Rightarrow> unit res" where
  "validate_selector sel = in_order
     [validate_block_keys ''dynamicLink.selector'' sel SELECTOR_KEYS,
      (case sel of
         JObj d \<Rightarrow> in_order
           (map (\<lambda>k. validate_prob (selector_name k) (dget d k JNull)) [''videoDemotePer'', ''emergencyFecPressure'']
            @ map (\<lambda>k. validate_pos_int (selector_name k) (dget d k JNull)) [''starvationWindows'', ''promoteDwellTicks'']
            @ map (\<lambda>k. validate_non_neg_num (selector_name k) (dget d k JNull))
                [''holdModesDownMs'', ''minBetweenChangesMs'', ''snrPromoteMarginDb'', ''snrDemoteMarginDb'', ''trialWindowMs'',
                 ''collapseDeltaDb'', ''snapbackRecoverMarginDb'', ''confirmTtlMs'', ''flapSnrReleaseDb'', ''flapDecayMs'']
            @ [raise_if (dget d ''promoteSlopeMin'' JNull \<noteq> JNull \<and> \<not> num_with (\<lambda>_. True) (dget d ''promoteSlopeMin'' JNull))
                 (SchemaError ''dynamicLink.selector.promoteSlopeMin must be a number''),
               res_bind (num_le (dget d ''snrDemoteMarginDb'' (JFloat (3 / 2))) (dget d ''snrPromoteMarginDb'' (JFloat 1)))
                 (\<lambda>le. raise_if le (SchemaError ''dynamicLink.selector.snrDemoteMarginDb must be > snrPromoteMarginDb''))])
       | _ \<Rightarrow> Inr ())]"

definition validate_smoothing :: "json \<Rightarrow> unit res" where
  "validate_smoothing sm = in_order
     [validate_block_keys ''dynamicLink.smoothing'' sm SMOOTHING_KEYS,
      (case sm of
         JObj d \<Rightarrow> in_order
           (map (\<lambda>k. validate_alpha (''dynamicLink.smoothing.'' @ k) (dget d k JNull)) [''ewmaAlphaRssi'', ''ewmaAlphaFec'', ''ewmaAlphaBurst'']
            @ [validate_non_neg_num ''dynamicLink.smoothing.starvationThresholdPps'' (dget d ''starvationThresholdPps'' JNull)])
       | _ \<Rightarrow> Inr ())]"

definition validate_learned_prior :: "json \<Rightarrow> unit res" where
  "validate_learned_prior lp = in_order
     [validate_block_keys ''dynamicLink.learnedPrior'' lp LEARNED_PRIOR_KEYS,
      (case lp of
         JObj d \<Rightarrow> in_order
           ([validate_pos_int ''dynamicLink.learnedPrior.settleTicks'' (dget d ''settleTicks'' JNull),
             validate_non_neg_num ''dynamicLink.learnedPrior.minSamples'' (dget d ''minSamples'' JNull),
             validate_prob ''dynamicLink.learnedPrior.viableLoss'' (dget d ''viableLoss'' JNull)]
            @ map (\<lambda>k. validate_alpha (''dynamicLink.learnedPrior.'' @ k) (dget d k JNull)) [''alphaTighten'', ''alphaRelax'', ''recencyDecay''])
       | _ \<Rightarrow> Inr ())]"

definition validate_flightlog :: "json \<Rightarrow> unit res" where
  "validate_flightlog fl = in_order
     [validate_block_keys ''dynamicLink.flightlog'' fl [''enabled''],
      (case fl of JObj d \<Rightarrow> check_bool ''dynamicLink.flightlog.enabled'' (dget d ''enabled'' (JBool True)) | _ \<Rightarrow> Inr ())]"

definition validate_dynamic_link :: "json \<Rightarrow> unit res" where
  "validate_dynamic_link dl = in_order
     [reject_unknown ''unknown dynamicLink keys'' dl DYNAMIC_LINK_KEYS,
      (case dl of
         JObj d \<Rightarrow> in_order
           [raise_if (\<not> int_in 0 7 (dget d ''maxMcs'' (JInt 5))) (SchemaError ''dynamicLink.maxMcs must be an int in 0..7''),
            check_port ''dynamicLink.dronePort'' (dget d ''dronePort'' (JInt 9999)),
            unless_none (dget d ''tap'' JNull) validate_tap,
            unless_none (dget d ''probe'' JNull) validate_probe,
            check_bool ''dynamicLink.enabled'' (dget d ''enabled'' (JBool False)),
            unless_none (dget d ''selector'' JNull) validate_selector,
            unless_none (dget d ''smoothing'' JNull) validate_smoothing,
            unless_none (dget d ''learnedPrior'' JNull) validate_learned_prior,
            unless_none (dget d ''flightlog'' JNull) validate_flightlog]
       | _ \<Rightarrow> Inl AttributeError)]"

definition validate_idr_forward :: "json \<Rightarrow> unit res" where
  "validate_idr_forward idr = (case idr of
     JObj d \<Rightarrow> in_order [check_bool ''idrForward.enabled'' (dget d ''enabled'' (JBool True)),
                        check_port ''idrForward.port'' (dget d ''port'' (JInt 11223))]
   | _ \<Rightarrow> Inl AttributeError)"

definition validate_connection_monitor :: "json \<Rightarrow> unit res" where
  "validate_connection_monitor cm = (case cm of
     JObj d \<Rightarrow> in_order
       ([check_bool ''connectionMonitor.enabled'' (dget d ''enabled'' (JBool True))]
        @ map (\<lambda>k. unless_none (dget d k JNull) (\<lambda>v.
              raise_if (\<not> num_with (\<lambda>x. 0 < x) v) (SchemaError (''connectionMonitor.'' @ k @ '' must be a positive number''))))
            [''tunnelStaleS'', ''httpPollS'', ''httpTimeoutS'', ''evalIntervalS'', ''disconnectGraceS'']
        @ [validate_pos_int ''connectionMonitor.httpFailCount'' (dget d ''httpFailCount'' JNull),
           res_bind (num_le (dget d ''tunnelStaleS'' (JFloat 4)) (dget d ''httpPollS'' (JFloat (3 / 2))))
             (\<lambda>le. raise_if le (SchemaError ''connectionMonitor.tunnelStaleS must be > httpPollS''))])
   | _ \<Rightarrow> Inl (SchemaError ''connectionMonitor must be an object''))"

definition validate_dvr :: "json \<Rightarrow> unit res" where
  "validate_dvr dvr = (case dvr of
     JObj d \<Rightarrow> in_order
       (map (\<lambda>k. check_opt_str (''pixelpilot.dvr.'' @ k) (dget d k JNull)) [''dir'', ''template'']
        @ map (\<lambda>k. raise_if (has_key d k \<and> \<not> is_bool (dget d k JNull)) (SchemaError (''pixelpilot.dvr.'' @ k @ '' must be a bool'')))
            [''fmp4'', ''sequencedFiles''])
   | _ \<Rightarrow> Inl (SchemaError ''pixelpilot.dvr must be an object''))"

definition validate_pixelpilot :: "json \<Rightarrow> unit res" where
  "validate_pixelpilot pp = (case pp of
     JObj d \<Rightarrow> in_order
       ([check_bool ''pixelpilot.enabled'' (dget d ''enabled'' (JBool True)),
         check_port ''pixelpilot.rtpPort'' (dget d ''rtpPort'' (JInt 5600))]
        @ map (\<lambda>k. check_opt_str (''pixelpilot.'' @ k) (dget d k JNull)) [''screenMode'', ''bin'', ''configPath'', ''osdConfigPath'', ''codec'']
        @ [validate_dvr (dget d ''dvr'' (JObj [])),
           raise_if (\<not> (case dget d ''env'' (JObj []) of JObj e \<Rightarrow> list_all (\<lambda>(k, v). is_str v) e | _ \<Rightarrow> False))
             (SchemaError ''pixelpilot.env must be a map of string to string''),
           raise_if (\<not> (case dget d ''extraArgs'' (JList []) of JList xs \<Rightarrow> list_all is_str xs | _ \<Rightarrow> False))
             (SchemaError ''pixelpilot.extraArgs must be a list of strings'')])
   | _ \<Rightarrow> Inl AttributeError)"

subsection \<open>The whole configuration\<close>

definition dl_enabled :: "dict \<Rightarrow> bool res" where
  "dl_enabled cfg = res_bind (jget (or_empty (dget cfg ''dynamicLink'' JNull)) ''enabled'' (JBool False)) (\<lambda>v. Inr (truthy v))"

definition check_width :: "dict \<Rightarrow> json \<Rightarrow> unit res" where
  "check_width cfg width = in_order
     [unless_none width (\<lambda>w. res_bind (in_int_set VALID_WIDTHS w) (\<lambda>ok. raise_if (\<not> ok) (SchemaError ''link.width must be one of''))),
      if py_eq width (JInt 5) \<or> py_eq width (JInt 40)
      then res_bind (dl_enabled cfg) (\<lambda>en. raise_if en (SchemaError ''link.width 5/40 MHz requires dynamicLink.enabled=false''))
      else Inr ()]"

definition validate_link :: "(dict \<Rightarrow> bool) option \<Rightarrow> dict \<Rightarrow> dict \<Rightarrow> unit res" where
  "validate_link bf_capable cfg link =
     (let bf = dget link ''beamforming'' JNull; cards = dget link ''cards'' JNull; server_addr = dget link ''serverAddress'' JNull
      in in_order
       [check_width cfg (dget link ''width'' JNull),
        raise_if (\<not> truthy (dget link ''region'' JNull)) (SchemaError ''link.region is required''),
        raise_if (\<not> truthy (dget link ''channel'' JNull)) (SchemaError ''link.channel is required''),
        unless_none bf validate_beamforming,
        (if cards \<noteq> JNull \<and> cards \<noteq> JStr ''auto'' then validate_cards cards else Inr ()),
        validate_single_remote_host (JObj link),
        raise_if (server_addr \<noteq> JNull \<and> \<not> is_str server_addr) (SchemaError ''link.serverAddress must be a string or null''),
        (case bf of
           JObj b \<Rightarrow> raise_if (truthy (dget b ''enabled'' JNull) \<and> (case bf_capable of None \<Rightarrow> False | Some f \<Rightarrow> \<not> f cfg))
             (SchemaError ''beamforming requires a card with a bf_monitor_conf node'')
         | _ \<Rightarrow> Inr ())])"

definition validate_effective :: "(dict \<Rightarrow> bool) option \<Rightarrow> dict \<Rightarrow> unit res" where
  "validate_effective bf_capable cfg = in_order
     [(case dget cfg ''link'' (JObj []) of JObj link \<Rightarrow> validate_link bf_capable cfg link | _ \<Rightarrow> Inl AttributeError),
      unless_none (dget cfg ''dynamicLink'' JNull) validate_dynamic_link,
      unless_none (dget cfg ''pixelpilot'' JNull) validate_pixelpilot,
      unless_none (dget cfg ''idrForward'' JNull) validate_idr_forward,
      unless_none (dget cfg ''connectionMonitor'' JNull) validate_connection_monitor,
      unless_none (dget cfg ''drone'' JNull) validate_drone,
      unless_none (dget cfg ''wfb'' JNull) validate_wfb]"

end
