(* ===== verification/Knee_Model.thy ===== *)
theory Knee_Model
  imports Py_Json
begin

text \<open>
  \<open>src/gs/fpvdgs/dynlink/learned_prior.py\<close>: the learned SNR prior. \<open>knee_model\<close> is the
  state of \<open>KneeModel\<close> (one knee and one decayed sample count per MCS rung),
  \<open>learned_prior\<close> that of the persisted facade \<open>LearnedPrior\<close>. The directory the prior
  is persisted in is part of its state: a map from paths to file contents, and whether a
  write succeeds.

  The lemmas show what a sample may do to a knee, that the effective knees are the
  cumulative maximum over confident rungs, how fast knees converge and how large counts
  become, and that a flushed prior is read back unchanged. The locale \<open>viability_prior\<close>
  is the contract the MCS selector relies on; \<open>lp\<close> interprets it.
\<close>

section \<open>Definitions\<close>

subsection \<open>Least-squares slope\<close>

definition lsq_slope :: "real list \<Rightarrow> real" where
  "lsq_slope samples = (let n = length samples in
     if n < 2 then 0
     else let mean_x = (real n - 1) / 2;
              mean_y = sum_list samples / real n;
              num = (\<Sum>(i, y) \<leftarrow> zip [0..<n] samples. (real i - mean_x) * (y - mean_y));
              den = (\<Sum>i \<leftarrow> [0..<n]. (real i - mean_x)\<^sup>2)
          in if den \<noteq> 0 then num / den else 0)"

subsection \<open>Configuration\<close>

definition MAX_MCS :: int where
  "MAX_MCS = 7"

definition UNBOUND_KEY :: string where
  "UNBOUND_KEY = ''unbound''"

record prior_cfg =
  settle_ticks :: int
  viable_loss :: real
  alpha_tighten :: real
  alpha_relax :: real
  min_samples :: real
  recency_decay :: real
  predictive_horizon_ticks :: int
  predictive_slope_window_ticks :: int
  predictive_min_drop_db :: real
  predictive_debounce_windows :: int
  predictive_demote_margin_db :: real
  flush_interval_observations :: int
  persist_dir :: string

definition default_prior_cfg :: prior_cfg where
  "default_prior_cfg = \<lparr>
     settle_ticks = 5, viable_loss = 5 / 100, alpha_tighten = 25 / 100,
     alpha_relax = 5 / 100, min_samples = 8, recency_decay = 9995 / 10000,
     predictive_horizon_ticks = 3, predictive_slope_window_ticks = 10,
     predictive_min_drop_db = 1, predictive_debounce_windows = 3,
     predictive_demote_margin_db = 3 / 2, flush_interval_observations = 50,
     persist_dir = ''/etc/fpvd/learned'' \<rparr>"

subsection \<open>KneeModel\<close>

record knee_model =
  knee :: "real option list"
  count :: "real list"

definition new_knee_model :: knee_model where
  "new_knee_model =
     \<lparr> knee = replicate (nat (MAX_MCS + 1)) None, count = replicate (nat (MAX_MCS + 1)) 0 \<rparr>"

text \<open>The knee of the observed rung after a sample.\<close>

definition observe_knee :: "prior_cfg \<Rightarrow> real \<Rightarrow> bool \<Rightarrow> real option \<Rightarrow> real option" where
  "observe_knee cfg value clean kn = (case kn of
     None \<Rightarrow> if \<not> clean then Some value else None
   | Some k \<Rightarrow>
       if clean \<and> value < k then Some (k + alpha_relax cfg * (value - k))
       else if \<not> clean \<and> value > k then Some (k + alpha_tighten cfg * (value - k))
       else Some k)"

definition observe :: "prior_cfg \<Rightarrow> int \<Rightarrow> real \<Rightarrow> bool \<Rightarrow> knee_model \<Rightarrow> knee_model" where
  "observe cfg rung value clean m =
     (if rung < 0 \<or> rung > MAX_MCS then m
      else let d = recency_decay cfg;
               counts = (if d < 1 then map (\<lambda>c. c * d) (count m) else count m);
               r = nat rung
           in m\<lparr> knee := (knee m)[r := observe_knee cfg value clean (knee m ! r)],
                 count := counts[r := counts ! r + 1] \<rparr>)"

text \<open>The loop of \<open>_eff_knees\<close>: \<open>run\<close> is the largest confident knee seen so far.\<close>

fun eff_loop :: "real \<Rightarrow> real option \<Rightarrow> (real option \<times> real) list \<Rightarrow> real option list" where
  "eff_loop ms run [] = []"
| "eff_loop ms run ((kn, c) # rest) =
     (case kn of
        Some k \<Rightarrow>
          if c \<ge> ms
          then let run' = (case run of None \<Rightarrow> k | Some q \<Rightarrow> max q k)
               in Some run' # eff_loop ms (Some run') rest
          else None # eff_loop ms run rest
      | None \<Rightarrow> None # eff_loop ms run rest)"

definition eff_knees :: "prior_cfg \<Rightarrow> knee_model \<Rightarrow> real option list" where
  "eff_knees cfg m = eff_loop (min_samples cfg) None (zip (knee m) (count m))"

definition rung_unviable :: "prior_cfg \<Rightarrow> knee_model \<Rightarrow> int \<Rightarrow> real \<Rightarrow> real \<Rightarrow> bool" where
  "rung_unviable cfg m rung value margin =
     (if rung < 0 \<or> rung > MAX_MCS then False
      else case eff_knees cfg m ! nat rung of None \<Rightarrow> False | Some k \<Rightarrow> value < k - margin)"

definition rung_confident :: "prior_cfg \<Rightarrow> knee_model \<Rightarrow> int \<Rightarrow> bool" where
  "rung_confident cfg m rung =
     (if rung < 0 \<or> rung > MAX_MCS then False else eff_knees cfg m ! nat rung \<noteq> None)"

definition knees_snapshot :: "knee_model \<Rightarrow> real option list" where
  "knees_snapshot m = map (map_option (\<lambda>k. py_round k 1)) (knee m)"

definition SCHEMA_VERSION :: int where
  "SCHEMA_VERSION = 3"

definition knee_to_dict :: "knee_model \<Rightarrow> json" where
  "knee_to_dict m = JObj
     [(''schema'', JInt SCHEMA_VERSION),
      (''knees'', JList (map (\<lambda>k. case k of None \<Rightarrow> JNull | Some x \<Rightarrow> JFloat x) (knee m))),
      (''counts'', JList (map JFloat (count m)))]"

definition load_knee :: "json \<Rightarrow> real option res" where
  "load_knee k = (if k = JNull then Inr None
     else case to_float k of Inl e \<Rightarrow> Inl e | Inr x \<Rightarrow> Inr (Some x))"

text \<open>\<open>load_dict\<close> assigns the knees before it converts the counts, so a count that does
  not convert leaves the new knees behind; the exception reaches the caller either way.\<close>

definition load_dict :: "json \<Rightarrow> knee_model \<Rightarrow> (bool \<times> knee_model) res" where
  "load_dict doc m = (case doc of
     JObj d \<Rightarrow>
       if \<not> py_eq (dget d ''schema'' JNull) (JInt SCHEMA_VERSION) then Inr (False, m)
       else (case (dget d ''knees'' JNull, dget d ''counts'' JNull) of
           (JList knees, JList counts) \<Rightarrow>
             if int (length knees) = MAX_MCS + 1 \<and> int (length counts) = MAX_MCS + 1
             then (case res_map load_knee knees of
                 Inl e \<Rightarrow> Inl e
               | Inr ks \<Rightarrow> (case res_map to_float counts of
                   Inl e \<Rightarrow> Inl e
                 | Inr cs \<Rightarrow> Inr (True, m\<lparr> knee := ks, count := cs \<rparr>)))
             else Inr (False, m)
         | _ \<Rightarrow> Inr (False, m))
   | _ \<Rightarrow> Inr (False, m))"

subsection \<open>LearnedPrior\<close>

text \<open>A file of the persistence directory: a JSON document, or one that \<open>open\<close> or
  \<open>json.load\<close> fails on.\<close>

datatype prior_file = JsonFile json | UnreadableFile

record prior_disk =
  files :: "string \<rightharpoonup> prior_file"
  writable :: bool

record learned_prior =
  lp_key :: string
  lp_cfg :: prior_cfg
  ephemeral :: bool
  snr_model :: knee_model
  since_flush :: int
  disk :: prior_disk

definition safe_char :: "char \<Rightarrow> bool" where
  "safe_char c = ((65 \<le> code c \<and> code c \<le> 90) \<or> (97 \<le> code c \<and> code c \<le> 122) \<or>
     is_digit_char c \<or> c = CHR ''.'' \<or> c = CHR ''_'' \<or> c = CHR ''-'')"

text \<open>\<open>os.path.join(d, name)\<close> for a name without slashes.\<close>

definition path_join :: "string \<Rightarrow> string \<Rightarrow> string" where
  "path_join d name = (if d = [] \<or> last d = CHR ''/'' then d @ name else d @ ''/'' @ name)"

definition prior_path :: "prior_cfg \<Rightarrow> string \<Rightarrow> string" where
  "prior_path cfg key =
     path_join (persist_dir cfg) (map (\<lambda>c. if safe_char c then c else CHR ''_'') key @ ''.json'')"

definition load_prior :: "learned_prior \<Rightarrow> learned_prior res" where
  "load_prior lp =
     (if ephemeral lp then Inr lp
      else case files (disk lp) (prior_path (lp_cfg lp) (lp_key lp)) of
          None \<Rightarrow> Inr lp
        | Some UnreadableFile \<Rightarrow> Inr lp
        | Some (JsonFile doc) \<Rightarrow>
            (case jget doc ''snr'' JNull of
               Inl e \<Rightarrow> Inl e
             | Inr snr_doc \<Rightarrow>
                 if snr_doc = JNull then Inr lp
                 else (case load_dict snr_doc (snr_model lp) of
                     Inl e \<Rightarrow> Inl e
                   | Inr (_, m) \<Rightarrow> Inr (lp\<lparr> snr_model := m \<rparr>))))"

definition new_learned_prior :: "string \<Rightarrow> prior_cfg \<Rightarrow> prior_disk \<Rightarrow> learned_prior res" where
  "new_learned_prior key cfg dsk = load_prior
     \<lparr> lp_key = key, lp_cfg = cfg, ephemeral = (key = UNBOUND_KEY),
       snr_model = new_knee_model, since_flush = 0, disk = dsk \<rparr>"

text \<open>\<open>flush\<close> writes \<open>path.tmp\<close> and renames it over \<open>path\<close>; an OSError is logged.\<close>

definition flush_prior :: "learned_prior \<Rightarrow> learned_prior" where
  "flush_prior lp =
     (if ephemeral lp \<or> \<not> writable (disk lp) then lp
      else let p = prior_path (lp_cfg lp) (lp_key lp);
               doc = JObj [(''key'', JStr (lp_key lp)), (''snr'', knee_to_dict (snr_model lp))]
           in lp\<lparr> disk := (disk lp)\<lparr> files :=
                 (files (disk lp))(p @ ''.tmp'' := None, p \<mapsto> JsonFile doc) \<rparr> \<rparr>)"

text \<open>The common tail of \<open>ingest\<close> and \<open>teach_failure\<close>: learn, count, flush when due.\<close>

definition learn :: "int \<Rightarrow> real \<Rightarrow> bool \<Rightarrow> learned_prior \<Rightarrow> learned_prior" where
  "learn rung snr clean lp =
     (let lp1 = lp\<lparr> snr_model := observe (lp_cfg lp) rung snr clean (snr_model lp),
                    since_flush := since_flush lp + 1 \<rparr>
      in if since_flush lp1 \<ge> flush_interval_observations (lp_cfg lp1)
         then (flush_prior lp1)\<lparr> since_flush := 0 \<rparr> else lp1)"

definition ingest :: "real option \<Rightarrow> int option \<Rightarrow> bool \<Rightarrow> bool \<Rightarrow> learned_prior \<Rightarrow> learned_prior" where
  "ingest snr operating_mcs operating_clean settled lp = (case (operating_mcs, snr) of
     (Some r, Some v) \<Rightarrow> if \<not> settled then lp else learn r v operating_clean lp
   | _ \<Rightarrow> lp)"

definition teach_failure :: "int option \<Rightarrow> real option \<Rightarrow> learned_prior \<Rightarrow> learned_prior" where
  "teach_failure rung snr lp = (case (rung, snr) of
     (Some r, Some v) \<Rightarrow> learn r v False lp
   | _ \<Rightarrow> lp)"

definition snr_rung_confident :: "learned_prior \<Rightarrow> int \<Rightarrow> bool" where
  "snr_rung_confident lp rung = rung_confident (lp_cfg lp) (snr_model lp) rung"

definition snr_rung_unviable :: "learned_prior \<Rightarrow> int \<Rightarrow> real option \<Rightarrow> real \<Rightarrow> bool" where
  "snr_rung_unviable lp target snr margin = (case snr of
     None \<Rightarrow> False
   | Some v \<Rightarrow> rung_unviable (lp_cfg lp) (snr_model lp) target v margin)"

definition snr_predictive_rung_unviable ::
    "learned_prior \<Rightarrow> real option \<Rightarrow> real \<Rightarrow> int \<Rightarrow> real \<Rightarrow> bool" where
  "snr_predictive_rung_unviable lp snr slope_db_per_tick rung margin = (case snr of
     None \<Rightarrow> False
   | Some v \<Rightarrow>
       let projected = v + slope_db_per_tick * of_int (predictive_horizon_ticks (lp_cfg lp))
       in rung_unviable (lp_cfg lp) (snr_model lp) rung projected margin)"

text \<open>\<open>to_status\<close>: the key and the knees rounded to one decimal.\<close>

definition prior_to_status :: "learned_prior \<Rightarrow> string \<times> real option list" where
  "prior_to_status lp = (lp_key lp, knees_snapshot (snr_model lp))"

subsection \<open>Well-formed models\<close>

definition km_wf :: "knee_model \<Rightarrow> bool" where
  "km_wf m = (length (knee m) = nat (MAX_MCS + 1) \<and> length (count m) = nat (MAX_MCS + 1))"

definition rung_ok :: "int \<Rightarrow> bool" where
  "rung_ok r = (0 \<le> r \<and> r \<le> MAX_MCS)"

text \<open>The confident knees of a ladder prefix (the specification of \<open>_eff_knees\<close>).\<close>

definition conf_knees :: "real \<Rightarrow> (real option \<times> real) list \<Rightarrow> real set" where
  "conf_knees ms xs = {k. \<exists>c. (Some k, c) \<in> set xs \<and> ms \<le> c}"

definition confident_at :: "prior_cfg \<Rightarrow> knee_model \<Rightarrow> nat \<Rightarrow> bool" where
  "confident_at cfg m i = (knee m ! i \<noteq> None \<and> min_samples cfg \<le> count m ! i)"

definition counts_ok :: "prior_cfg \<Rightarrow> knee_model \<Rightarrow> bool" where
  "counts_ok cfg m = (\<forall>c \<in> set (count m). 0 \<le> c \<and> c \<le> 1 / (1 - recency_decay cfg))"

definition lp_wf :: "learned_prior \<Rightarrow> bool" where
  "lp_wf lp = (km_wf (snr_model lp) \<and> ephemeral lp = (lp_key lp = UNBOUND_KEY))"

text \<open>Learning rates are convex weights; a model and a prior for examples.\<close>

definition alphas_ok :: "prior_cfg \<Rightarrow> bool" where
  "alphas_ok cfg = (0 \<le> alpha_relax cfg \<and> alpha_relax cfg \<le> 1 \<and>
     0 \<le> alpha_tighten cfg \<and> alpha_tighten cfg \<le> 1)"

definition sample_model :: knee_model where
  "sample_model = \<lparr> knee = [None, Some 8, Some 6, Some 11, None, None, None, None],
     count = [3, 10, 9, 8, 0, 2, 0, 0] \<rparr>"

definition sample_prior :: learned_prior where
  "sample_prior = \<lparr> lp_key = ''rtl88:x2'', lp_cfg = default_prior_cfg, ephemeral = False,
     snr_model = sample_model, since_flush = 49, disk = \<lparr> files = Map.empty, writable = True \<rparr> \<rparr>"

section \<open>The contract of a viability prior\<close>

text \<open>
  What the selector relies on: an unviable verdict comes only from a confident rung, and
  it persists when the signal falls or the margin shrinks.
\<close>

locale viability_prior =
  fixes unviable :: "'p \<Rightarrow> int \<Rightarrow> real \<Rightarrow> real \<Rightarrow> bool"
    and confident :: "'p \<Rightarrow> int \<Rightarrow> bool"
  assumes unviable_confident: "unviable p r v m \<Longrightarrow> confident p r"
    and unviable_antimono: "unviable p r v m \<Longrightarrow> v' + m' \<le> v + m \<Longrightarrow> unviable p r v' m'"
begin

lemma cold_viable: "\<not> confident p r \<Longrightarrow> \<not> unviable p r v m"
  using unviable_confident by blast

text \<open>The dead band: at a signal where a promote onto the rung is allowed (headroom
  \<open>pm\<close> above the knee) the demote test (\<open>dm\<close> below the knee) does not fire, and
  it takes a fall of more than \<open>pm + dm\<close> for it to fire.\<close>

lemma dead_band:
  assumes "\<not> unviable p r v (- pm)" and "unviable p r v' dm"
  shows "v' + dm < v - pm"
proof (rule ccontr)
  assume "\<not> v' + dm < v - pm"
  then have "v + - pm \<le> v' + dm" by simp
  from unviable_antimono [OF assms(2) this] assms(1) show False by simp
qed

end

section \<open>Lemmas\<close>

subsection \<open>Observations\<close>

lemma km_wf_new [simp]: "km_wf new_knee_model"
  by (simp add: km_wf_def new_knee_model_def)

lemma km_wf_observe [simp]: "km_wf m \<Longrightarrow> km_wf (observe cfg r v c m)"
  by (simp add: km_wf_def observe_def Let_def)

lemma knee_observe_same:
  "rung_ok r \<Longrightarrow> km_wf m \<Longrightarrow>
    knee (observe cfg r v c m) ! nat r = observe_knee cfg v c (knee m ! nat r)"
  by (simp add: observe_def Let_def km_wf_def rung_ok_def)

lemma knee_observe_other:
  "nat r \<noteq> i \<Longrightarrow> knee (observe cfg r v c m) ! i = knee m ! i"
  by (simp add: observe_def Let_def)

lemma observe_knee_between:
  assumes "0 \<le> alpha_relax cfg" "alpha_relax cfg \<le> 1" "0 \<le> alpha_tighten cfg" "alpha_tighten cfg \<le> 1"
    and "observe_knee cfg v clean (Some k) = Some k'"
  shows "min k v \<le> k'" "k' \<le> max k v" "clean \<Longrightarrow> k' \<le> k" "\<not> clean \<Longrightarrow> k \<le> k'"
proof -
  have step: "v \<le> k + a * (v - k)" "k + a * (v - k) \<le> k" if "0 \<le> a" "a \<le> 1" "v < k" for a :: real
  proof -
    have "a * (k - v) \<le> 1 * (k - v)" by (rule mult_right_mono) (use that in auto)
    then show "v \<le> k + a * (v - k)" by (simp add: algebra_simps)
    have "0 \<le> a * (k - v)" using that by simp
    then show "k + a * (v - k) \<le> k" by (simp add: algebra_simps)
  qed
  have step': "k + a * (v - k) \<le> v" "k \<le> k + a * (v - k)" if "0 \<le> a" "a \<le> 1" "k < v" for a :: real
  proof -
    have "a * (v - k) \<le> 1 * (v - k)" by (rule mult_right_mono) (use that in auto)
    then show "k + a * (v - k) \<le> v" by simp
    show "k \<le> k + a * (v - k)" using that by simp
  qed
  have "(clean \<and> v < k \<and> k' = k + alpha_relax cfg * (v - k)) \<or>
      (\<not> clean \<and> k < v \<and> k' = k + alpha_tighten cfg * (v - k)) \<or> k' = k"
    using assms(5) by (auto simp: observe_knee_def split: if_splits)
  with step [of "alpha_relax cfg"] step' [of "alpha_tighten cfg"] assms(1-4)
  show "min k v \<le> k'" "k' \<le> max k v" "clean \<Longrightarrow> k' \<le> k" "\<not> clean \<Longrightarrow> k \<le> k'"
    by auto
qed

subsection \<open>Effective knees\<close>

lemma length_eff_loop [simp]: "length (eff_loop ms run xs) = length xs"
  by (induction ms run xs rule: eff_loop.induct) (auto simp: Let_def split: option.splits)

lemma finite_conf_knees [simp]: "finite (conf_knees ms xs)"
  by (rule finite_subset [of _ "the ` fst ` set xs"]) (force simp: conf_knees_def)+

lemma conf_knees_Nil [simp]: "conf_knees ms [] = {}"
  by (simp add: conf_knees_def)

lemma conf_knees_Cons:
  "conf_knees ms ((kn, c) # xs) = (if ms \<le> c then set_option kn else {}) \<union> conf_knees ms xs"
  by (cases kn) (auto simp: conf_knees_def)

lemma eff_loop_nth:
  "i < length xs \<Longrightarrow> eff_loop ms run xs ! i =
     (if fst (xs ! i) \<noteq> None \<and> ms \<le> snd (xs ! i)
      then Some (Max (set_option run \<union> conf_knees ms (take (Suc i) xs))) else None)"
proof (induction xs arbitrary: run i)
  case (Cons x rest)
  obtain kn c where x: "x = (kn, c)" by (cases x)
  show ?case
  proof (cases "kn \<noteq> None \<and> ms \<le> c")
    case True
    then obtain k where k: "kn = Some k" "ms \<le> c" by auto
    define q where "q = (case run of None \<Rightarrow> k | Some q \<Rightarrow> max q k)"
    have ins: "Max (insert k (set_option run \<union> A)) = Max (insert q A)" if "finite A" for A
      using that by (cases run; cases "A = {}")
        (auto simp: q_def max.assoc max.left_commute max.commute)
    have eff: "eff_loop ms run (x # rest) = Some q # eff_loop ms (Some q) rest"
      using k by (simp add: x q_def Let_def)
    show ?thesis
      using Cons.prems k ins [of "{}"] Cons.IH [of "i - 1" "Some q"] unfolding eff
      by (cases i) (auto simp: x conf_knees_Cons ins)
  next
    case False
    then have eff: "eff_loop ms run (x # rest) = None # eff_loop ms run rest"
      by (auto simp: x split: option.splits)
    show ?thesis
      using Cons.prems False Cons.IH [of "i - 1" run] unfolding eff
      by (cases i) (auto simp: x conf_knees_Cons split: if_splits)
  qed
qed simp

lemma length_eff_knees: "km_wf m \<Longrightarrow> length (eff_knees cfg m) = nat (MAX_MCS + 1)"
  by (simp add: eff_knees_def km_wf_def)

lemma conf_knees_ladder:
  assumes "km_wf m" "i < nat (MAX_MCS + 1)"
  shows "conf_knees (min_samples cfg) (take (Suc i) (zip (knee m) (count m))) =
     {k. \<exists>j \<le> i. knee m ! j = Some k \<and> min_samples cfg \<le> count m ! j}"
proof -
  have "set (take (Suc i) (zip (knee m) (count m))) = {(knee m ! j, count m ! j) | j. j \<le> i}"
    using assms by (force simp: km_wf_def set_conv_nth [of "take _ _"] less_Suc_eq_le)
  then show ?thesis by (fastforce simp: conf_knees_def)
qed

lemma eff_knees_nth:
  assumes "km_wf m" "i < nat (MAX_MCS + 1)"
  shows "eff_knees cfg m ! i = (if confident_at cfg m i
     then Some (Max {k. \<exists>j \<le> i. knee m ! j = Some k \<and> min_samples cfg \<le> count m ! j}) else None)"
  using assms eff_loop_nth [of i "zip (knee m) (count m)" "min_samples cfg" None]
  by (simp add: eff_knees_def confident_at_def km_wf_def flip: conf_knees_ladder [OF assms])

lemma ladder_finite: "finite {k. \<exists>j \<le> (i::nat). f j = Some k \<and> P j}"
proof -
  have "{k. \<exists>j \<le> i. f j = Some k \<and> P j} \<subseteq> (the \<circ> f) ` {..i}" by force
  then show ?thesis using finite_surj [of "{..i}"] by (meson finite_atMost)
qed

lemma eff_knees_mono:
  assumes "km_wf m" "j < nat (MAX_MCS + 1)" "i \<le> j"
    and "eff_knees cfg m ! i = Some a" "eff_knees cfg m ! j = Some b"
  shows "a \<le> b"
proof -
  have i: "i < nat (MAX_MCS + 1)" using assms by simp
  have conf: "confident_at cfg m i"
    using assms(4) eff_knees_nth [OF assms(1) i] by (auto split: if_splits)
  have "{k. \<exists>l \<le> i. knee m ! l = Some k \<and> min_samples cfg \<le> count m ! l}
      \<subseteq> {k. \<exists>l \<le> j. knee m ! l = Some k \<and> min_samples cfg \<le> count m ! l}"
    using assms(3) le_trans by blast
  moreover have "{k. \<exists>l \<le> i. knee m ! l = Some k \<and> min_samples cfg \<le> count m ! l} \<noteq> {}"
    using conf by (auto simp: confident_at_def)
  ultimately have "Max {k. \<exists>l \<le> i. knee m ! l = Some k \<and> min_samples cfg \<le> count m ! l}
      \<le> Max {k. \<exists>l \<le> j. knee m ! l = Some k \<and> min_samples cfg \<le> count m ! l}"
    by (rule Max_mono [OF _ _ ladder_finite])
  then show ?thesis
    using assms(4,5) eff_knees_nth [OF assms(1) i, of cfg] eff_knees_nth [OF assms(1,2), of cfg]
    by (simp split: if_splits)
qed

lemma rung_confident_iff:
  "km_wf m \<Longrightarrow> rung_confident cfg m r \<longleftrightarrow> rung_ok r \<and> confident_at cfg m (nat r)"
  using eff_knees_nth [of m "nat r" cfg]
  by (auto simp: rung_confident_def rung_ok_def split: if_splits)

interpretation lp: viability_prior "\<lambda>p r v. snr_rung_unviable p r (Some v)" snr_rung_confident
  by unfold_locales
    (auto simp: snr_rung_unviable_def snr_rung_confident_def rung_unviable_def rung_confident_def
      split: option.splits if_splits)

lemma unviable_None [simp]: "\<not> snr_rung_unviable lp r None m"
  by (simp add: snr_rung_unviable_def)

subsection \<open>Convergence and counts\<close>

lemma funpow_observe_knee_dirty:
  assumes "0 \<le> alpha_tighten cfg" "alpha_tighten cfg \<le> 1" "k \<le> v"
  shows "(observe_knee cfg v False ^^ n) (Some k) = Some (v - (1 - alpha_tighten cfg) ^ n * (v - k))"
proof (induction n)
  case (Suc n)
  define q where "q = (1 - alpha_tighten cfg) ^ n * (v - k)"
  have "0 \<le> q" using assms by (simp add: q_def)
  then have "observe_knee cfg v False (Some (v - q)) = Some (v - (1 - alpha_tighten cfg) * q)"
    by (auto simp: observe_knee_def algebra_simps)
  then show ?case using Suc by (simp add: q_def mult.assoc)
qed (simp add: algebra_simps)

lemma knee_funpow_observe:
  "rung_ok r \<Longrightarrow> km_wf m \<Longrightarrow>
    km_wf ((observe cfg r v c ^^ n) m) \<and>
    knee ((observe cfg r v c ^^ n) m) ! nat r = (observe_knee cfg v c ^^ n) (knee m ! nat r)"
  by (induction n) (simp_all add: knee_observe_same)

lemma count_step:
  assumes "0 \<le> d" "d < 1" "0 \<le> c" "c \<le> 1 / (1 - d)"
  shows "0 \<le> c * d \<and> c * d + 1 \<le> 1 / (1 - (d::real))"
proof -
  have "c * d \<le> 1 / (1 - d) * d" by (rule mult_right_mono) (use assms in auto)
  also have "1 / (1 - d) * d + 1 = 1 / (1 - d)" using assms by (simp add: field_simps)
  finally show ?thesis using assms by simp
qed

lemma counts_ok_observe:
  assumes "0 \<le> recency_decay cfg" "recency_decay cfg < 1" "counts_ok cfg m" "km_wf m"
  shows "counts_ok cfg (observe cfg r v c m)"
proof (cases "rung_ok r")
  case False
  then show ?thesis using assms(3) by (auto simp: observe_def rung_ok_def)
next
  case True
  then have r: "nat r < length (count m)" using assms(4) by (simp add: km_wf_def rung_ok_def)
  let ?d = "recency_decay cfg"
  have "0 \<le> x \<and> x \<le> 1 / (1 - ?d)"
    if x: "x \<in> set ((map (\<lambda>c. c * ?d) (count m))[nat r := count m ! nat r * ?d + 1])" for x
  proof -
    have "x \<in> insert (count m ! nat r * ?d + 1) ((\<lambda>c. c * ?d) ` set (count m))"
      using x set_update_subset_insert by fastforce
    then obtain y where "y \<in> set (count m)" "x = y * ?d \<or> x = y * ?d + 1"
      using nth_mem [OF r] by auto
    then show ?thesis
      using count_step [OF assms(1,2), of y] assms(3) by (auto simp: counts_ok_def)
  qed
  then show ?thesis
    using True assms(2) r by (auto simp: counts_ok_def observe_def rung_ok_def Let_def)
qed

text \<open>Any run of samples keeps the model well formed and, under a decay, its counts bounded.\<close>

interpretation knees: machine "\<lambda>m (r, v, c). observe cfg r v c m" "\<lambda>_. True"
  "\<lambda>m. km_wf m \<and> (0 \<le> recency_decay cfg \<and> recency_decay cfg < 1 \<longrightarrow> counts_ok cfg m)" for cfg
  by unfold_locales (simp add: counts_ok_observe split: prod.splits)

lemma counts_ok_new: "recency_decay cfg < 1 \<Longrightarrow> counts_ok cfg new_knee_model"
  by (simp add: counts_ok_def new_knee_model_def)

subsection \<open>Persistence\<close>

lemma flush_prior_simps [simp]:
  "snr_model (flush_prior lp) = snr_model lp" "lp_cfg (flush_prior lp) = lp_cfg lp"
  "lp_key (flush_prior lp) = lp_key lp" "ephemeral (flush_prior lp) = ephemeral lp"
  by (simp_all add: flush_prior_def Let_def)

lemma learn_simps [simp]:
  "lp_cfg (learn r v c lp) = lp_cfg lp" "lp_key (learn r v c lp) = lp_key lp"
  "ephemeral (learn r v c lp) = ephemeral lp"
  "snr_model (learn r v c lp) = observe (lp_cfg lp) r v c (snr_model lp)"
  by (simp_all add: learn_def Let_def)

lemma ingest_simps [simp]:
  "lp_cfg (ingest v r c s lp) = lp_cfg lp" "lp_key (ingest v r c s lp) = lp_key lp"
  by (simp_all add: ingest_def split: option.splits)

lemma teach_failure_simps [simp]:
  "lp_cfg (teach_failure r v lp) = lp_cfg lp" "lp_key (teach_failure r v lp) = lp_key lp"
  by (simp_all add: teach_failure_def split: option.splits)

lemma lp_wf_ops [simp]:
  "lp_wf lp \<Longrightarrow> lp_wf (ingest v r c s lp)" "lp_wf lp \<Longrightarrow> lp_wf (teach_failure r v lp)"
  by (simp_all add: ingest_def teach_failure_def lp_wf_def split: option.splits)

lemma load_dict_to_dict:
  assumes "km_wf m"
  shows "load_dict (knee_to_dict m) m0 = Inr (True, m0\<lparr> knee := knee m, count := count m \<rparr>)"
proof -
  have "res_map load_knee (map (\<lambda>k. case k of None \<Rightarrow> JNull | Some x \<Rightarrow> JFloat x) (knee m))
      = Inr (map id (knee m))"
    by (rule res_map_map) (simp add: load_knee_def to_float_def num_of_def split: option.splits)
  moreover have "res_map to_float (map JFloat (count m)) = Inr (map id (count m))"
    by (rule res_map_map) (simp add: to_float_def num_of_def)
  ultimately show ?thesis
    using assms py_eq_refl [of "JInt SCHEMA_VERSION"]
    by (simp add: load_dict_def knee_to_dict_def km_wf_def MAX_MCS_def)
qed

lemma flush_load:
  assumes "lp_wf lp" "\<not> ephemeral lp" "writable (disk lp)"
  shows "new_learned_prior (lp_key lp) (lp_cfg lp) (disk (flush_prior lp)) =
     Inr (flush_prior lp\<lparr> since_flush := 0 \<rparr>)"
proof -
  have "knee_to_dict (snr_model lp) \<noteq> JNull" by (simp add: knee_to_dict_def)
  moreover have "new_knee_model\<lparr> knee := knee (snr_model lp), count := count (snr_model lp) \<rparr> = snr_model lp"
    by (simp add: new_knee_model_def)
  ultimately show ?thesis
    using assms
    by (simp add: new_learned_prior_def load_prior_def flush_prior_def lp_wf_def Let_def load_dict_to_dict)
qed

lemma ephemeral_disk: "ephemeral lp \<Longrightarrow> disk (learn r v c lp) = disk lp"
  by (simp add: learn_def Let_def flush_prior_def)

subsection \<open>The slope of a line\<close>

lemma sum_list_line: "(\<Sum>i \<leftarrow> [0..<n]. a + b * real i) = real n * a + b * (real n * (real n - 1) / 2)"
  by (induction n) (simp_all add: algebra_simps add_divide_distrib diff_divide_distrib)

lemma lsq_slope_line:
  assumes "2 \<le> n"
  shows "lsq_slope (map (\<lambda>i. a + b * real i) [0..<n]) = b"
proof -
  define mx where "mx = (real n - 1) / 2"
  define den where "den = (\<Sum>i \<leftarrow> [0..<n]. (real i - mx)\<^sup>2)"
  have mean: "sum_list (map (\<lambda>i. a + b * real i) [0..<n]) / real n = a + b * mx"
    using assms by (simp add: sum_list_line mx_def field_simps)
  have "(\<Sum>(i, y) \<leftarrow> zip [0..<n] (map (\<lambda>i. a + b * real i) [0..<n]). (real i - mx) * (y - (a + b * mx)))
      = (\<Sum>i \<leftarrow> [0..<n]. b * (real i - mx)\<^sup>2)"
    by (simp add: zip_map2 zip_same_conv_map o_def power2_eq_square algebra_simps)
  also have "\<dots> = b * den" by (simp add: den_def sum_list_const_mult)
  finally have num: "(\<Sum>(i, y) \<leftarrow> zip [0..<n] (map (\<lambda>i. a + b * real i) [0..<n]).
      (real i - mx) * (y - (a + b * mx))) = b * den" .
  have "[0..<n] = 0 # [1..<n]" using assms by (simp add: upt_conv_Cons)
  then have "den = mx\<^sup>2 + (\<Sum>i \<leftarrow> [1..<n]. (real i - mx)\<^sup>2)" by (simp add: den_def)
  moreover have "0 < mx\<^sup>2" using assms by (simp add: mx_def)
  moreover have "0 \<le> (\<Sum>i \<leftarrow> [1..<n]. (real i - mx)\<^sup>2)" by (rule sum_list_nonneg) auto
  ultimately have "den \<noteq> 0" by linarith
  then show ?thesis
    using assms mean num by (simp add: lsq_slope_def Let_def mx_def [symmetric] den_def [symmetric])
qed

section \<open>Properties\<close>

lemma sample_model_simps [simp]:
  "km_wf sample_model" "knee sample_model = [None, Some 8, Some 6, Some 11, None, None, None, None]"
  "count sample_model = [3, 10, 9, 8, 0, 2, 0, 0]"
  by (simp_all add: sample_model_def km_wf_def MAX_MCS_def)

lemma default_prior_cfg_simps [simp]:
  "alpha_tighten default_prior_cfg = 1 / 4" "alpha_relax default_prior_cfg = 1 / 20"
  "min_samples default_prior_cfg = 8" "alphas_ok default_prior_cfg"
  by (simp_all add: default_prior_cfg_def alphas_ok_def)

lemma rung_ok_sample [simp]: "rung_ok 2" "rung_ok 3"
  by (simp_all add: rung_ok_def MAX_MCS_def)

text \<open>What one sample does to the knees. Only the sampled rung changes. A clean sample
  never plants a knee and never raises one; a dirty sample plants a missing knee at the
  sampled value and never lowers one. The new knee stays between the old knee and the
  sample.\<close>

theorem observe_effect:
  assumes "rung_ok r" "km_wf m" "alphas_ok cfg"
  shows "(\<forall>i. i \<noteq> nat r \<longrightarrow> knee (observe cfg r v clean m) ! i = knee m ! i) \<and>
    (case knee m ! nat r of
       None \<Rightarrow> knee (observe cfg r v clean m) ! nat r = (if clean then None else Some v)
     | Some k \<Rightarrow> (\<exists>k'. knee (observe cfg r v clean m) ! nat r = Some k' \<and>
         (if clean then min k v \<le> k' \<and> k' \<le> k else k \<le> k' \<and> k' \<le> max k v)))"
proof (cases "knee m ! nat r")
  case None
  then show ?thesis
    using assms by (auto simp: knee_observe_same knee_observe_other observe_knee_def)
next
  case (Some k)
  have "observe_knee cfg v clean (Some k) \<noteq> None" by (simp add: observe_knee_def)
  then obtain k' where k': "observe_knee cfg v clean (Some k) = Some k'" by blast
  show ?thesis
    using assms Some k' observe_knee_between [OF _ _ _ _ k']
    by (auto simp: knee_observe_same knee_observe_other alphas_ok_def)
qed

theorem observe_effect_witness:
  "knee (observe default_prior_cfg 3 15 False sample_model) ! 2 = Some 6 \<and>
   (\<exists>k'. knee (observe default_prior_cfg 3 15 False sample_model) ! 3 = Some k' \<and> 11 \<le> k' \<and> k' \<le> 15)"
  using observe_effect [of 3 sample_model default_prior_cfg 15 False]
  by simp

text \<open>\<open>_eff_knees\<close> computes the cumulative maximum of the confident knees: a rung with a
  knee and enough samples has the largest confident knee at or below it, every other rung has
  none; so the effective knees never decrease along the ladder.\<close>

theorem eff_knees_spec:
  assumes "km_wf m" "rung_ok r"
  shows "eff_knees cfg m ! nat r =
      (if knee m ! nat r \<noteq> None \<and> min_samples cfg \<le> count m ! nat r
       then Some (Max {k. \<exists>j \<le> nat r. knee m ! j = Some k \<and> min_samples cfg \<le> count m ! j})
       else None) \<and>
    (\<forall>i a b. i \<le> nat r \<longrightarrow> eff_knees cfg m ! i = Some a \<longrightarrow>
       eff_knees cfg m ! nat r = Some b \<longrightarrow> a \<le> b)"
proof -
  have r: "nat r < nat (MAX_MCS + 1)" using assms(2) by (auto simp: rung_ok_def)
  show ?thesis
    using eff_knees_nth [OF assms(1) r, of cfg] eff_knees_mono [OF assms(1) r]
    unfolding confident_at_def by blast
qed

theorem eff_knees_spec_witness:
  "eff_knees default_prior_cfg sample_model = [None, Some 8, Some 8, Some 11, None, None, None, None] \<and>
   eff_knees default_prior_cfg sample_model ! 2 =
     Some (Max {k. \<exists>j \<le> 2. knee sample_model ! j = Some k \<and> 8 \<le> count sample_model ! j})"
  using eff_knees_spec [of sample_model 2 default_prior_cfg]
  by (simp add: eff_knees_def)

text \<open>Repeated failures at the same signal value pull a knee below it geometrically
  towards it: after \<open>n\<close> of them the remaining distance is \<open>(1 - alpha_tighten) ^ n\<close> of the
  first one.\<close>

theorem tighten_converges:
  assumes "rung_ok r" "km_wf m" "alphas_ok cfg" "knee m ! nat r = Some k" "k \<le> v"
  shows "knee ((observe cfg r v False ^^ n) m) ! nat r = Some (v - (1 - alpha_tighten cfg) ^ n * (v - k))"
  using knee_funpow_observe [OF assms(1,2)] funpow_observe_knee_dirty [of cfg k v n] assms
  by (simp add: alphas_ok_def)

theorem tighten_converges_witness:
  "knee ((observe default_prior_cfg 3 15 False ^^ 2) sample_model) ! 3 = Some (15 - (3 / 4)\<^sup>2 * (15 - 11))"
  using tighten_converges [of 3 sample_model default_prior_cfg 11 15 2] by simp

text \<open>With a recency decay \<open>d < 1\<close> no sample count ever exceeds \<open>1 / (1 - d)\<close>, whatever
  is observed: a confidence gate \<open>min_samples\<close> above that limit is never passed.\<close>

theorem counts_bounded:
  assumes "0 \<le> recency_decay cfg" "recency_decay cfg < 1"
    and "1 / (1 - recency_decay cfg) < min_samples cfg"
  shows "\<not> rung_confident cfg (foldl (\<lambda>m (r, v, c). observe cfg r v c m) new_knee_model samples) rung"
proof -
  let ?m = "foldl (\<lambda>m (r, v, c). observe cfg r v c m) new_knee_model samples"
  have m: "km_wf ?m" "counts_ok cfg ?m"
    using knees.inv_run [of new_knee_model cfg samples] counts_ok_new assms(1,2)
    by (simp_all add: list_all_iff)
  have "count ?m ! nat rung < min_samples cfg" if "rung_ok rung"
  proof -
    have "count ?m ! nat rung \<in> set (count ?m)"
      by (rule nth_mem) (use m(1) that in \<open>simp add: km_wf_def rung_ok_def\<close>)
    then have "count ?m ! nat rung \<le> 1 / (1 - recency_decay cfg)"
      using m(2) by (simp add: counts_ok_def)
    then show ?thesis using assms(3) by linarith
  qed
  then have "\<not> (rung_ok rung \<and> confident_at cfg ?m (nat rung))"
    unfolding confident_at_def using leD by blast
  then show ?thesis using rung_confident_iff [OF m(1)] by blast
qed

theorem counts_bounded_witness:
  "\<not> rung_confident (default_prior_cfg\<lparr> recency_decay := 1 / 2, min_samples := 3 \<rparr>)
     (foldl (\<lambda>m (r, v, c). observe (default_prior_cfg\<lparr> recency_decay := 1 / 2, min_samples := 3 \<rparr>) r v c m)
        new_knee_model [(2, 9, False), (2, 8, False), (2, 7, False)]) 2"
  using counts_bounded [of "default_prior_cfg\<lparr> recency_decay := 1 / 2, min_samples := 3 \<rparr>"
      "[(2, 9, False), (2, 8, False), (2, 7, False)]" 2]
  by (simp del: foldl_Cons foldl_Nil)

text \<open>Persistence is a round trip: a bound prior that is flushed to a writable directory and
  constructed again under the same key has the same model, and the same disk. The pre-bind
  prior never writes.\<close>

theorem prior_persistence:
  assumes "lp_wf lp"
  shows "(\<not> ephemeral lp \<and> writable (disk lp) \<longrightarrow>
      new_learned_prior (lp_key lp) (lp_cfg lp) (disk (flush_prior lp)) =
        Inr (flush_prior lp\<lparr> since_flush := 0 \<rparr>)) \<and>
    snr_model (flush_prior lp\<lparr> since_flush := 0 \<rparr>) = snr_model lp \<and>
    (ephemeral lp \<longrightarrow> disk (flush_prior lp) = disk lp \<and> disk (learn r v c lp) = disk lp)"
proof -
  have "disk (flush_prior lp) = disk lp" if "ephemeral lp"
    using that by (simp add: flush_prior_def)
  then show ?thesis using flush_load [OF assms] ephemeral_disk [of lp] by simp
qed

theorem prior_persistence_witness:
  "new_learned_prior ''rtl88:x2'' default_prior_cfg (disk (flush_prior sample_prior)) =
     Inr (flush_prior sample_prior\<lparr> since_flush := 0 \<rparr>) \<and>
   files (disk (flush_prior sample_prior)) ''/etc/fpvd/learned/rtl88_x2.json'' \<noteq> None"
proof -
  have "prior_path default_prior_cfg ''rtl88:x2'' = ''/etc/fpvd/learned/rtl88_x2.json''"
    by (simp add: prior_path_def path_join_def safe_char_def is_digit_char_def code_def default_prior_cfg_def)
  then show ?thesis
    using prior_persistence [of sample_prior]
    by (simp add: lp_wf_def sample_prior_def UNBOUND_KEY_def flush_prior_def Let_def)
qed

text \<open>The slope estimator is exact on a straight line: on two or more evenly spaced samples
  of \<open>a + b * i\<close> it returns \<open>b\<close>.\<close>

theorem lsq_slope_exact:
  "2 \<le> n \<Longrightarrow> lsq_slope (map (\<lambda>i. a + b * real i) [0..<n]) = b"
  by (rule lsq_slope_line)

theorem lsq_slope_exact_witness: "lsq_slope [20, 18, 16, 14] = - 2"
  using lsq_slope_exact [of 4 20 "- 2"] by (simp add: upt_conv_Cons)

end
