(* ===== verification/Selector.thy ===== *)
theory Selector
  imports Knee_Model
begin

text \<open>
  \<open>src/gs/fpvdgs/dynlink/policy.py\<close>, the class \<open>LeadingSelector\<close>: the MCS selector with
  its three promote routes (snap-back, knee-gated, explore), the reactive one-step demote,
  the flap damper and the snap-back memory. \<open>selector\<close> is the object's state;
  \<open>select\<close> is the method, split where the method's comments split it (demote, clean-tick
  bookkeeping, promote). A log message of the reasons list is a value of \<open>reason\<close>, whose
  arguments are what the message formats.

  The lemmas give the invariant of the state, that \<open>select\<close> never raises on it, what a
  single call may change, and the guards of every route.
\<close>

section \<open>Definitions\<close>

subsection \<open>Configuration and state\<close>

definition RAW_MIN_RELEASE_WINDOW_TICKS :: nat where
  "RAW_MIN_RELEASE_WINDOW_TICKS = 20"

record selector_cfg =
  video_demote_per :: real
  emergency_fec_pressure :: real
  max_mcs :: int
  hold_modes_down_ms :: int
  min_between_changes_ms :: int
  starvation_windows :: int
  demote_cooldown_windows :: int
  snr_demote_debounce :: int
  snr_promote_margin_db :: real
  snr_demote_margin_db :: real
  flap_base_backoff_ms :: int
  flap_backoff_mult :: real
  flap_backoff_cap_ms :: int
  flap_reset_clean_dwell_ticks :: int
  promote_dwell_ticks :: int
  promote_slope_min :: real
  trial_window_ms :: int
  collapse_delta_db :: real
  flap_snr_release_db :: real
  flap_decay_ms :: int
  snapback_recover_margin_db :: real
  confirm_ttl_ms :: int

definition default_selector_cfg :: selector_cfg where
  "default_selector_cfg = \<lparr>
     video_demote_per = 5 / 100, emergency_fec_pressure = 80 / 100, max_mcs = 7,
     hold_modes_down_ms = 2000, min_between_changes_ms = 200, starvation_windows = 5,
     demote_cooldown_windows = 3, snr_demote_debounce = 2, snr_promote_margin_db = 1,
     snr_demote_margin_db = 3 / 2, flap_base_backoff_ms = 2000, flap_backoff_mult = 2,
     flap_backoff_cap_ms = 10000, flap_reset_clean_dwell_ticks = 30, promote_dwell_ticks = 30,
     promote_slope_min = - 5 / 100, trial_window_ms = 10000, collapse_delta_db = 4,
     flap_snr_release_db = 3, flap_decay_ms = 60000, snapback_recover_margin_db = 3,
     confirm_ttl_ms = 60000 \<rparr>"

record leading_state =
  current_mcs :: int
  last_change_time_ms :: real
  last_mcs_change_time_ms :: real

datatype fail_class = Fade | Flap | Burst

datatype release = Timer | RawMin | ProbeRelease

datatype reason =
    VideoPerDemote real fail_class
  | Emergency real bool
  | SnapbackPromote int
  | KneePromote
  | ExplorePromote

record selector =
  sel_cfg :: selector_cfg
  cap_mcs :: int
  st :: leading_state
  reasons :: "reason list"
  clean_dwell :: int
  flap_level :: "int \<rightharpoonup> int"
  suppress_until_ms :: "int \<rightharpoonup> real"
  snr_at_last_flap :: "int \<rightharpoonup> real"
  last_flap_ms :: "int \<rightharpoonup> real"
  snr_w_recent :: "real list"
  last_release :: "release option"
  promote_suppressed :: bool
  trial_rung :: "int option"
  trial_until_ms :: real
  confirmed_until_ms :: "(int \<times> real) list"
  confirmed_snr :: "int \<rightharpoonup> real"
  snapback_tgt :: "int option"
  last_fail :: "(int \<times> fail_class \<times> real) option"

definition new_selector :: "selector_cfg \<Rightarrow> selector res" where
  "new_selector cfg = (let cap = max_mcs cfg in
     if cap < 0 then Inl ValueError
     else let start_mcs = (if 1 > cap then cap else 1) in
       Inr \<lparr> sel_cfg = cfg, cap_mcs = cap,
         st = \<lparr> current_mcs = start_mcs, last_change_time_ms = - 1000000000,
                last_mcs_change_time_ms = - 1000000000 \<rparr>,
         reasons = [], clean_dwell = 0, flap_level = Map.empty, suppress_until_ms = Map.empty,
         snr_at_last_flap = Map.empty, last_flap_ms = Map.empty, snr_w_recent = [],
         last_release = None, promote_suppressed = False, trial_rung = None, trial_until_ms = 0,
         confirmed_until_ms = [], confirmed_snr = Map.empty, snapback_tgt = None,
         last_fail = None \<rparr>)"

subsection \<open>Helpers\<close>

definition emergency_active :: "selector \<Rightarrow> real \<Rightarrow> bool \<Rightarrow> bool" where
  "emergency_active s fec_pressure link_starved =
     (fec_pressure \<ge> emergency_fec_pressure (sel_cfg s) \<or> link_starved)"

definition flap_backoff_ms :: "selector_cfg \<Rightarrow> int \<Rightarrow> int" where
  "flap_backoff_ms cfg level =
     min (py_int (of_int (flap_base_backoff_ms cfg) * flap_backoff_mult cfg powi (min (level - 1) 40)))
         (flap_backoff_cap_ms cfg)"

definition effective_flap_level :: "selector \<Rightarrow> int \<Rightarrow> real \<Rightarrow> int" where
  "effective_flap_level s rung ts_ms =
     (let lvl = map_get (flap_level s) rung 0 in
      case last_flap_ms s rung of
        None \<Rightarrow> lvl
      | Some t0 \<Rightarrow>
          if lvl \<noteq> 0 \<and> flap_decay_ms (sel_cfg s) > 0
          then max 0 (lvl - py_int ((ts_ms - t0) / of_int (flap_decay_ms (sel_cfg s))))
          else lvl)"

definition charge_flap :: "int \<Rightarrow> real option \<Rightarrow> real \<Rightarrow> selector \<Rightarrow> selector" where
  "charge_flap rung snr_ewma ts_ms s =
     (let lvl = effective_flap_level s rung ts_ms + 1 in
      s\<lparr> flap_level := (flap_level s)(rung \<mapsto> lvl),
         last_flap_ms := (last_flap_ms s)(rung \<mapsto> ts_ms),
         suppress_until_ms :=
           (suppress_until_ms s)(rung \<mapsto> ts_ms + of_int (flap_backoff_ms (sel_cfg s) lvl)),
         snr_at_last_flap := (case snr_ewma of None \<Rightarrow> snr_at_last_flap s
           | Some v \<Rightarrow> (snr_at_last_flap s)(rung \<mapsto> v)) \<rparr>)"

definition suppressed :: "int \<Rightarrow> real \<Rightarrow> bool \<Rightarrow> selector \<Rightarrow> bool \<times> selector" where
  "suppressed rung ts_ms probe_release s =
     (let until = map_get (suppress_until_ms s) rung 0 in
      if ts_ms \<ge> until
      then (False, if until \<noteq> 0 then s\<lparr> last_release := Some Timer \<rparr> else s)
      else if probe_release then (False, s\<lparr> last_release := Some ProbeRelease \<rparr>)
      else (case snr_at_last_flap s rung of
          None \<Rightarrow> (True, s)
        | Some laf \<Rightarrow>
            if length (snr_w_recent s) = RAW_MIN_RELEASE_WINDOW_TICKS \<and>
               Min (set (snr_w_recent s)) \<ge> laf + flap_snr_release_db (sel_cfg s)
            then (False, s\<lparr> last_release := Some RawMin \<rparr>)
            else (True, s)))"

definition on_probation :: "selector \<Rightarrow> int \<Rightarrow> real \<Rightarrow> bool" where
  "on_probation s rung ts_ms = (Some rung = trial_rung s \<and> ts_ms < trial_until_ms s)"

definition classify :: "selector \<Rightarrow> int \<Rightarrow> real option \<Rightarrow> real option \<Rightarrow> real \<Rightarrow> fail_class" where
  "classify s rung snr_ewma snr_w ts_ms =
     (if (case (snr_ewma, snr_w) of
            (Some e, Some w) \<Rightarrow> w \<le> e - collapse_delta_db (sel_cfg s) | _ \<Rightarrow> False)
      then Fade
      else if on_probation s rung ts_ms then Flap
      else Burst)"

text \<open>The loop of \<open>_snapback_target\<close>; \<open>_confirmed_snr[r]\<close> raises KeyError when absent.\<close>

fun snapback_loop :: "selector \<Rightarrow> real \<Rightarrow> real \<Rightarrow> int option \<Rightarrow> (int \<times> real) list \<Rightarrow> int option res" where
  "snapback_loop s snr ts_ms best [] = Inr best"
| "snapback_loop s snr ts_ms best ((r, until) # rest) =
     (if until < ts_ms \<or> r > cap_mcs s then snapback_loop s snr ts_ms best rest
      else case confirmed_snr s r of
          None \<Rightarrow> Inl KeyError
        | Some c \<Rightarrow>
            snapback_loop s snr ts_ms
              (if snr \<ge> c - snapback_recover_margin_db (sel_cfg s) \<and>
                  (case best of None \<Rightarrow> True | Some b \<Rightarrow> r > b)
               then Some r else best) rest)"

definition snapback_target :: "selector \<Rightarrow> real \<Rightarrow> real \<Rightarrow> int option res" where
  "snapback_target s snr_ewma ts_ms = snapback_loop s snr_ewma ts_ms None (confirmed_until_ms s)"

definition external_demote :: "int \<Rightarrow> real \<Rightarrow> selector \<Rightarrow> selector" where
  "external_demote tgt ts_ms s =
     (let tgt = max 0 (min tgt (cap_mcs s)) in
      if tgt = current_mcs (st s) then s
      else s\<lparr> st := \<lparr> current_mcs = tgt, last_change_time_ms = ts_ms, last_mcs_change_time_ms = ts_ms \<rparr>,
              clean_dwell := 0, trial_rung := None \<rparr>)"

subsection \<open>select\<close>

record sel_in =
  i_snr_ewma :: "real option"
  i_snr_w :: "real option"
  i_slope :: "real option"
  i_loss_rate :: real
  i_loss_demote :: bool
  i_target_confident :: bool
  i_target_blocked :: bool
  i_fec_pressure :: real
  i_link_starved :: bool
  i_can_demote :: bool
  i_ts_ms :: real
  i_probe_veto :: bool
  i_probe_release :: bool

text \<open>The local function \<open>commit\<close>; the local list \<open>reasons\<close> is the field of the same
  name, which every return stores.\<close>

definition commit :: "real \<Rightarrow> int \<Rightarrow> reason \<Rightarrow> selector \<Rightarrow> selector" where
  "commit ts_ms new_mcs why s =
     (let new_mcs = max 0 (min new_mcs (cap_mcs s)) in
      if new_mcs \<noteq> current_mcs (st s)
      then s\<lparr> st := \<lparr> current_mcs = new_mcs, last_change_time_ms = ts_ms,
                       last_mcs_change_time_ms = ts_ms \<rparr>,
              clean_dwell := 0, reasons := reasons s @ [why] \<rparr>
      else s)"

definition select_begin :: "sel_in \<Rightarrow> selector \<Rightarrow> selector" where
  "select_begin i s =
     s\<lparr> reasons := [], last_fail := None, snapback_tgt := None, last_release := None,
        snr_w_recent := (case i_snr_w i of None \<Rightarrow> snr_w_recent s
          | Some w \<Rightarrow> deque_append RAW_MIN_RELEASE_WINDOW_TICKS w (snr_w_recent s)) \<rparr>"

definition is_emergency :: "sel_in \<Rightarrow> selector \<Rightarrow> bool" where
  "is_emergency i s = (i_loss_demote i \<or> emergency_active s (i_fec_pressure i) (i_link_starved i))"

text \<open>A loss demote: commit one rung down, report the knee sample, charge the damper.\<close>

definition loss_demote_step :: "sel_in \<Rightarrow> selector \<Rightarrow> selector" where
  "loss_demote_step i s =
     (let prev = current_mcs (st s);
          on_trial = on_probation s prev (i_ts_ms i);
          klass = classify s prev (i_snr_ewma i) (i_snr_w i) (i_ts_ms i);
          s1 = commit (i_ts_ms i) (prev - 1) (VideoPerDemote (i_loss_rate i) klass) s
      in if current_mcs (st s1) \<noteq> prev
         then let s2 = (case (klass, i_snr_w i, i_snr_ewma i) of
                    (Fade, Some w, _) \<Rightarrow> s1\<lparr> last_fail := Some (prev, Fade, w) \<rparr>
                  | (Flap, _, Some e) \<Rightarrow> s1\<lparr> last_fail := Some (prev, Flap, e) \<rparr>
                  | _ \<Rightarrow> s1)
              in if on_trial then charge_flap prev (i_snr_ewma i) (i_ts_ms i) s2 else s2
         else s1)"

definition select_demote :: "sel_in \<Rightarrow> selector \<Rightarrow> selector" where
  "select_demote i s =
     (let prev = current_mcs (st s);
          s1 = (if i_can_demote i
                then if i_loss_demote i then loss_demote_step i s
                     else commit (i_ts_ms i) (prev - 1)
                            (Emergency (i_fec_pressure i) (i_link_starved i)) s
                else s);
          s2 = (if current_mcs (st s1) \<noteq> prev then s1\<lparr> trial_rung := None \<rparr> else s1)
      in s2\<lparr> clean_dwell := 0 \<rparr>)"

text \<open>Clean-tick bookkeeping: dwell, damper clear, confirmation, end of probation.\<close>

definition damper_clear :: "selector \<Rightarrow> selector" where
  "damper_clear s =
     (let cur = current_mcs (st s) in
      if clean_dwell s \<ge> flap_reset_clean_dwell_ticks (sel_cfg s)
      then s\<lparr> flap_level := (flap_level s)(cur := None),
              suppress_until_ms := (suppress_until_ms s)(cur := None),
              snr_at_last_flap := (snr_at_last_flap s)(cur := None),
              last_flap_ms := (last_flap_ms s)(cur := None) \<rparr>
      else s)"

definition confirm_rung :: "real option \<Rightarrow> real \<Rightarrow> selector \<Rightarrow> selector" where
  "confirm_rung snr_ewma ts_ms s = (case snr_ewma of
     None \<Rightarrow> s
   | Some e \<Rightarrow>
       if clean_dwell s \<ge> promote_dwell_ticks (sel_cfg s)
       then let cur = current_mcs (st s);
                fresh = map_get (map_of (confirmed_until_ms s)) cur 0 \<ge> ts_ms
            in s\<lparr> confirmed_until_ms :=
                    AList.update cur (ts_ms + of_int (confirm_ttl_ms (sel_cfg s))) (confirmed_until_ms s),
                  confirmed_snr := (confirmed_snr s)(cur \<mapsto>
                    (case confirmed_snr s cur of
                       Some prev_conf \<Rightarrow> if fresh then max prev_conf e else e
                     | None \<Rightarrow> e)) \<rparr>
       else s)"

definition end_probation :: "real \<Rightarrow> selector \<Rightarrow> selector" where
  "end_probation ts_ms s =
     (if trial_rung s \<noteq> None \<and> ts_ms \<ge> trial_until_ms s then s\<lparr> trial_rung := None \<rparr> else s)"

definition clean_bookkeeping :: "sel_in \<Rightarrow> selector \<Rightarrow> selector" where
  "clean_bookkeeping i s =
     end_probation (i_ts_ms i)
       (confirm_rung (i_snr_ewma i) (i_ts_ms i)
         (damper_clear (s\<lparr> clean_dwell := clean_dwell s + 1 \<rparr>)))"

text \<open>The two dwell-gated routes (the \<open>elif\<close> of the promote block).\<close>

definition dwell_promote :: "sel_in \<Rightarrow> selector \<Rightarrow> selector" where
  "dwell_promote i s =
     (let cfg = sel_cfg s; target = current_mcs (st s) + 1;
          slope = (case i_slope i of None \<Rightarrow> 0 | Some x \<Rightarrow> x)
      in if \<not> i_ts_ms i - last_change_time_ms (st s) < of_int (hold_modes_down_ms cfg) \<and>
            clean_dwell s \<ge> promote_dwell_ticks cfg \<and> slope \<ge> promote_slope_min cfg
         then if i_target_confident i \<and> \<not> i_target_blocked i
              then commit (i_ts_ms i) target KneePromote s
              else if \<not> i_target_confident i then commit (i_ts_ms i) target ExplorePromote s
              else s
         else s)"

definition route_promote :: "sel_in \<Rightarrow> real \<Rightarrow> selector \<Rightarrow> selector res" where
  "route_promote i snr s =
     (let cur = current_mcs (st s);
          slope = (case i_slope i of None \<Rightarrow> 0 | Some x \<Rightarrow> x)
      in case snapback_target s snr (i_ts_ms i) of
           Inl e \<Rightarrow> Inl e
         | Inr sb \<Rightarrow>
             let s1 = s\<lparr> snapback_tgt := sb \<rparr>
             in Inr (case sb of
                  Some tgt \<Rightarrow>
                    if tgt > cur \<and> slope \<ge> 0 \<and> \<not> i_target_blocked i
                    then commit (i_ts_ms i) (cur + 1) (SnapbackPromote tgt) s1
                    else dwell_promote i s1
                | None \<Rightarrow> dwell_promote i s1))"

definition start_trial :: "int \<Rightarrow> real \<Rightarrow> selector \<Rightarrow> selector" where
  "start_trial prev ts_ms s =
     (if current_mcs (st s) > prev
      then s\<lparr> trial_rung := Some (current_mcs (st s)),
              trial_until_ms := ts_ms + of_int (trial_window_ms (sel_cfg s)) \<rparr>
      else s)"

definition select_promote :: "sel_in \<Rightarrow> selector \<Rightarrow> selector res" where
  "select_promote i s =
     (let target = current_mcs (st s) + 1 in
      case i_snr_ewma i of
        None \<Rightarrow> Inr (s\<lparr> promote_suppressed := False \<rparr>)
      | Some snr \<Rightarrow>
          if target > cap_mcs s then Inr (s\<lparr> promote_suppressed := False \<rparr>)
          else
            let (supp, s1) = suppressed target (i_ts_ms i) (i_probe_release i) s;
                s2 = s1\<lparr> promote_suppressed := supp \<rparr>;
                within_rate = i_ts_ms i - last_change_time_ms (st s2)
                                < of_int (min_between_changes_ms (sel_cfg s2))
            in if \<not> within_rate \<and> \<not> supp \<and> \<not> i_probe_veto i
               then (case route_promote i snr s2 of
                       Inl e \<Rightarrow> Inl e
                     | Inr s3 \<Rightarrow> Inr (start_trial (current_mcs (st s)) (i_ts_ms i) s3))
               else Inr s2)"

definition select :: "sel_in \<Rightarrow> selector \<Rightarrow> ((int \<times> bool) \<times> selector) res" where
  "select i s =
     (let prev = current_mcs (st s);
          s1 = select_begin i s;
          result = (\<lambda>s'. ((current_mcs (st s'), current_mcs (st s') \<noteq> prev), s'))
      in if is_emergency i s1 then Inr (result (select_demote i s1))
         else (case select_promote i (clean_bookkeeping i s1) of
                 Inl e \<Rightarrow> Inl e
               | Inr s2 \<Rightarrow> Inr (result s2)))"

subsection \<open>Invariant and specifications\<close>

definition sel_inv :: "selector \<Rightarrow> bool" where
  "sel_inv s = (0 \<le> current_mcs (st s) \<and> current_mcs (st s) \<le> cap_mcs s \<and>
     fst ` set (confirmed_until_ms s) \<subseteq> dom (confirmed_snr s) \<and>
     length (snr_w_recent s) \<le> RAW_MIN_RELEASE_WINDOW_TICKS \<and> 0 \<le> clean_dwell s)"

text \<open>The rungs snap-back may aim at.\<close>

definition snapback_rungs :: "selector \<Rightarrow> real \<Rightarrow> real \<Rightarrow> (int \<times> real) list \<Rightarrow> int set" where
  "snapback_rungs s snr ts_ms items = {r. \<exists>until c. (r, until) \<in> set items \<and> ts_ms \<le> until \<and>
     r \<le> cap_mcs s \<and> confirmed_snr s r = Some c \<and> c - snapback_recover_margin_db (sel_cfg s) \<le> snr}"

text \<open>The damper holds \<open>rung\<close> at \<open>ts_ms\<close>: its window is live and the raw-SNR minimum
  of a full window has not cleared the SNR of the last flap.\<close>

definition damper_holds :: "selector \<Rightarrow> int \<Rightarrow> real \<Rightarrow> bool" where
  "damper_holds s rung ts_ms =
     (ts_ms < map_get (suppress_until_ms s) rung 0 \<and>
      \<not> (case snr_at_last_flap s rung of None \<Rightarrow> False
         | Some laf \<Rightarrow> length (snr_w_recent s) = RAW_MIN_RELEASE_WINDOW_TICKS \<and>
             laf + flap_snr_release_db (sel_cfg s) \<le> Min (set (snr_w_recent s))))"

definition slope_of :: "sel_in \<Rightarrow> real" where
  "slope_of i = (case i_slope i of None \<Rightarrow> 0 | Some x \<Rightarrow> x)"

text \<open>What every promote route requires.\<close>

definition promote_guard :: "sel_in \<Rightarrow> selector \<Rightarrow> real \<Rightarrow> bool" where
  "promote_guard i s snr =
     (i_snr_ewma i = Some snr \<and> current_mcs (st s) < cap_mcs s \<and> \<not> i_probe_veto i \<and>
      of_int (min_between_changes_ms (sel_cfg s)) \<le> i_ts_ms i - last_change_time_ms (st s) \<and>
      (damper_holds (select_begin i s) (current_mcs (st s) + 1) (i_ts_ms i) \<longrightarrow> i_probe_release i))"

text \<open>States and inputs for examples: the selector after construction with the default
  configuration, one on probation at rung 3, a quiet tick and a loss.\<close>

definition boot_selector :: selector where
  "boot_selector = \<lparr> sel_cfg = default_selector_cfg, cap_mcs = 7,
     st = \<lparr> current_mcs = 1, last_change_time_ms = - 1000000000, last_mcs_change_time_ms = - 1000000000 \<rparr>,
     reasons = [], clean_dwell = 0, flap_level = Map.empty, suppress_until_ms = Map.empty,
     snr_at_last_flap = Map.empty, last_flap_ms = Map.empty, snr_w_recent = [],
     last_release = None, promote_suppressed = False, trial_rung = None, trial_until_ms = 0,
     confirmed_until_ms = [], confirmed_snr = Map.empty, snapback_tgt = None, last_fail = None \<rparr>"

definition trial_selector :: selector where
  "trial_selector = boot_selector\<lparr>
     st := \<lparr> current_mcs = 3, last_change_time_ms = 5000, last_mcs_change_time_ms = 5000 \<rparr>,
     trial_rung := Some 3, trial_until_ms := 15000 \<rparr>"

definition quiet_in :: sel_in where
  "quiet_in = \<lparr> i_snr_ewma = Some 20, i_snr_w = Some 20, i_slope = None, i_loss_rate = 0,
     i_loss_demote = False, i_target_confident = False, i_target_blocked = False,
     i_fec_pressure = 0, i_link_starved = False, i_can_demote = True, i_ts_ms = 100,
     i_probe_veto = False, i_probe_release = False \<rparr>"

definition loss_in :: sel_in where
  "loss_in = quiet_in\<lparr> i_loss_demote := True, i_loss_rate := 1 / 4, i_ts_ms := 6000 \<rparr>"

section \<open>Lemmas\<close>

lemma external_demote_simps [simp]:
  "sel_cfg (external_demote t ts s) = sel_cfg s" "cap_mcs (external_demote t ts s) = cap_mcs s"
  "current_mcs (st (external_demote t ts s)) = max 0 (min t (cap_mcs s))"
  by (simp_all add: external_demote_def Let_def)

lemma commit_simps [simp]:
  "sel_cfg (commit ts m w s) = sel_cfg s" "cap_mcs (commit ts m w s) = cap_mcs s"
  "confirmed_until_ms (commit ts m w s) = confirmed_until_ms s"
  "confirmed_snr (commit ts m w s) = confirmed_snr s"
  "snr_w_recent (commit ts m w s) = snr_w_recent s"
  "flap_level (commit ts m w s) = flap_level s"
  "suppress_until_ms (commit ts m w s) = suppress_until_ms s"
  "snr_at_last_flap (commit ts m w s) = snr_at_last_flap s"
  "last_flap_ms (commit ts m w s) = last_flap_ms s"
  "last_fail (commit ts m w s) = last_fail s"
  "trial_rung (commit ts m w s) = trial_rung s" "trial_until_ms (commit ts m w s) = trial_until_ms s"
  "current_mcs (st (commit ts m w s)) = max 0 (min m (cap_mcs s))"
  by (simp_all add: commit_def Let_def)

lemma clean_dwell_commit: "clean_dwell (commit ts m w s) = (if max 0 (min m (cap_mcs s)) \<noteq> current_mcs (st s) then 0 else clean_dwell s)"
  by (simp add: commit_def Let_def)

lemma charge_flap_simps [simp]:
  "sel_cfg (charge_flap r e ts s) = sel_cfg s" "cap_mcs (charge_flap r e ts s) = cap_mcs s"
  "st (charge_flap r e ts s) = st s"
  "confirmed_until_ms (charge_flap r e ts s) = confirmed_until_ms s"
  "confirmed_snr (charge_flap r e ts s) = confirmed_snr s"
  "snr_w_recent (charge_flap r e ts s) = snr_w_recent s"
  "last_fail (charge_flap r e ts s) = last_fail s"
  "clean_dwell (charge_flap r e ts s) = clean_dwell s"
  by (simp_all add: charge_flap_def Let_def)

lemma select_begin_simps [simp]:
  "sel_cfg (select_begin i s) = sel_cfg s" "cap_mcs (select_begin i s) = cap_mcs s"
  "st (select_begin i s) = st s" "clean_dwell (select_begin i s) = clean_dwell s"
  "confirmed_until_ms (select_begin i s) = confirmed_until_ms s"
  "confirmed_snr (select_begin i s) = confirmed_snr s"
  "suppress_until_ms (select_begin i s) = suppress_until_ms s"
  "snr_at_last_flap (select_begin i s) = snr_at_last_flap s"
  "flap_level (select_begin i s) = flap_level s" "last_flap_ms (select_begin i s) = last_flap_ms s"
  "trial_rung (select_begin i s) = trial_rung s" "trial_until_ms (select_begin i s) = trial_until_ms s"
  "last_fail (select_begin i s) = None" "reasons (select_begin i s) = []"
  "is_emergency i (select_begin i s) = is_emergency i s"
  by (simp_all add: select_begin_def is_emergency_def emergency_active_def)

lemma snr_w_recent_begin: "snr_w_recent (select_begin i s) = (case i_snr_w i of None \<Rightarrow> snr_w_recent s
    | Some w \<Rightarrow> deque_append RAW_MIN_RELEASE_WINDOW_TICKS w (snr_w_recent s))"
  by (simp add: select_begin_def)

lemma loss_demote_simps [simp]:
  "sel_cfg (loss_demote_step i s) = sel_cfg s" "cap_mcs (loss_demote_step i s) = cap_mcs s"
  "confirmed_until_ms (loss_demote_step i s) = confirmed_until_ms s"
  "confirmed_snr (loss_demote_step i s) = confirmed_snr s"
  "snr_w_recent (loss_demote_step i s) = snr_w_recent s"
  "current_mcs (st (loss_demote_step i s)) = max 0 (min (current_mcs (st s) - 1) (cap_mcs s))"
  by (simp_all add: loss_demote_step_def Let_def split: fail_class.splits option.splits)

lemma select_demote_simps [simp]:
  "sel_cfg (select_demote i s) = sel_cfg s" "cap_mcs (select_demote i s) = cap_mcs s"
  "confirmed_until_ms (select_demote i s) = confirmed_until_ms s"
  "confirmed_snr (select_demote i s) = confirmed_snr s"
  "snr_w_recent (select_demote i s) = snr_w_recent s" "clean_dwell (select_demote i s) = 0"
  "current_mcs (st (select_demote i s)) =
     (if i_can_demote i then max 0 (min (current_mcs (st s) - 1) (cap_mcs s)) else current_mcs (st s))"
  by (simp_all add: select_demote_def Let_def)

lemma damper_clear_simps [simp]:
  "sel_cfg (damper_clear s) = sel_cfg s" "cap_mcs (damper_clear s) = cap_mcs s"
  "st (damper_clear s) = st s" "clean_dwell (damper_clear s) = clean_dwell s"
  "confirmed_until_ms (damper_clear s) = confirmed_until_ms s"
  "reasons (damper_clear s) = reasons s"
  "confirmed_snr (damper_clear s) = confirmed_snr s" "snr_w_recent (damper_clear s) = snr_w_recent s"
  "last_fail (damper_clear s) = last_fail s"
  by (simp_all add: damper_clear_def Let_def)

lemma damper_clear_other:
  "r \<noteq> current_mcs (st s) \<Longrightarrow> suppress_until_ms (damper_clear s) r = suppress_until_ms s r"
  "r \<noteq> current_mcs (st s) \<Longrightarrow> snr_at_last_flap (damper_clear s) r = snr_at_last_flap s r"
  by (simp_all add: damper_clear_def Let_def)

lemma confirm_rung_simps [simp]:
  "sel_cfg (confirm_rung e ts s) = sel_cfg s" "cap_mcs (confirm_rung e ts s) = cap_mcs s"
  "st (confirm_rung e ts s) = st s" "clean_dwell (confirm_rung e ts s) = clean_dwell s"
  "snr_w_recent (confirm_rung e ts s) = snr_w_recent s" "reasons (confirm_rung e ts s) = reasons s"
  "suppress_until_ms (confirm_rung e ts s) = suppress_until_ms s"
  "snr_at_last_flap (confirm_rung e ts s) = snr_at_last_flap s"
  "last_fail (confirm_rung e ts s) = last_fail s"
  by (simp_all add: confirm_rung_def Let_def split: option.splits)

lemma end_probation_simps [simp]:
  "sel_cfg (end_probation ts s) = sel_cfg s" "cap_mcs (end_probation ts s) = cap_mcs s"
  "st (end_probation ts s) = st s" "reasons (end_probation ts s) = reasons s"
  "clean_dwell (end_probation ts s) = clean_dwell s"
  "confirmed_until_ms (end_probation ts s) = confirmed_until_ms s"
  "confirmed_snr (end_probation ts s) = confirmed_snr s" "snr_w_recent (end_probation ts s) = snr_w_recent s"
  "suppress_until_ms (end_probation ts s) = suppress_until_ms s"
  "snr_at_last_flap (end_probation ts s) = snr_at_last_flap s"
  "last_fail (end_probation ts s) = last_fail s"
  by (simp_all add: end_probation_def)

lemma clean_bookkeeping_simps [simp]:
  "sel_cfg (clean_bookkeeping i s) = sel_cfg s" "cap_mcs (clean_bookkeeping i s) = cap_mcs s"
  "st (clean_bookkeeping i s) = st s" "clean_dwell (clean_bookkeeping i s) = clean_dwell s + 1"
  "snr_w_recent (clean_bookkeeping i s) = snr_w_recent s"
  "last_fail (clean_bookkeeping i s) = last_fail s" "reasons (clean_bookkeeping i s) = reasons s"
  by (simp_all add: clean_bookkeeping_def)

lemma clean_bookkeeping_other:
  "r \<noteq> current_mcs (st s) \<Longrightarrow> suppress_until_ms (clean_bookkeeping i s) r = suppress_until_ms s r"
  "r \<noteq> current_mcs (st s) \<Longrightarrow> snr_at_last_flap (clean_bookkeeping i s) r = snr_at_last_flap s r"
  by (simp_all add: clean_bookkeeping_def damper_clear_other)

lemma suppressed_eq:
  "fst (suppressed r ts pr s) = (damper_holds s r ts \<and> \<not> pr)"
  "\<exists>x. snd (suppressed r ts pr s) = s\<lparr> last_release := x \<rparr>"
proof -
  have id: "\<exists>x. s = s\<lparr> last_release := x \<rparr>" by (rule exI [of _ "last_release s"]) simp
  show "fst (suppressed r ts pr s) = (damper_holds s r ts \<and> \<not> pr)"
    by (auto simp: suppressed_def damper_holds_def Let_def split: option.splits)
  show "\<exists>x. snd (suppressed r ts pr s) = s\<lparr> last_release := x \<rparr>"
    using id by (auto simp: suppressed_def Let_def split: option.splits)
qed

lemma dwell_promote_simps [simp]:
  "sel_cfg (dwell_promote i s) = sel_cfg s" "cap_mcs (dwell_promote i s) = cap_mcs s"
  "confirmed_until_ms (dwell_promote i s) = confirmed_until_ms s"
  "confirmed_snr (dwell_promote i s) = confirmed_snr s" "snr_w_recent (dwell_promote i s) = snr_w_recent s"
  "last_fail (dwell_promote i s) = last_fail s"
  by (simp_all add: dwell_promote_def Let_def)

subsection \<open>Snap-back\<close>

lemma snapback_rungs_Cons:
  "confirmed_snr s r = Some c \<Longrightarrow> snapback_rungs s snr ts ((r, u) # items) =
     (if ts \<le> u \<and> r \<le> cap_mcs s \<and> c - snapback_recover_margin_db (sel_cfg s) \<le> snr then {r} else {})
       \<union> snapback_rungs s snr ts items"
  "u < ts \<or> cap_mcs s < r \<Longrightarrow> snapback_rungs s snr ts ((r, u) # items) = snapback_rungs s snr ts items"
  by (auto simp: snapback_rungs_def)

lemma finite_snapback_rungs [simp]: "finite (snapback_rungs s snr ts items)"
  by (rule finite_subset [of _ "fst ` set items"]) (force simp: snapback_rungs_def)+

lemma Max_insert_option:
  "finite A \<Longrightarrow> Max (insert r (set_option best \<union> A)) =
     Max (insert (case best of None \<Rightarrow> r | Some b \<Rightarrow> max b r) (A :: int set))"
  by (cases best; cases "A = {}") (auto simp: max.assoc max.left_commute max.commute)

lemma snapback_loop_eq:
  assumes "fst ` set items \<subseteq> dom (confirmed_snr s)"
  shows "snapback_loop s snr ts best items =
     Inr (if set_option best \<union> snapback_rungs s snr ts items = {} then None
          else Some (Max (set_option best \<union> snapback_rungs s snr ts items)))"
  using assms
proof (induction s snr ts best items rule: snapback_loop.induct)
  case (1 s snr ts best)
  then show ?case by (cases best) (auto simp: snapback_rungs_def)
next
  case (2 s snr ts best r u rest)
  obtain c where c: "confirmed_snr s r = Some c" using 2(3) by auto
  show ?case
  proof (cases "u < ts \<or> cap_mcs s < r")
    case True
    then show ?thesis using 2 by (auto simp: snapback_rungs_Cons(2))
  next
    case False
    let ?b = "if c - snapback_recover_margin_db (sel_cfg s) \<le> snr \<and>
        (case best of None \<Rightarrow> True | Some b \<Rightarrow> b < r) then Some r else best"
    have "snapback_loop s snr ts best ((r, u) # rest) = snapback_loop s snr ts ?b rest"
      using False c by (auto simp: not_less split: option.splits)
    also have "\<dots> = Inr (if set_option ?b \<union> snapback_rungs s snr ts rest = {} then None
          else Some (Max (set_option ?b \<union> snapback_rungs s snr ts rest)))"
      using 2(2) [OF False c] 2(3) by simp
    finally show ?thesis
      using False Max_insert_option [of "snapback_rungs s snr ts rest" r best]
      by (auto simp: snapback_rungs_Cons(1) [OF c] not_less max_def insert_absorb
          split: option.splits if_splits)
  qed
qed

lemma snapback_target_eq:
  assumes "sel_inv s"
  shows "snapback_target s snr ts =
     Inr (if snapback_rungs s snr ts (confirmed_until_ms s) = {} then None
          else Some (Max (snapback_rungs s snr ts (confirmed_until_ms s))))"
  using snapback_loop_eq [of "confirmed_until_ms s" s snr ts None] assms
  by (simp add: snapback_target_def sel_inv_def)

subsection \<open>The invariant\<close>

lemma sel_inv_begin: "sel_inv s \<Longrightarrow> sel_inv (select_begin i s)"
  by (auto simp: sel_inv_def snr_w_recent_begin deque_append_bound split: option.splits)

lemma sel_inv_external: "sel_inv s \<Longrightarrow> sel_inv (external_demote t ts s)"
  by (auto simp: sel_inv_def external_demote_def Let_def)

lemma sel_inv_commit: "sel_inv s \<Longrightarrow> sel_inv (commit ts m w s)"
  by (auto simp: sel_inv_def clean_dwell_commit)

lemma sel_inv_demote: "sel_inv s \<Longrightarrow> sel_inv (select_demote i s)"
  by (auto simp: sel_inv_def)

lemma confirm_rung_dom:
  "fst ` set (confirmed_until_ms s) \<subseteq> dom (confirmed_snr s) \<Longrightarrow>
   fst ` set (confirmed_until_ms (confirm_rung e ts s)) \<subseteq> dom (confirmed_snr (confirm_rung e ts s))"
  using dom_update [of "current_mcs (st s)" "ts + of_int (confirm_ttl_ms (sel_cfg s))" "confirmed_until_ms s"]
  by (auto simp: confirm_rung_def Let_def split: option.splits)

lemma sel_inv_clean: "sel_inv s \<Longrightarrow> sel_inv (clean_bookkeeping i s)"
  using confirm_rung_dom [of "damper_clear (s\<lparr> clean_dwell := clean_dwell s + 1 \<rparr>)" "i_snr_ewma i" "i_ts_ms i"]
  by (simp add: sel_inv_def clean_bookkeeping_def)

lemma sel_inv_fields [simp]:
  "sel_inv (s\<lparr> snapback_tgt := a \<rparr>) = sel_inv s" "sel_inv (s\<lparr> last_release := b \<rparr>) = sel_inv s"
  "sel_inv (s\<lparr> promote_suppressed := c \<rparr>) = sel_inv s" "sel_inv (s\<lparr> trial_rung := d \<rparr>) = sel_inv s"
  "sel_inv (s\<lparr> trial_rung := d, trial_until_ms := e \<rparr>) = sel_inv s"
  "sel_inv (s\<lparr> last_release := b, promote_suppressed := c \<rparr>) = sel_inv s"
  by (simp_all add: sel_inv_def)

lemma sel_inv_trial: "sel_inv s \<Longrightarrow> sel_inv (start_trial p ts s)"
  by (simp add: start_trial_def)

text \<open>Outcomes of the promote block.\<close>

lemma route_promote_cases:
  assumes "sel_inv s"
  obtains (stay) sb where "route_promote i snr s = Inr (s\<lparr> snapback_tgt := sb \<rparr>)"
  | (snap) tgt where "route_promote i snr s =
        Inr (commit (i_ts_ms i) (current_mcs (st s) + 1) (SnapbackPromote tgt) (s\<lparr> snapback_tgt := Some tgt \<rparr>))"
      "tgt \<in> snapback_rungs s snr (i_ts_ms i) (confirmed_until_ms s)" "current_mcs (st s) < tgt"
      "0 \<le> slope_of i" "\<not> i_target_blocked i"
  | (dwell) sb w where "route_promote i snr s =
        Inr (commit (i_ts_ms i) (current_mcs (st s) + 1) w (s\<lparr> snapback_tgt := sb \<rparr>))"
      "w = (if i_target_confident i then KneePromote else ExplorePromote)"
      "i_target_confident i \<longrightarrow> \<not> i_target_blocked i"
      "hold_modes_down_ms (sel_cfg s) \<le> i_ts_ms i - last_change_time_ms (st s)"
      "promote_dwell_ticks (sel_cfg s) \<le> clean_dwell s" "promote_slope_min (sel_cfg s) \<le> slope_of i"
proof -
  define R where "R = snapback_rungs s snr (i_ts_ms i) (confirmed_until_ms s)"
  define sb where "sb = (if R = {} then None else Some (Max R))"
  let ?s = "s\<lparr> snapback_tgt := sb \<rparr>"
  have tgt: "snapback_target s snr (i_ts_ms i) = Inr sb"
    using snapback_target_eq [OF assms] by (simp add: sb_def R_def)
  have route: "route_promote i snr s = Inr (case sb of
      Some t \<Rightarrow> if t > current_mcs (st s) \<and> slope_of i \<ge> 0 \<and> \<not> i_target_blocked i
        then commit (i_ts_ms i) (current_mcs (st s) + 1) (SnapbackPromote t) ?s else dwell_promote i ?s
    | None \<Rightarrow> dwell_promote i ?s)"
    by (cases sb) (simp_all add: route_promote_def Let_def tgt slope_of_def)
  have inR: "t \<in> R" if "sb = Some t" for t
    using that by (auto simp: sb_def R_def intro: Max_in split: if_splits)
  have dw: thesis if r: "route_promote i snr s = Inr (dwell_promote i ?s)"
  proof (cases "\<not> i_ts_ms i - last_change_time_ms (st s) < of_int (hold_modes_down_ms (sel_cfg s)) \<and>
      clean_dwell s \<ge> promote_dwell_ticks (sel_cfg s) \<and> slope_of i \<ge> promote_slope_min (sel_cfg s) \<and>
      (i_target_confident i \<longrightarrow> \<not> i_target_blocked i)")
    case True
    then have "route_promote i snr s = Inr (commit (i_ts_ms i) (current_mcs (st s) + 1)
        (if i_target_confident i then KneePromote else ExplorePromote) ?s)"
      using r by (auto simp: dwell_promote_def Let_def slope_of_def)
    then show thesis by (rule dwell) (use True in \<open>auto simp: not_less\<close>)
  next
    case False
    then have "dwell_promote i ?s = ?s"
      by (auto simp: dwell_promote_def Let_def slope_of_def)
    then show thesis using r stay by simp
  qed
  show thesis
  proof (cases sb)
    case None
    then show thesis using route dw by simp
  next
    case (Some t)
    show thesis
    proof (cases "t > current_mcs (st s) \<and> slope_of i \<ge> 0 \<and> \<not> i_target_blocked i")
      case True
      then show thesis using snap [of t] route Some inR [OF Some] by (simp add: R_def)
    next
      case False
      then have "route_promote i snr s = Inr (dwell_promote i ?s)"
        using Some by (auto simp: route)
      then show thesis by (rule dw)
    qed
  qed
qed

text \<open>
  All outcomes of one call: an emergency steps down when it may; otherwise the selector
  stays, or one of the promote routes commits the next rung and puts it on probation.
\<close>

lemma damper_holds_clean:
  "r \<noteq> current_mcs (st s) \<Longrightarrow> damper_holds (clean_bookkeeping i s) r ts = damper_holds s r ts"
  unfolding damper_holds_def map_get_def by (simp add: clean_bookkeeping_other split: option.split)

lemma commit_promote:
  assumes "0 \<le> current_mcs (st c)" "current_mcs (st c) < cap_mcs c"
  shows "start_trial (current_mcs (st c)) ts (commit ts (current_mcs (st c) + 1) w c) =
     c\<lparr> st := \<lparr> current_mcs = current_mcs (st c) + 1, last_change_time_ms = ts, last_mcs_change_time_ms = ts \<rparr>,
        reasons := reasons c @ [w], clean_dwell := 0, trial_rung := Some (current_mcs (st c) + 1),
        trial_until_ms := ts + of_int (trial_window_ms (sel_cfg c)) \<rparr>"
  using assms by (simp add: start_trial_def commit_def Let_def min_def)

lemma select_promote_eq:
  assumes "i_snr_ewma i = Some snr" "current_mcs (st c) < cap_mcs c"
  obtains x where "select_promote i c =
     (let supp = damper_holds c (current_mcs (st c) + 1) (i_ts_ms i) \<and> \<not> i_probe_release i;
          d = c\<lparr> last_release := x, promote_suppressed := supp \<rparr>
      in if of_int (min_between_changes_ms (sel_cfg c)) \<le> i_ts_ms i - last_change_time_ms (st c) \<and>
            \<not> supp \<and> \<not> i_probe_veto i
         then (case route_promote i snr d of Inl e \<Rightarrow> Inl e
               | Inr s3 \<Rightarrow> Inr (start_trial (current_mcs (st c)) (i_ts_ms i) s3))
         else Inr d)"
proof -
  let ?t = "current_mcs (st c) + 1"
  let ?b = "damper_holds c ?t (i_ts_ms i) \<and> \<not> i_probe_release i"
  obtain x where x: "snd (suppressed ?t (i_ts_ms i) (i_probe_release i) c) = c\<lparr> last_release := x \<rparr>"
    using suppressed_eq(2) by blast
  then have supp: "suppressed ?t (i_ts_ms i) (i_probe_release i) c = (?b, c\<lparr> last_release := x \<rparr>)"
    by (intro prod_eqI) (simp_all add: suppressed_eq(1))
  show thesis
    by (rule that [of x]) (use assms in \<open>auto simp: select_promote_def Let_def not_less supp\<close>)
qed

lemma select_promote_cases:
  assumes inv: "sel_inv s"
  obtains (stay) s' where "select_promote i (clean_bookkeeping i (select_begin i s)) = Inr s'" "sel_inv s'"
      "sel_cfg s' = sel_cfg s" "cap_mcs s' = cap_mcs s" "st s' = st s" "last_fail s' = None"
      "confirmed_until_ms s' = confirmed_until_ms (clean_bookkeeping i (select_begin i s))"
      "confirmed_snr s' = confirmed_snr (clean_bookkeeping i (select_begin i s))"
  | (promote) s' snr w where "select_promote i (clean_bookkeeping i (select_begin i s)) = Inr s'" "sel_inv s'"
      "sel_cfg s' = sel_cfg s" "cap_mcs s' = cap_mcs s"
      "st s' = \<lparr> current_mcs = current_mcs (st s) + 1, last_change_time_ms = i_ts_ms i,
                 last_mcs_change_time_ms = i_ts_ms i \<rparr>"
      "reasons s' = [w]" "last_fail s' = None"
      "trial_rung s' = Some (current_mcs (st s) + 1)"
      "trial_until_ms s' = i_ts_ms i + of_int (trial_window_ms (sel_cfg s))"
      "confirmed_until_ms s' = confirmed_until_ms (clean_bookkeeping i (select_begin i s))"
      "confirmed_snr s' = confirmed_snr (clean_bookkeeping i (select_begin i s))"
      "promote_guard i s snr"
      "(case w of
          SnapbackPromote tgt \<Rightarrow> current_mcs (st s) < tgt \<and> 0 \<le> slope_of i \<and> \<not> i_target_blocked i \<and>
            tgt \<in> snapback_rungs (clean_bookkeeping i (select_begin i s)) snr (i_ts_ms i)
              (confirmed_until_ms (clean_bookkeeping i (select_begin i s)))
        | KneePromote \<Rightarrow> i_target_confident i \<and> \<not> i_target_blocked i
        | ExplorePromote \<Rightarrow> \<not> i_target_confident i
        | _ \<Rightarrow> False)"
      "(w = KneePromote \<or> w = ExplorePromote) \<longrightarrow>
         hold_modes_down_ms (sel_cfg s) \<le> i_ts_ms i - last_change_time_ms (st s) \<and>
         promote_dwell_ticks (sel_cfg s) \<le> clean_dwell s + 1 \<and> promote_slope_min (sel_cfg s) \<le> slope_of i"
proof -
  let ?c = "clean_bookkeeping i (select_begin i s)"
  let ?t = "current_mcs (st s) + 1"
  have invc: "sel_inv ?c" by (intro sel_inv_clean sel_inv_begin inv)
  have reasons_c: "reasons ?c = []"
    by simp
  have same: thesis if "select_promote i ?c = Inr (?c\<lparr> last_release := a, promote_suppressed := b \<rparr>)" for a b
    by (rule stay [OF that]) (use invc in simp_all)
  show thesis
  proof (cases "\<exists>snr. i_snr_ewma i = Some snr \<and> current_mcs (st s) < cap_mcs s")
    case False
    then have "select_promote i ?c = Inr (?c\<lparr> last_release := last_release ?c, promote_suppressed := False \<rparr>)"
      by (auto simp: select_promote_def Let_def split: option.splits)
    then show thesis by (rule same)
  next
    case True
    then obtain snr where snr: "i_snr_ewma i = Some snr" "current_mcs (st ?c) < cap_mcs ?c" by auto
    obtain x where sp: "select_promote i ?c =
       (let supp = damper_holds ?c (current_mcs (st ?c) + 1) (i_ts_ms i) \<and> \<not> i_probe_release i;
            d = ?c\<lparr> last_release := x, promote_suppressed := supp \<rparr>
        in if of_int (min_between_changes_ms (sel_cfg ?c)) \<le> i_ts_ms i - last_change_time_ms (st ?c) \<and>
              \<not> supp \<and> \<not> i_probe_veto i
           then (case route_promote i snr d of Inl e \<Rightarrow> Inl e
                 | Inr s3 \<Rightarrow> Inr (start_trial (current_mcs (st ?c)) (i_ts_ms i) s3))
           else Inr d)"
      by (rule select_promote_eq [OF snr])
    show thesis
    proof (cases "promote_guard i s snr")
      case False
      then have "select_promote i ?c = Inr (?c\<lparr> last_release := x, promote_suppressed :=
          damper_holds ?c ?t (i_ts_ms i) \<and> \<not> i_probe_release i \<rparr>)"
        using snr by (auto simp: sp Let_def promote_guard_def damper_holds_clean)
      then show thesis by (rule same)
    next
      case g: True
      let ?d = "?c\<lparr> last_release := x, promote_suppressed := False \<rparr>"
      have sp: "select_promote i ?c = (case route_promote i snr ?d of Inl e \<Rightarrow> Inl e
          | Inr s3 \<Rightarrow> Inr (start_trial (current_mcs (st s)) (i_ts_ms i) s3))"
        using g by (auto simp: sp Let_def promote_guard_def damper_holds_clean split: sum.split)
      have R: "snapback_rungs ?d snr ts = snapback_rungs ?c snr ts" for ts
        by (simp add: snapback_rungs_def fun_eq_iff)
      have bounds: "0 \<le> current_mcs (st s)" "current_mcs (st s) < cap_mcs s"
        using inv snr by (auto simp: sel_inv_def)
      have invd: "sel_inv ?d" using invc by simp
      have committed: thesis
        if r: "route_promote i snr ?d = Inr (commit (i_ts_ms i) (current_mcs (st s) + 1) w
            (?d\<lparr> snapback_tgt := sb \<rparr>))"
          and guards: "case w of
            SnapbackPromote tgt \<Rightarrow> current_mcs (st s) < tgt \<and> 0 \<le> slope_of i \<and> \<not> i_target_blocked i \<and>
              tgt \<in> snapback_rungs ?c snr (i_ts_ms i) (confirmed_until_ms ?c)
          | KneePromote \<Rightarrow> i_target_confident i \<and> \<not> i_target_blocked i
          | ExplorePromote \<Rightarrow> \<not> i_target_confident i
          | _ \<Rightarrow> False"
          and slow: "(w = KneePromote \<or> w = ExplorePromote) \<longrightarrow>
            hold_modes_down_ms (sel_cfg s) \<le> i_ts_ms i - last_change_time_ms (st s) \<and>
            promote_dwell_ticks (sel_cfg s) \<le> clean_dwell s + 1 \<and> promote_slope_min (sel_cfg s) \<le> slope_of i"
        for w sb
      proof -
        let ?e = "?d\<lparr> snapback_tgt := sb \<rparr>"
        let ?s' = "?e\<lparr> st := \<lparr> current_mcs = current_mcs (st s) + 1, last_change_time_ms = i_ts_ms i,
            last_mcs_change_time_ms = i_ts_ms i \<rparr>, reasons := reasons ?e @ [w], clean_dwell := 0,
            trial_rung := Some (current_mcs (st s) + 1),
            trial_until_ms := i_ts_ms i + of_int (trial_window_ms (sel_cfg s)) \<rparr>"
        have "start_trial (current_mcs (st ?e)) (i_ts_ms i)
            (commit (i_ts_ms i) (current_mcs (st ?e) + 1) w ?e) = ?s'"
          by (subst commit_promote) (use bounds in simp_all)
        then have eq: "select_promote i ?c = Inr ?s'" using r by (simp add: sp)
        have "sel_inv ?s'" using invc bounds by (simp add: sel_inv_def)
        from promote [OF eq this _ _ _ _ _ _ _ _ _ g guards slow] show thesis
          by (simp add: reasons_c)
      qed
      show thesis
      proof (rule route_promote_cases [OF invd, of i snr])
        fix sb assume r: "route_promote i snr ?d = Inr (?d\<lparr> snapback_tgt := sb \<rparr>)"
        then have "select_promote i ?c = Inr (?d\<lparr> snapback_tgt := sb \<rparr>)"
          by (simp add: sp start_trial_def)
        then show thesis by (rule stay) (use invc in simp_all)
      next
        fix tgt
        assume r: "route_promote i snr ?d = Inr (commit (i_ts_ms i) (current_mcs (st ?d) + 1)
            (SnapbackPromote tgt) (?d\<lparr> snapback_tgt := Some tgt \<rparr>))"
          and h: "tgt \<in> snapback_rungs ?d snr (i_ts_ms i) (confirmed_until_ms ?d)"
          "current_mcs (st ?d) < tgt" "0 \<le> slope_of i" "\<not> i_target_blocked i"
        show thesis
          by (rule committed [of "SnapbackPromote tgt" "Some tgt"]) (use r h in \<open>simp_all add: R\<close>)
      next
        fix sb w
        assume r: "route_promote i snr ?d = Inr (commit (i_ts_ms i) (current_mcs (st ?d) + 1) w
            (?d\<lparr> snapback_tgt := sb \<rparr>))"
          and h: "w = (if i_target_confident i then KneePromote else ExplorePromote)"
          "i_target_confident i \<longrightarrow> \<not> i_target_blocked i"
          "hold_modes_down_ms (sel_cfg ?d) \<le> i_ts_ms i - last_change_time_ms (st ?d)"
          "promote_dwell_ticks (sel_cfg ?d) \<le> clean_dwell ?d" "promote_slope_min (sel_cfg ?d) \<le> slope_of i"
        show thesis
          by (rule committed [of w sb]) (use r h in simp_all)
      qed
    qed
  qed
qed

lemma boot_selector_inv: "sel_inv boot_selector"
  by (simp add: sel_inv_def boot_selector_def)

lemma boot_selector_new: "new_selector default_selector_cfg = Inr boot_selector"
  by (simp add: new_selector_def boot_selector_def Let_def default_selector_cfg_def)

lemma sel_inv_new: "new_selector cfg = Inr s \<Longrightarrow> sel_inv s \<and> sel_cfg s = cfg \<and> cap_mcs s = max_mcs cfg"
  by (auto simp: new_selector_def sel_inv_def Let_def split: if_splits)

subsection \<open>One call of select\<close>

lemma select_emergency:
  "is_emergency i s \<Longrightarrow> select i s =
     (let s' = select_demote i (select_begin i s)
      in Inr ((current_mcs (st s'), current_mcs (st s') \<noteq> current_mcs (st s)), s'))"
  by (simp add: select_def Let_def)

lemma select_clean:
  "\<not> is_emergency i s \<Longrightarrow> select_promote i (clean_bookkeeping i (select_begin i s)) = Inr s' \<Longrightarrow>
     select i s = Inr ((current_mcs (st s'), current_mcs (st s') \<noteq> current_mcs (st s)), s')"
  by (simp add: select_def Let_def)

lemma select_outcome:
  assumes "sel_inv s"
  shows "\<exists>s'. select i s = Inr ((current_mcs (st s'), current_mcs (st s') \<noteq> current_mcs (st s)), s') \<and>
     sel_inv s' \<and> sel_cfg s' = sel_cfg s \<and> cap_mcs s' = cap_mcs s \<and>
     (if is_emergency i s
      then current_mcs (st s') =
        (if i_can_demote i then max 0 (current_mcs (st s) - 1) else current_mcs (st s))
      else current_mcs (st s') = current_mcs (st s) \<or> current_mcs (st s') = current_mcs (st s) + 1)"
proof (cases "is_emergency i s")
  case True
  have "sel_inv (select_demote i (select_begin i s))"
    by (intro sel_inv_demote sel_inv_begin assms)
  then show ?thesis
    using True assms by (auto simp: select_emergency Let_def sel_inv_def)
next
  case False
  show ?thesis
    by (rule select_promote_cases [OF assms, of i]) (use False select_clean in \<open>fastforce+\<close>)
qed

lemma select_rate:
  assumes "sel_inv s" "select i s = Inr ((mcs, ch), s')"
  shows "current_mcs (st s') = mcs" "sel_inv s'" "sel_cfg s' = sel_cfg s" "cap_mcs s' = cap_mcs s"
    "\<bar>mcs - current_mcs (st s)\<bar> \<le> 1" "mcs < current_mcs (st s) \<Longrightarrow> is_emergency i s \<and> i_can_demote i"
    "ch = (mcs \<noteq> current_mcs (st s))"
  using select_outcome [OF assms(1), of i] assms by (auto simp: sel_inv_def split: if_splits)

lemma select_promotes:
  assumes "sel_inv s" "select i s = Inr ((mcs, ch), s')" "current_mcs (st s) < mcs"
  obtains snr w where "\<not> is_emergency i s" "mcs = current_mcs (st s) + 1" "promote_guard i s snr"
    "reasons s' = [w]" "trial_rung s' = Some mcs"
    "trial_until_ms s' = i_ts_ms i + of_int (trial_window_ms (sel_cfg s))"
    "last_change_time_ms (st s') = i_ts_ms i"
    "(case w of
        SnapbackPromote tgt \<Rightarrow> mcs \<le> tgt \<and> 0 \<le> slope_of i \<and> \<not> i_target_blocked i \<and>
          tgt \<in> snapback_rungs s' snr (i_ts_ms i) (confirmed_until_ms s')
      | KneePromote \<Rightarrow> i_target_confident i \<and> \<not> i_target_blocked i
      | ExplorePromote \<Rightarrow> \<not> i_target_confident i
      | _ \<Rightarrow> False)"
    "(w = KneePromote \<or> w = ExplorePromote) \<longrightarrow>
       hold_modes_down_ms (sel_cfg s) \<le> i_ts_ms i - last_change_time_ms (st s) \<and>
       promote_dwell_ticks (sel_cfg s) \<le> clean_dwell s + 1 \<and> promote_slope_min (sel_cfg s) \<le> slope_of i"
proof -
  have ne: "\<not> is_emergency i s"
    using select_outcome [OF assms(1), of i] assms by (auto simp: sel_inv_def split: if_splits)
  show thesis
  proof (rule select_promote_cases [OF assms(1), of i])
    fix x assume "select_promote i (clean_bookkeeping i (select_begin i s)) = Inr x" "st x = st s"
    then show thesis using select_clean [OF ne] assms by simp
  next
    fix x snr w
    assume x: "select_promote i (clean_bookkeeping i (select_begin i s)) = Inr x"
      and h: "sel_cfg x = sel_cfg s" "cap_mcs x = cap_mcs s"
      "st x = \<lparr> current_mcs = current_mcs (st s) + 1, last_change_time_ms = i_ts_ms i,
                last_mcs_change_time_ms = i_ts_ms i \<rparr>"
      "reasons x = [w]" "trial_rung x = Some (current_mcs (st s) + 1)"
      "trial_until_ms x = i_ts_ms i + of_int (trial_window_ms (sel_cfg s))"
      "confirmed_until_ms x = confirmed_until_ms (clean_bookkeeping i (select_begin i s))"
      "confirmed_snr x = confirmed_snr (clean_bookkeeping i (select_begin i s))"
      and g: "promote_guard i s snr"
      and route: "(case w of
          SnapbackPromote tgt \<Rightarrow> current_mcs (st s) < tgt \<and> 0 \<le> slope_of i \<and> \<not> i_target_blocked i \<and>
            tgt \<in> snapback_rungs (clean_bookkeeping i (select_begin i s)) snr (i_ts_ms i)
              (confirmed_until_ms (clean_bookkeeping i (select_begin i s)))
        | KneePromote \<Rightarrow> i_target_confident i \<and> \<not> i_target_blocked i
        | ExplorePromote \<Rightarrow> \<not> i_target_confident i
        | _ \<Rightarrow> False)"
      and slow: "(w = KneePromote \<or> w = ExplorePromote) \<longrightarrow>
         hold_modes_down_ms (sel_cfg s) \<le> i_ts_ms i - last_change_time_ms (st s) \<and>
         promote_dwell_ticks (sel_cfg s) \<le> clean_dwell s + 1 \<and> promote_slope_min (sel_cfg s) \<le> slope_of i"
    have s': "s' = x" "mcs = current_mcs (st s) + 1" using select_clean [OF ne x] assms h by simp_all
    show thesis
      by (rule that [OF ne s'(2) g _ _ _ _ _ slow])
        (use h s' route in \<open>auto simp: snapback_rungs_def split: reason.splits\<close>)
  qed
qed

subsection \<open>Damper\<close>

lemma flap_backoff_le_cap: "flap_backoff_ms cfg level \<le> flap_backoff_cap_ms cfg"
  by (simp add: flap_backoff_ms_def)

lemma flap_backoff_mono:
  assumes "0 \<le> flap_base_backoff_ms cfg" "1 \<le> flap_backoff_mult cfg" "1 \<le> l" "l \<le> l'"
  shows "flap_backoff_ms cfg l \<le> flap_backoff_ms cfg l'"
proof -
  have "flap_backoff_mult cfg powi (min (l - 1) 40) \<le> flap_backoff_mult cfg powi (min (l' - 1) 40)"
    by (rule power_int_increasing) (use assms in auto)
  then have "py_int (of_int (flap_base_backoff_ms cfg) * flap_backoff_mult cfg powi (min (l - 1) 40))
      \<le> py_int (of_int (flap_base_backoff_ms cfg) * flap_backoff_mult cfg powi (min (l' - 1) 40))"
    by (intro py_int_mono mult_left_mono) (use assms in auto)
  then show ?thesis by (simp add: flap_backoff_ms_def)
qed

lemma loss_demote_charges:
  assumes "on_probation s (current_mcs (st s)) (i_ts_ms i)"
    and "0 < current_mcs (st s)" "current_mcs (st s) \<le> cap_mcs s"
  shows "suppress_until_ms (loss_demote_step i s) (current_mcs (st s)) =
      Some (i_ts_ms i + of_int (flap_backoff_ms (sel_cfg s)
        (effective_flap_level s (current_mcs (st s)) (i_ts_ms i) + 1)))"
    "flap_level (loss_demote_step i s) (current_mcs (st s)) =
      Some (effective_flap_level s (current_mcs (st s)) (i_ts_ms i) + 1)"
  using assms
  by (auto simp: loss_demote_step_def Let_def charge_flap_def effective_flap_level_def
      split: fail_class.splits option.splits)

lemma last_fail_demote_iff:
  assumes "last_fail s = None" "0 \<le> current_mcs (st s)" "current_mcs (st s) \<le> cap_mcs s"
  shows "last_fail (select_demote i s) = Some (r, k, v) \<longleftrightarrow>
    i_loss_demote i \<and> i_can_demote i \<and> 0 < current_mcs (st s) \<and> r = current_mcs (st s) \<and>
    k = classify s (current_mcs (st s)) (i_snr_ewma i) (i_snr_w i) (i_ts_ms i) \<and>
    (k = Fade \<and> i_snr_w i = Some v \<or> k = Flap \<and> i_snr_ewma i = Some v)"
  using assms
  by (auto simp: select_demote_def loss_demote_step_def charge_flap_def commit_def Let_def
      split: if_splits fail_class.splits option.splits)

text \<open>The levels that a call changes.\<close>

lemma loss_demote_level:
  assumes "0 \<le> current_mcs (st s)" "current_mcs (st s) \<le> cap_mcs s"
  shows "flap_level (loss_demote_step i s) q = flap_level s q \<or>
    0 < current_mcs (st s) \<and> on_probation s (current_mcs (st s)) (i_ts_ms i) \<and> q = current_mcs (st s)"
  using assms
  by (auto simp: loss_demote_step_def charge_flap_def commit_def Let_def split: fail_class.splits option.splits)

lemma select_promote_level:
  assumes "select_promote i s = Inr s'"
  shows "flap_level s' = flap_level s"
proof -
  have d: "flap_level (dwell_promote i t) = flap_level t" for t by (simp add: dwell_promote_def commit_def Let_def)
  have r: "flap_level t' = flap_level t" if "route_promote i x t = Inr t'" for x t t'
    using that by (auto simp: route_promote_def commit_def d Let_def split: sum.splits option.splits if_splits)
  obtain x where x: "snd (suppressed (current_mcs (st s) + 1) (i_ts_ms i) (i_probe_release i) s) = s\<lparr> last_release := x \<rparr>"
    using suppressed_eq(2) by blast
  show ?thesis
    using assms x by (auto simp: select_promote_def start_trial_def Let_def split: option.splits if_splits prod.splits sum.splits dest!: r)
qed

lemma clean_bookkeeping_level: "flap_level (clean_bookkeeping i s) q = flap_level s q \<or> flap_level (clean_bookkeeping i s) q = None"
  by (simp add: clean_bookkeeping_def end_probation_def confirm_rung_def damper_clear_def Let_def split: option.split)

lemma confirm_high_water:
  assumes "map_of (confirmed_until_ms s) r = Some u" "ts \<le> u" "confirmed_snr s r = Some c"
  shows "\<exists>c'. confirmed_snr (confirm_rung e ts s) r = Some c' \<and> c \<le> c'"
  using assms by (cases "r = current_mcs (st s)")
    (auto simp: confirm_rung_def Let_def map_get_def split: option.splits)

lemma select_confirmed:
  assumes "sel_inv s" "select i s = Inr ((mcs, ch), s')"
  shows "confirmed_snr s' = (if is_emergency i s then confirmed_snr s
     else confirmed_snr (clean_bookkeeping i (select_begin i s)))"
proof (cases "is_emergency i s")
  case True
  then show ?thesis using assms(2) by (auto simp: select_emergency Let_def)
next
  case False
  show ?thesis
    by (rule select_promote_cases [OF assms(1), of i]) (use False assms select_clean [OF False] in auto)
qed

section \<open>Properties\<close>

text \<open>C5. The selector never raises and never leaves the ladder. From a well-formed state
  \<open>select\<close> returns, the new state is well formed again (in particular
  \<open>0 \<le> current_mcs \<le> cap\<close>), the returned pair is the new rung and whether it changed,
  and the rung moves by one step at most: an emergency takes exactly one step down when the
  cooldown allows it and none otherwise, any other call stays or takes one step up.\<close>

theorem select_safe:
  assumes "sel_inv s"
  shows "\<exists>s'. select i s = Inr ((current_mcs (st s'), current_mcs (st s') \<noteq> current_mcs (st s)), s') \<and>
     sel_inv s' \<and> cap_mcs s' = cap_mcs s \<and>
     (if is_emergency i s
      then current_mcs (st s') =
        (if i_can_demote i then max 0 (current_mcs (st s) - 1) else current_mcs (st s))
      else current_mcs (st s') \<in> {current_mcs (st s), current_mcs (st s) + 1})"
  using select_outcome [OF assms, of i] by auto

theorem select_safe_witness:
  "\<exists>s'. select quiet_in boot_selector =
      Inr ((current_mcs (st s'), current_mcs (st s') \<noteq> 1), s') \<and> sel_inv s'"
proof -
  have "current_mcs (st boot_selector) = 1" by (simp add: boot_selector_def)
  with select_safe [OF boot_selector_inv, of quiet_in] show ?thesis by auto
qed

text \<open>C6. Every promote is earned. When \<open>select\<close> climbs, no emergency was active, a smoothed
  SNR was known, no fresh dirty probe vetoed it, the rate limit had passed, and the target
  rung was not held by the flap damper unless the probe released it. The route that fired is
  named by the reason, with its own guards: snap-back needs a live confirmation at or above
  the new rung whose SNR is nearly back, a non-negative slope and an unblocked target; the knee
  route a confident, unblocked target; explore a cold one; the last two also the full
  dwell, the hold time and the slope limit. The new rung is on probation.\<close>

theorem promote_is_earned:
  assumes "sel_inv s" "select i s = Inr ((mcs, ch), s')" "current_mcs (st s) < mcs"
  shows "\<not> is_emergency i s \<and> mcs = current_mcs (st s) + 1 \<and> \<not> i_probe_veto i \<and>
     of_int (min_between_changes_ms (sel_cfg s)) \<le> i_ts_ms i - last_change_time_ms (st s) \<and>
     (damper_holds (select_begin i s) mcs (i_ts_ms i) \<longrightarrow> i_probe_release i) \<and>
     on_probation s' mcs (i_ts_ms i) = (0 < trial_window_ms (sel_cfg s)) \<and>
     (\<exists>snr w. i_snr_ewma i = Some snr \<and> reasons s' = [w] \<and>
       (case w of
          SnapbackPromote tgt \<Rightarrow> mcs \<le> tgt \<and> 0 \<le> slope_of i \<and> \<not> i_target_blocked i \<and>
            tgt \<in> snapback_rungs s' snr (i_ts_ms i) (confirmed_until_ms s')
        | KneePromote \<Rightarrow> i_target_confident i \<and> \<not> i_target_blocked i
        | ExplorePromote \<Rightarrow> \<not> i_target_confident i
        | _ \<Rightarrow> False) \<and>
       ((w = KneePromote \<or> w = ExplorePromote) \<longrightarrow>
          hold_modes_down_ms (sel_cfg s) \<le> i_ts_ms i - last_change_time_ms (st s) \<and>
          promote_dwell_ticks (sel_cfg s) \<le> clean_dwell s + 1 \<and>
          promote_slope_min (sel_cfg s) \<le> slope_of i))"
  by (rule select_promotes [OF assms])
    (use select_rate(1) [OF assms(1,2)] in \<open>fastforce simp: promote_guard_def on_probation_def\<close>)

theorem promote_is_earned_witness:
  "\<exists>s'. select (quiet_in\<lparr> i_ts_ms := 5000 \<rparr>) (boot_selector\<lparr> clean_dwell := 40 \<rparr>) = Inr ((2, True), s') \<and>
     (\<exists>w. reasons s' = [w] \<and> w = ExplorePromote) \<and> on_probation s' 2 5000"
proof -
  let ?i = "quiet_in\<lparr> i_ts_ms := 5000 \<rparr>" and ?s = "boot_selector\<lparr> clean_dwell := 40 \<rparr>"
  have inv: "sel_inv ?s" using boot_selector_inv by (simp add: sel_inv_def)
  have sel: "\<exists>s'. select ?i ?s = Inr ((2, True), s') \<and> reasons s' = [ExplorePromote]"
    by (simp add: select_def Let_def is_emergency_def emergency_active_def select_begin_def
        clean_bookkeeping_def end_probation_def confirm_rung_def damper_clear_def select_promote_def
        suppressed_def map_get_def route_promote_def snapback_target_def dwell_promote_def
        start_trial_def commit_def quiet_in_def boot_selector_def default_selector_cfg_def)
  then obtain s' where s': "select ?i ?s = Inr ((2, True), s')" "reasons s' = [ExplorePromote]" by blast
  with promote_is_earned [OF inv s'(1)] show ?thesis
    by (simp add: quiet_in_def boot_selector_def default_selector_cfg_def)
qed

text \<open>C12. Failures are attributed exactly. A loss demote happens exactly when loss is reported, the
  cooldown allows it and there is a rung below. It reports a knee sample for exactly the rung it
  leaves, with the class \<open>_classify\<close> gives that rung and the raw SNR for a fade or the smoothed SNR
  for a flap (a burst, or a missing signal, reports none); nothing else reports a sample. If the
  rung it leaves is on promote probation the damper is charged whatever the class and whether or
  not a sample is reported: the level rises by one over the decayed level, and the rung is held for
  the back-off of the new level. No other call changes the level of any rung, except that clean
  dwell may clear it.\<close>

theorem failure_attribution:
  assumes "sel_inv s" "select i s = Inr ((mcs, ch), s')"
    and "r = current_mcs (st s)" "demoted = (i_loss_demote i \<and> i_can_demote i \<and> 0 < r)"
  shows "(demoted \<longrightarrow> mcs = r - 1) \<and>
     (\<forall>q k v. last_fail s' = Some (q, k, v) \<longleftrightarrow> demoted \<and> q = r \<and>
        k = classify (select_begin i s) r (i_snr_ewma i) (i_snr_w i) (i_ts_ms i) \<and>
        (k = Fade \<and> i_snr_w i = Some v \<or> k = Flap \<and> i_snr_ewma i = Some v)) \<and>
     (demoted \<and> on_probation s r (i_ts_ms i) \<longrightarrow>
        flap_level s' r = Some (effective_flap_level s r (i_ts_ms i) + 1) \<and>
        suppress_until_ms s' r = Some (i_ts_ms i +
          of_int (flap_backoff_ms (sel_cfg s) (effective_flap_level s r (i_ts_ms i) + 1)))) \<and>
     (\<forall>q. flap_level s' q = flap_level s q \<or> flap_level s' q = None \<or>
        demoted \<and> on_probation s r (i_ts_ms i) \<and> q = r)"
proof (cases "is_emergency i s")
  case True
  let ?b = "select_begin i s"
  have s': "s' = select_demote i ?b" "mcs = current_mcs (st s')"
    using assms(2) True by (auto simp: select_emergency Let_def)
  have lvl: "effective_flap_level ?b = effective_flap_level s" "on_probation ?b = on_probation s"
    by (simp_all add: fun_eq_iff effective_flap_level_def on_probation_def Let_def split: option.split)
  have r: "0 \<le> r" "r \<le> cap_mcs s" using assms(1,3) by (auto simp: sel_inv_def)
  have m: "current_mcs (st (loss_demote_step i ?b)) = max 0 (r - 1)"
    using r assms(3) by (auto simp: loss_demote_step_def commit_def charge_flap_def Let_def split: fail_class.splits option.splits)
  have "flap_level (select_demote i ?b) = (if i_loss_demote i \<and> i_can_demote i then flap_level (loss_demote_step i ?b) else flap_level s)"
    "suppress_until_ms (select_demote i ?b) = (if i_loss_demote i \<and> i_can_demote i then suppress_until_ms (loss_demote_step i ?b) else suppress_until_ms s)"
    by (simp_all add: select_demote_def commit_def Let_def)
  note maps = this
  have "mcs = r - 1" if demoted
    using that m assms(3,4) by (simp add: s' select_demote_def Let_def)
  moreover have "last_fail s' = Some (q, k, v) \<longleftrightarrow> demoted \<and> q = r \<and>
      k = classify ?b r (i_snr_ewma i) (i_snr_w i) (i_ts_ms i) \<and>
      (k = Fade \<and> i_snr_w i = Some v \<or> k = Flap \<and> i_snr_ewma i = Some v)" for q k v
    using last_fail_demote_iff [of ?b i q k v] r assms(3,4) s'(1) by simp
  moreover have "flap_level s' r = Some (effective_flap_level s r (i_ts_ms i) + 1) \<and>
      suppress_until_ms s' r = Some (i_ts_ms i +
        of_int (flap_backoff_ms (sel_cfg s) (effective_flap_level s r (i_ts_ms i) + 1)))"
    if "demoted \<and> on_probation s r (i_ts_ms i)"
    using that maps loss_demote_charges [of ?b i] r assms(3,4) s'(1) by (simp add: lvl)
  moreover have "flap_level s' q = flap_level s q \<or> flap_level s' q = None \<or>
      demoted \<and> on_probation s r (i_ts_ms i) \<and> q = r" for q
    using maps(1) loss_demote_level [of ?b i q] r assms(3,4) s'(1) by (auto simp: lvl)
  ultimately show ?thesis by blast
next
  case False
  then have d: "\<not> demoted" using assms(4) by (simp add: is_emergency_def)
  have p: "select_promote i (clean_bookkeeping i (select_begin i s)) = Inr s'"
    using assms(2) False by (auto simp: select_def Let_def split: sum.splits)
  have "last_fail s' = None"
    by (rule select_promote_cases [OF assms(1), of i]) (use p in auto)
  moreover have "flap_level s' q = flap_level s q \<or> flap_level s' q = None" for q
    using select_promote_level [OF p] clean_bookkeeping_level [of i "select_begin i s" q] by simp
  ultimately show ?thesis using d by simp
qed

theorem failure_attribution_witness:
  "\<exists>s'. select loss_in trial_selector = Inr ((2, True), s') \<and> last_fail s' = Some (3, Flap, 20) \<and>
     flap_level s' 3 = Some 1 \<and> suppress_until_ms s' 3 = Some 8000"
proof -
  have inv: "sel_inv trial_selector"
    using boot_selector_inv by (simp add: sel_inv_def trial_selector_def boot_selector_def)
  have "\<exists>s'. select loss_in trial_selector = Inr ((2, True), s') \<and> last_fail s' = Some (3, Flap, 20)"
    by (simp add: select_def Let_def is_emergency_def select_begin_def select_demote_def
        loss_demote_step_def classify_def on_probation_def commit_def charge_flap_def
        loss_in_def quiet_in_def trial_selector_def boot_selector_def default_selector_cfg_def)
  then obtain s' where s': "select loss_in trial_selector = Inr ((2, True), s')"
    "last_fail s' = Some (3, Flap, 20)" by blast
  from failure_attribution [OF inv s'(1) refl refl] s' show ?thesis
    by (simp add: on_probation_def effective_flap_level_def map_get_def flap_backoff_ms_def py_int_def
        loss_in_def quiet_in_def trial_selector_def boot_selector_def default_selector_cfg_def)
qed

text \<open>A live snap-back confirmation only rises: while the confirmation of a rung has not
  lapsed, a call never lowers the SNR recorded for it.\<close>

theorem confirmation_high_water:
  assumes "sel_inv s" "select i s = Inr ((mcs, ch), s')"
    and "map_of (confirmed_until_ms s) r = Some until" "i_ts_ms i \<le> until" "confirmed_snr s r = Some c"
  shows "\<exists>c'. confirmed_snr s' r = Some c' \<and> c \<le> c'"
  using confirm_high_water [of "damper_clear ((select_begin i s)\<lparr> clean_dwell := clean_dwell (select_begin i s) + 1 \<rparr>)"
      r until "i_ts_ms i" c "i_snr_ewma i"] assms select_confirmed [OF assms(1,2)]
  by (auto simp: clean_bookkeeping_def)

theorem confirmation_high_water_witness:
  "\<exists>s' c'. select (quiet_in\<lparr> i_probe_veto := True \<rparr>) (boot_selector\<lparr> clean_dwell := 40, confirmed_until_ms := [(1, 9000)],
       confirmed_snr := [1 \<mapsto> 25] \<rparr>) = Inr ((1, False), s') \<and> confirmed_snr s' 1 = Some c' \<and> 25 \<le> c'"
proof -
  let ?i = "quiet_in\<lparr> i_probe_veto := True \<rparr>"
  let ?s = "boot_selector\<lparr> clean_dwell := 40, confirmed_until_ms := [(1, 9000)], confirmed_snr := [1 \<mapsto> 25] \<rparr>"
  have inv: "sel_inv ?s" using boot_selector_inv by (simp add: sel_inv_def)
  have "\<exists>s'. select ?i ?s = Inr ((1, False), s')"
    by (simp add: select_def Let_def is_emergency_def emergency_active_def select_begin_def
        clean_bookkeeping_def end_probation_def confirm_rung_def damper_clear_def select_promote_def
        suppressed_def map_get_def route_promote_def snapback_target_def dwell_promote_def
        start_trial_def commit_def quiet_in_def boot_selector_def default_selector_cfg_def)
  then obtain s' where s': "select ?i ?s = Inr ((1, False), s')" by blast
  from confirmation_high_water [OF inv s', of 1 9000 25] s' show ?thesis
    by (simp add: quiet_in_def)
qed

text \<open>The flap back-off never exceeds its cap and, for a base of at least zero and a
  multiplier of at least one, never shrinks as the level rises.\<close>

theorem flap_backoff_bounds:
  "flap_backoff_ms cfg l \<le> flap_backoff_cap_ms cfg \<and>
   (0 \<le> flap_base_backoff_ms cfg \<and> 1 \<le> flap_backoff_mult cfg \<and> 1 \<le> l \<and> l \<le> l' \<longrightarrow>
      flap_backoff_ms cfg l \<le> flap_backoff_ms cfg l')"
  using flap_backoff_le_cap flap_backoff_mono by blast

theorem flap_backoff_bounds_witness:
  "flap_backoff_ms default_selector_cfg 2 = 4000 \<and>
   flap_backoff_ms default_selector_cfg 2 \<le> flap_backoff_ms default_selector_cfg 60"
proof -
  have "flap_backoff_ms default_selector_cfg 2 = 4000"
    by (simp add: flap_backoff_ms_def py_int_def default_selector_cfg_def)
  then show ?thesis
    using flap_backoff_bounds [of default_selector_cfg 2 60] by (simp add: default_selector_cfg_def)
qed

end
