(* ===== verification/Stats_Events.thy ===== *)
theory Stats_Events
  imports Py_Json
begin

text \<open>
  \<open>src/gs/fpvdgs/dynlink/stats_client.py\<close>: the event types of the statistics feed and the
  decoder that turns one JSON record into an event (\<open>parse_record\<close>), with every exception
  a malformed record raises, and the offline replay loop. \<open>str()\<close> of a float or a
  container and \<open>dict()\<close> of a non-dictionary are parameters of the decoder.

  The lemmas show which records are accepted, that an accepted session has a supported
  contract version, and that a replay delivers the decoded records in file order.
\<close>

section \<open>Definitions\<close>

subsection \<open>Events\<close>

definition CONTRACT_VERSIONS_SUPPORTED :: "int list" where
  "CONTRACT_VERSIONS_SUPPORTED = [1, 2, 3]"

record rx_ant =
  a_ant :: int
  a_freq :: int
  a_mcs :: int
  a_bw :: int
  a_pkt_recv :: int
  a_rssi_min :: int
  a_rssi_avg :: int
  a_rssi_max :: int
  a_snr_min :: int
  a_snr_avg :: int
  a_snr_max :: int
  a_evm_min :: int
  a_evm_avg :: int
  a_evm_max :: int

record session_info =
  fec_type :: string
  fec_k :: int
  fec_n :: int
  epoch :: int
  interleave_depth :: int
  contract_version :: int

record settings_event =
  se_profile :: string
  se_is_cluster :: bool
  se_wlans :: "json list"
  se_settings :: json
  se_timestamp :: real

record rx_event =
  e_timestamp :: real
  e_id :: string
  e_packets :: "(string \<times> int) list"
  e_ants :: "rx_ant list"
  e_session :: "session_info option"
  e_tx_wlan :: json

record tx_event =
  t_timestamp :: real
  t_id :: string
  t_packets :: "(string \<times> int) list"

record session_event =
  n_timestamp :: real
  n_id :: string
  n_session :: session_info

datatype event =
    SettingsEvent settings_event
  | RxEvent rx_event
  | TxEvent tx_event
  | SessionEvent session_event

subsection \<open>Built-in conversions the decoder relies on\<close>

record py_builtins =
  repr :: "json \<Rightarrow> string"
  dict_of :: "json \<Rightarrow> json res"

definition to_str :: "py_builtins \<Rightarrow> json \<Rightarrow> string" where
  "to_str py j = (case j of
     JStr s \<Rightarrow> s
   | JNull \<Rightarrow> ''None''
   | JBool b \<Rightarrow> (if b then ''True'' else ''False'')
   | JInt n \<Rightarrow> show_int n
   | _ \<Rightarrow> repr py j)"

definition to_dict :: "py_builtins \<Rightarrow> json \<Rightarrow> json res" where
  "to_dict py j = (case j of JObj d \<Rightarrow> Inr (JObj d) | _ \<Rightarrow> dict_of py j)"

text \<open>\<open>d[k]\<close> with a string key, and iteration over a value.\<close>

definition jsub :: "json \<Rightarrow> string \<Rightarrow> json res" where
  "jsub j k = (case j of
     JObj d \<Rightarrow> (case map_of d k of None \<Rightarrow> Inl KeyError | Some v \<Rightarrow> Inr v)
   | _ \<Rightarrow> Inl TypeError)"

definition jiter :: "json \<Rightarrow> json list res" where
  "jiter j = (case j of
     JList xs \<Rightarrow> Inr xs
   | JObj d \<Rightarrow> Inr (map (JStr \<circ> fst) d)
   | JStr s \<Rightarrow> Inr (map (\<lambda>c. JStr [c]) s)
   | _ \<Rightarrow> Inl TypeError)"

definition int_field :: "json \<Rightarrow> string \<Rightarrow> int res" where
  "int_field j k = res_bind (jsub j k) to_int"

definition int_field_or :: "json \<Rightarrow> string \<Rightarrow> int \<Rightarrow> int res" where
  "int_field_or j k dflt = res_bind (jget j k (JInt dflt)) to_int"

subsection \<open>Decoding\<close>

definition parse_packet :: "string \<times> json \<Rightarrow> (string \<times> int) res" where
  "parse_packet kv = (case kv of (k, v) \<Rightarrow>
     res_bind (case v of JList (w # _) \<Rightarrow> to_int w | _ \<Rightarrow> to_int v) (\<lambda>n. Inr (k, n)))"

definition parse_packets :: "json \<Rightarrow> (string \<times> int) list res" where
  "parse_packets j = (case j of JObj d \<Rightarrow> res_map parse_packet d | _ \<Rightarrow> Inl AttributeError)"

definition parse_session :: "py_builtins \<Rightarrow> json \<Rightarrow> session_info res" where
  "parse_session py d =
     res_bind (jget d ''fec_type'' (JStr [])) (\<lambda>ft.
     res_bind (int_field d ''fec_k'') (\<lambda>k.
     res_bind (int_field d ''fec_n'') (\<lambda>n.
     res_bind (int_field d ''epoch'') (\<lambda>ep.
     res_bind (int_field_or d ''interleave_depth'' 1) (\<lambda>il.
     res_bind (int_field d ''contract_version'') (\<lambda>cv.
       Inr \<lparr> fec_type = to_str py ft, fec_k = k, fec_n = n, epoch = ep,
             interleave_depth = il, contract_version = cv \<rparr>))))))"

definition parse_rx_ant :: "json \<Rightarrow> rx_ant res" where
  "parse_rx_ant d =
     res_bind (int_field d ''ant'') (\<lambda>ant.
     res_bind (int_field d ''freq'') (\<lambda>freq.
     res_bind (int_field d ''mcs'') (\<lambda>mcs.
     res_bind (int_field d ''bw'') (\<lambda>bw.
     res_bind (int_field d ''pkt_recv'') (\<lambda>recv.
     res_bind (int_field d ''rssi_min'') (\<lambda>rmin.
     res_bind (int_field d ''rssi_avg'') (\<lambda>ravg.
     res_bind (int_field d ''rssi_max'') (\<lambda>rmax.
     res_bind (int_field d ''snr_min'') (\<lambda>smin.
     res_bind (int_field d ''snr_avg'') (\<lambda>savg.
     res_bind (int_field d ''snr_max'') (\<lambda>smax.
     res_bind (int_field_or d ''evm_min'' (- 1)) (\<lambda>emin.
     res_bind (int_field_or d ''evm_avg'' (- 1)) (\<lambda>eavg.
     res_bind (int_field_or d ''evm_max'' (- 1)) (\<lambda>emax.
       Inr \<lparr> a_ant = ant, a_freq = freq, a_mcs = mcs, a_bw = bw, a_pkt_recv = recv,
             a_rssi_min = rmin, a_rssi_avg = ravg, a_rssi_max = rmax,
             a_snr_min = smin, a_snr_avg = savg, a_snr_max = smax,
             a_evm_min = emin, a_evm_avg = eavg, a_evm_max = emax \<rparr>))))))))))))))"

definition checked_session :: "py_builtins \<Rightarrow> json \<Rightarrow> session_info res" where
  "checked_session py j = res_bind (parse_session py j) (\<lambda>s.
     if contract_version s \<notin> set CONTRACT_VERSIONS_SUPPORTED then Inl ContractVersionError else Inr s)"

definition parse_settings :: "py_builtins \<Rightarrow> real \<Rightarrow> dict \<Rightarrow> event res" where
  "parse_settings py ts d =
     res_bind (jiter (dget d ''wlans'' (JList []))) (\<lambda>ws.
     res_bind (to_dict py (dget d ''settings'' (JObj []))) (\<lambda>st.
       Inr (SettingsEvent \<lparr> se_profile = to_str py (dget d ''profile'' (JStr [])),
         se_is_cluster = truthy (dget d ''is_cluster'' (JBool False)),
         se_wlans = ws, se_settings = st, se_timestamp = ts \<rparr>)))"

definition parse_rx :: "py_builtins \<Rightarrow> real \<Rightarrow> dict \<Rightarrow> event res" where
  "parse_rx py ts d =
     res_bind (case map_of d ''session'' of
         Some j \<Rightarrow> if truthy j then res_bind (checked_session py j) (\<lambda>s. Inr (Some s)) else Inr None
       | None \<Rightarrow> Inr None) (\<lambda>session.
     res_bind (parse_packets (dget d ''packets'' (JObj []))) (\<lambda>ps.
     res_bind (jiter (dget d ''rx_ant_stats'' (JList []))) (\<lambda>js.
     res_bind (res_map parse_rx_ant js) (\<lambda>ants.
       Inr (RxEvent \<lparr> e_timestamp = ts, e_id = to_str py (dget d ''id'' (JStr [])),
         e_packets = ps, e_ants = ants, e_session = session,
         e_tx_wlan = dget d ''tx_wlan'' JNull \<rparr>)))))"

definition parse_tx :: "py_builtins \<Rightarrow> real \<Rightarrow> dict \<Rightarrow> event res" where
  "parse_tx py ts d =
     res_bind (parse_packets (dget d ''packets'' (JObj []))) (\<lambda>ps.
       Inr (TxEvent \<lparr> t_timestamp = ts, t_id = to_str py (dget d ''id'' (JStr [])), t_packets = ps \<rparr>))"

definition parse_new_session :: "py_builtins \<Rightarrow> real \<Rightarrow> dict \<Rightarrow> event res" where
  "parse_new_session py ts d =
     res_bind (checked_session py (JObj d)) (\<lambda>s.
       Inr (SessionEvent \<lparr> n_timestamp = ts, n_id = to_str py (dget d ''id'' (JStr [])), n_session = s \<rparr>))"

definition parse_record :: "py_builtins \<Rightarrow> json \<Rightarrow> event option res" where
  "parse_record py raw = (case raw of
     JObj d \<Rightarrow>
       (let rtype = dget d ''type'' JNull in
        res_bind (to_float (dget d ''timestamp'' (JFloat 0))) (\<lambda>ts.
          if rtype = JStr ''settings'' then res_bind (parse_settings py ts d) (\<lambda>e. Inr (Some e))
          else if rtype = JStr ''rx'' then res_bind (parse_rx py ts d) (\<lambda>e. Inr (Some e))
          else if rtype = JStr ''tx'' then res_bind (parse_tx py ts d) (\<lambda>e. Inr (Some e))
          else if rtype = JStr ''new_session'' then res_bind (parse_new_session py ts d) (\<lambda>e. Inr (Some e))
          else Inr None))
   | _ \<Rightarrow> Inl AttributeError)"

subsection \<open>Replay\<close>

text \<open>A line of the capture: blank, not JSON, or a JSON value. The loop of
  \<open>ReplayClient.run\<close> folds the events into the consumer's state; \<open>stop_at\<close> is the
  consumer's request to stop, read before each line.\<close>

datatype replay_line = Blank | Malformed | Json json

fun replay_run :: "py_builtins \<Rightarrow> ('s \<Rightarrow> bool) \<Rightarrow> (event \<Rightarrow> 's \<Rightarrow> 's) \<Rightarrow> replay_line list \<Rightarrow> 's \<Rightarrow> 's res" where
  "replay_run py stop_at on_event [] s = Inr s"
| "replay_run py stop_at on_event (l # ls) s =
     (if stop_at s then Inr s
      else case l of
          Blank \<Rightarrow> replay_run py stop_at on_event ls s
        | Malformed \<Rightarrow> replay_run py stop_at on_event ls s
        | Json raw \<Rightarrow>
            (case parse_record py raw of
               Inl e \<Rightarrow> Inl e
             | Inr None \<Rightarrow> replay_run py stop_at on_event ls s
             | Inr (Some ev) \<Rightarrow> replay_run py stop_at on_event ls (on_event ev s)))"

text \<open>What a replay delivers, as a function of the lines alone: the decoded events in order.\<close>

fun replay_events :: "py_builtins \<Rightarrow> replay_line list \<Rightarrow> event list res" where
  "replay_events py [] = Inr []"
| "replay_events py (Json raw # ls) =
     res_bind (parse_record py raw) (\<lambda>ev. res_bind (replay_events py ls)
       (\<lambda>evs. Inr (case ev of None \<Rightarrow> evs | Some e \<Rightarrow> e # evs)))"
| "replay_events py (_ # ls) = replay_events py ls"

section \<open>Lemmas\<close>

lemma checked_session_ok:
  "checked_session py j = Inr s \<Longrightarrow> contract_version s \<in> set CONTRACT_VERSIONS_SUPPORTED"
  by (auto simp: checked_session_def res_bind_eq_Inr split: if_splits)

lemma parse_rx_session:
  "parse_rx py ts d = Inr ev \<Longrightarrow> \<exists>e. ev = RxEvent e \<and> e_timestamp e = ts \<and>
     (\<forall>s. e_session e = Some s \<longrightarrow> contract_version s \<in> set CONTRACT_VERSIONS_SUPPORTED)"
  by (auto simp: parse_rx_def res_bind_eq_Inr dest!: checked_session_ok split: option.splits if_splits)

lemma replay_run_events:
  "(\<And>s. \<not> stop_at s) \<Longrightarrow> replay_events py ls = Inr evs \<Longrightarrow>
     replay_run py stop_at on_event ls s = Inr (fold on_event evs s)"
proof (induction ls arbitrary: s evs)
  case (Cons l ls)
  then show ?case
    by (cases l) (auto simp: res_bind_eq_Inr split: option.splits)
qed simp

end
