(* ===== verification/Signals.thy ===== *)
theory Signals
  imports Stats_Events
begin

text \<open>
  \<open>src/gs/fpvdgs/dynlink/signals.py\<close>: the per-window signal aggregator. \<open>signals\<close> is the
  snapshot the policy reads, \<open>aggregator\<close> the state of \<open>SignalAggregator\<close> with the
  rolling window of 10 ms tap slots; \<open>consume\<close> folds a 100 ms record, \<open>consume_micro\<close> and
  \<open>consume_loss\<close> the tap's records.

  The lemmas bound the derived rates, show that smoothing stays within its inputs, that
  the rescaled alpha keeps the time constant exactly, and that ten tap slots yield the
  window fields of one 100 ms record with the same totals.
\<close>

section \<open>Definitions\<close>

definition WINDOW_S :: real where
  "WINDOW_S = 1 / 10"

definition MICROS_PER_WINDOW :: nat where
  "MICROS_PER_WINDOW = 10"

definition micro_alpha :: "real \<Rightarrow> real" where
  "micro_alpha alpha = 1 - (1 - alpha) powr (1 / real MICROS_PER_WINDOW)"

text \<open>A probe reading of one rung (the \<open>per\<close> and \<open>fresh\<close> entries the policy reads).\<close>

record probe_reading =
  pr_per :: "real option"
  pr_fresh :: bool

record signals =
  s_rssi_min_w :: "real option"
  s_rssi_avg_w :: "real option"
  s_rssi_max_w :: "real option"
  s_mcs_w :: "int option"
  s_snr_w :: "real option"
  s_evm_w :: "real option"
  s_evm_lo_w :: "real option"
  s_evm_min_w :: "real option"
  s_residual_loss_w :: real
  s_fec_work_rate_w :: real
  s_packet_rate_w :: real
  s_burst_rate_w :: real
  s_holdoff_rate_w :: real
  s_late_rate_w :: real
  s_link_starved_w :: bool
  s_tap_active :: bool
  s_rssi :: "real option"
  s_rssi_raw :: "real option"
  s_snr :: "real option"
  s_fec_work :: real
  s_burst_rate :: real
  s_holdoff_rate :: real
  s_late_rate :: real
  s_session :: "session_info option"
  s_timestamp :: real
  s_windows_seen :: int
  s_ant_count :: int
  s_probe :: "(int \<rightharpoonup> probe_reading) option"

definition new_signals :: signals where
  "new_signals = \<lparr> s_rssi_min_w = None, s_rssi_avg_w = None, s_rssi_max_w = None, s_mcs_w = None,
     s_snr_w = None, s_evm_w = None, s_evm_lo_w = None, s_evm_min_w = None,
     s_residual_loss_w = 0, s_fec_work_rate_w = 0, s_packet_rate_w = 0, s_burst_rate_w = 0,
     s_holdoff_rate_w = 0, s_late_rate_w = 0, s_link_starved_w = False, s_tap_active = False,
     s_rssi = None, s_rssi_raw = None, s_snr = None, s_fec_work = 0, s_burst_rate = 0,
     s_holdoff_rate = 0, s_late_rate = 0, s_session = None, s_timestamp = 0,
     s_windows_seen = 0, s_ant_count = 0, s_probe = None \<rparr>"

definition ewma :: "real option \<Rightarrow> real \<Rightarrow> real \<Rightarrow> real" where
  "ewma prev new alpha = (case prev of None \<Rightarrow> new | Some p \<Rightarrow> alpha * new + (1 - alpha) * p)"

text \<open>A 10 ms tap slot: (data, fec_rec, lost, out).\<close>

type_synonym micro_slot = "int \<times> int \<times> int \<times> int"

record aggregator =
  ewma_alpha_rssi :: real
  ewma_alpha_fec :: real
  ewma_alpha_burst :: real
  starvation_threshold_pps :: real
  sig :: signals
  micro :: "micro_slot list"
  pending_lost :: int

definition new_aggregator :: aggregator where
  "new_aggregator = \<lparr> ewma_alpha_rssi = 2 / 10, ewma_alpha_fec = 2 / 10, ewma_alpha_burst = 1 / 10,
     starvation_threshold_pps = 50, sig = new_signals, micro = [], pending_lost = 0 \<rparr>"

definition update_session :: "session_info \<Rightarrow> aggregator \<Rightarrow> aggregator" where
  "update_session si g = g\<lparr> sig := (sig g)\<lparr> s_session := Some si \<rparr> \<rparr>"

definition reset_smoothed :: "aggregator \<Rightarrow> aggregator" where
  "reset_smoothed g = g\<lparr> sig := (sig g)\<lparr> s_rssi := None, s_rssi_raw := None, s_snr := None \<rparr> \<rparr>"

definition reset_micro_window :: "aggregator \<Rightarrow> aggregator" where
  "reset_micro_window g = g\<lparr> micro := [], pending_lost := 0 \<rparr>"

text \<open>\<open>max(xs, key = f)\<close>: the first element with the largest key.\<close>

fun max_by :: "('a \<Rightarrow> int) \<Rightarrow> 'a \<Rightarrow> 'a list \<Rightarrow> 'a" where
  "max_by f best [] = best"
| "max_by f best (x # xs) = max_by f (if f x > f best then x else best) xs"

text \<open>The per-dongle EVM loop: best average and worst sample of each dongle.\<close>

definition evm_step :: "rx_ant \<Rightarrow> (int \<times> real) list \<times> (int \<times> real) list
    \<Rightarrow> (int \<times> real) list \<times> (int \<times> real) list" where
  "evm_step a acc = (case acc of (d_avg, d_min) \<Rightarrow>
     if a_evm_avg a > 0
     then let d = a_ant a div 256;
              avg = real_of_int (a_evm_avg a);
              mn = real_of_int (a_evm_min a)
          in (AList.update d (max (map_get (map_of d_avg) d avg) avg) d_avg,
              AList.update d (min (map_get (map_of d_min) d mn) mn) d_min)
     else (d_avg, d_min))"

definition fold_evm :: "rx_ant list \<Rightarrow> signals \<Rightarrow> signals" where
  "fold_evm ants s = (case fold evm_step ants ([], []) of (d_avg, d_min) \<Rightarrow>
     if d_avg \<noteq> []
     then s\<lparr> s_evm_w := Some (Max (snd ` set d_avg)), s_evm_lo_w := Some (Min (snd ` set d_avg)),
             s_evm_min_w := Some (Min (snd ` set d_min)) \<rparr>
     else s)"

text \<open>\<open>_fold_ants\<close>; its callers pass a non-empty list.\<close>

definition fold_ants :: "rx_ant list \<Rightarrow> signals \<Rightarrow> signals" where
  "fold_ants ants s =
     (let best = max_by a_snr_avg (hd ants) (tl ants)
      in fold_evm ants
        (s\<lparr> s_rssi_min_w := Some (real_of_int (Min (a_rssi_min ` set ants))),
            s_rssi_avg_w := Some (real_of_int (\<Sum>a \<leftarrow> ants. a_rssi_avg a) / real (length ants)),
            s_rssi_max_w := Some (real_of_int (Max (a_rssi_avg ` set ants))),
            s_mcs_w := Some (a_mcs best),
            s_ant_count := int (length ants),
            s_snr_w := Some (real_of_int (a_snr_avg best)) \<rparr>))"

text \<open>The loss and FEC rates of a window.\<close>

definition window_rates :: "int \<Rightarrow> int \<Rightarrow> int \<Rightarrow> signals \<Rightarrow> signals" where
  "window_rates out lost fec_rec s =
     (let tx_primaries = out + lost in
      if tx_primaries > 0
      then s\<lparr> s_residual_loss_w := real_of_int lost / real_of_int tx_primaries,
              s_fec_work_rate_w := real_of_int fec_rec / real_of_int tx_primaries \<rparr>
      else s\<lparr> s_residual_loss_w := 0, s_fec_work_rate_w := 0 \<rparr>)"

definition starvation :: "real \<Rightarrow> signals \<Rightarrow> signals" where
  "starvation threshold s =
     s\<lparr> s_link_starved_w := (s_session s \<noteq> None \<and> s_packet_rate_w s < threshold) \<rparr>"

definition smooth_radio :: "real \<Rightarrow> signals \<Rightarrow> signals" where
  "smooth_radio alpha s = (case s_rssi_max_w s of
     None \<Rightarrow> s
   | Some r \<Rightarrow>
       let s1 = s\<lparr> s_rssi_raw := Some (ewma (s_rssi_raw s) r alpha) \<rparr>
       in (case s_snr_w s of
             None \<Rightarrow> s1
           | Some w \<Rightarrow> s1\<lparr> s_snr := Some (ewma (s_snr s) w alpha) \<rparr>))"

definition pkt :: "rx_event \<Rightarrow> string \<Rightarrow> int" where
  "pkt ev k = map_get (map_of (e_packets ev)) k 0"

definition consume :: "rx_event \<Rightarrow> aggregator \<Rightarrow> aggregator" where
  "consume ev g =
     (let s0 = (sig g)\<lparr> s_timestamp := e_timestamp ev, s_windows_seen := s_windows_seen (sig g) + 1,
                 s_session := (case e_session ev of None \<Rightarrow> s_session (sig g) | Some x \<Rightarrow> Some x) \<rparr>;
          s1 = window_rates (pkt ev ''out'') (pkt ev ''lost'') (pkt ev ''fec_rec'') s0;
          s2 = s1\<lparr> s_packet_rate_w := real_of_int (pkt ev ''data'') / WINDOW_S,
                   s_burst_rate_w := real_of_int (pkt ev ''bursts_rec'') / WINDOW_S,
                   s_holdoff_rate_w := real_of_int (pkt ev ''holdoff'') / WINDOW_S,
                   s_late_rate_w := real_of_int (pkt ev ''late_deadline'') / WINDOW_S \<rparr>;
          s3 = (if e_ants ev \<noteq> [] then fold_ants (e_ants ev) s2 else s2);
          s4 = starvation (starvation_threshold_pps g) s3;
          s5 = smooth_radio (ewma_alpha_rssi g) s4
      in g\<lparr> sig := s5\<lparr>
           s_fec_work := ewma (Some (s_fec_work s5)) (s_fec_work_rate_w s5) (ewma_alpha_fec g),
           s_burst_rate := ewma (Some (s_burst_rate s5)) (s_burst_rate_w s5) (ewma_alpha_burst g),
           s_holdoff_rate := ewma (Some (s_holdoff_rate s5)) (s_holdoff_rate_w s5) (ewma_alpha_burst g),
           s_late_rate := ewma (Some (s_late_rate s5)) (s_late_rate_w s5) (ewma_alpha_burst g) \<rparr> \<rparr>)"

definition recompute_micro_window :: "aggregator \<Rightarrow> aggregator" where
  "recompute_micro_window g =
     (let data = (\<Sum>(d, f, l, k) \<leftarrow> micro g. d);
          fec_rec = (\<Sum>(d, f, l, k) \<leftarrow> micro g. f);
          lost = (\<Sum>(d, f, l, k) \<leftarrow> micro g. l) + pending_lost g;
          out = (\<Sum>(d, f, l, k) \<leftarrow> micro g. k);
          s1 = window_rates out lost fec_rec (sig g)
      in g\<lparr> sig := starvation (starvation_threshold_pps g)
             (s1\<lparr> s_packet_rate_w := real_of_int data / WINDOW_S \<rparr>) \<rparr>)"

text \<open>A decoded MICRO record (\<open>TapMicro\<close>), and a LOSS record (\<open>TapLoss\<close>).\<close>

record tap_micro =
  m_seq :: int
  m_timestamp_ms :: int
  m_pkt_all :: int
  m_pkt_data :: int
  m_pkt_fec_rec :: int
  m_pkt_lost :: int
  m_pkt_out :: int
  m_ants :: "rx_ant list"

record tap_loss =
  l_seq :: int
  l_timestamp_ms :: int
  l_lost_count :: int
  l_last_seq :: int
  l_new_seq :: int

definition consume_micro :: "tap_micro \<Rightarrow> real \<Rightarrow> aggregator \<Rightarrow> aggregator" where
  "consume_micro rec now_s g =
     (let g1 = g\<lparr> sig := (sig g)\<lparr> s_timestamp := now_s \<rparr>,
                  micro := deque_append MICROS_PER_WINDOW
                    (m_pkt_data rec, m_pkt_fec_rec rec, m_pkt_lost rec, m_pkt_out rec) (micro g),
                  pending_lost := 0 \<rparr>;
          g2 = recompute_micro_window g1;
          s3 = (if m_ants rec \<noteq> [] then fold_ants (m_ants rec) (sig g2) else sig g2);
          s4 = smooth_radio (micro_alpha (ewma_alpha_rssi g)) s3
      in g2\<lparr> sig := s4\<lparr> s_fec_work :=
           ewma (Some (s_fec_work s4)) (s_fec_work_rate_w s4) (micro_alpha (ewma_alpha_fec g)) \<rparr> \<rparr>)"

definition consume_loss :: "tap_loss \<Rightarrow> real \<Rightarrow> aggregator \<Rightarrow> aggregator" where
  "consume_loss rec now_s g =
     recompute_micro_window
       (g\<lparr> sig := (sig g)\<lparr> s_timestamp := now_s \<rparr>, pending_lost := pending_lost g + l_lost_count rec \<rparr>)"

subsection \<open>Runs\<close>

datatype agg_event =
    EvRx rx_event
  | EvMicro tap_micro real
  | EvLoss tap_loss real
  | EvSession session_info
  | EvResetSmoothed
  | EvResetMicro

fun agg_step :: "aggregator \<Rightarrow> agg_event \<Rightarrow> aggregator" where
  "agg_step g (EvRx ev) = consume ev g"
| "agg_step g (EvMicro r t) = consume_micro r t g"
| "agg_step g (EvLoss r t) = consume_loss r t g"
| "agg_step g (EvSession si) = update_session si g"
| "agg_step g EvResetSmoothed = reset_smoothed g"
| "agg_step g EvResetMicro = reset_micro_window g"

text \<open>Counters are non-negative and every antenna's average SNR lies in \<open>[lo, hi]\<close>.\<close>

definition ants_ok :: "real \<Rightarrow> real \<Rightarrow> rx_ant list \<Rightarrow> bool" where
  "ants_ok lo hi ants = list_all (\<lambda>a. lo \<le> real_of_int (a_snr_avg a) \<and> real_of_int (a_snr_avg a) \<le> hi) ants"

fun event_ok :: "real \<Rightarrow> real \<Rightarrow> agg_event \<Rightarrow> bool" where
  "event_ok lo hi (EvRx ev) =
     (0 \<le> pkt ev ''out'' \<and> 0 \<le> pkt ev ''lost'' \<and> 0 \<le> pkt ev ''fec_rec'' \<and> ants_ok lo hi (e_ants ev))"
| "event_ok lo hi (EvMicro r t) =
     (0 \<le> m_pkt_fec_rec r \<and> 0 \<le> m_pkt_lost r \<and> 0 \<le> m_pkt_out r \<and> ants_ok lo hi (m_ants r))"
| "event_ok lo hi (EvLoss r t) = (0 \<le> l_lost_count r)"
| "event_ok lo hi _ = True"

definition in_range :: "real \<Rightarrow> real \<Rightarrow> real option \<Rightarrow> bool" where
  "in_range lo hi x = (case x of None \<Rightarrow> True | Some v \<Rightarrow> lo \<le> v \<and> v \<le> hi)"

definition sig_inv :: "real \<Rightarrow> real \<Rightarrow> signals \<Rightarrow> bool" where
  "sig_inv lo hi s = (0 \<le> s_residual_loss_w s \<and> s_residual_loss_w s \<le> 1 \<and> 0 \<le> s_fec_work_rate_w s \<and>
     0 \<le> s_fec_work s \<and> in_range lo hi (s_snr_w s) \<and> in_range lo hi (s_snr s))"

definition agg_inv :: "real \<Rightarrow> real \<Rightarrow> aggregator \<Rightarrow> bool" where
  "agg_inv lo hi g = (sig_inv lo hi (sig g) \<and>
     0 \<le> ewma_alpha_rssi g \<and> ewma_alpha_rssi g \<le> 1 \<and> 0 \<le> ewma_alpha_fec g \<and> ewma_alpha_fec g \<le> 1 \<and>
     length (micro g) \<le> MICROS_PER_WINDOW \<and> 0 \<le> pending_lost g \<and>
     (\<forall>(d, f, l, k) \<in> set (micro g). 0 \<le> f \<and> 0 \<le> l \<and> 0 \<le> k))"

definition slot_of :: "tap_micro \<Rightarrow> micro_slot" where
  "slot_of r = (m_pkt_data r, m_pkt_fec_rec r, m_pkt_lost r, m_pkt_out r)"

text \<open>The window fields that both paths derive from their counters.\<close>

definition window_fields :: "signals \<Rightarrow> real \<times> real \<times> real \<times> bool" where
  "window_fields s = (s_residual_loss_w s, s_fec_work_rate_w s, s_packet_rate_w s, s_link_starved_w s)"

text \<open>Records for examples.\<close>

definition sample_ant :: rx_ant where
  "sample_ant = \<lparr> a_ant = 0, a_freq = 5805, a_mcs = 1, a_bw = 20, a_pkt_recv = 8, a_rssi_min = - 60,
     a_rssi_avg = - 55, a_rssi_max = - 50, a_snr_min = 20, a_snr_avg = 25, a_snr_max = 30,
     a_evm_min = - 1, a_evm_avg = - 1, a_evm_max = - 1 \<rparr>"

definition sample_micro :: tap_micro where
  "sample_micro = \<lparr> m_seq = 1, m_timestamp_ms = 10, m_pkt_all = 9, m_pkt_data = 8, m_pkt_fec_rec = 2,
     m_pkt_lost = 1, m_pkt_out = 7, m_ants = [sample_ant] \<rparr>"

definition sample_loss :: tap_loss where
  "sample_loss = \<lparr> l_seq = 1, l_timestamp_ms = 5, l_lost_count = 3, l_last_seq = 10, l_new_seq = 14 \<rparr>"

section \<open>Lemmas\<close>

subsection \<open>Smoothing\<close>

lemma micro_alpha_bounds:
  assumes "0 \<le> a" "a \<le> 1"
  shows "0 \<le> micro_alpha a" "micro_alpha a \<le> 1"
proof -
  have "(1 - a) powr (1 / real MICROS_PER_WINDOW) \<le> 1 powr (1 / real MICROS_PER_WINDOW)"
    by (rule powr_mono2) (use assms in \<open>auto simp: MICROS_PER_WINDOW_def\<close>)
  then show "0 \<le> micro_alpha a" by (simp add: micro_alpha_def)
  show "micro_alpha a \<le> 1" by (simp add: micro_alpha_def)
qed

lemma micro_alpha_power:
  assumes "a \<le> 1"
  shows "(1 - micro_alpha a) ^ MICROS_PER_WINDOW = 1 - a"
proof (cases "a = 1")
  case True
  then show ?thesis by (simp add: micro_alpha_def MICROS_PER_WINDOW_def)
next
  case False
  then have "0 < 1 - a" using assms by simp
  then show ?thesis
    by (simp add: micro_alpha_def MICROS_PER_WINDOW_def powr_powr flip: powr_realpow)
qed

lemma ewma_Some: "ewma (Some p) x a = x + (1 - a) * (p - x)"
  by (simp add: ewma_def algebra_simps)

lemma ewma_iterate: "((\<lambda>p. ewma (Some p) x a) ^^ n) p = x + (1 - a) ^ n * (p - x)"
  by (induction n) (simp_all add: ewma_Some)

lemma in_range_simps [simp]:
  "in_range lo hi None" "in_range lo hi (Some v) \<longleftrightarrow> lo \<le> v \<and> v \<le> hi"
  by (simp_all add: in_range_def)

lemma ewma_in_range:
  assumes "0 \<le> a" "a \<le> 1" "in_range lo hi p" "lo \<le> x" "x \<le> hi"
  shows "in_range lo hi (Some (ewma p x a))"
proof (cases p)
  case None
  then show ?thesis using assms by (simp add: ewma_def in_range_def)
next
  case (Some q)
  have "a * lo + (1 - a) * lo \<le> a * x + (1 - a) * q" "a * x + (1 - a) * q \<le> a * hi + (1 - a) * hi"
    by (intro add_mono mult_left_mono; use assms Some in \<open>simp add: in_range_def\<close>)+
  then show ?thesis by (simp add: Some ewma_def in_range_def algebra_simps)
qed

lemma ewma_nonneg: "0 \<le> a \<Longrightarrow> a \<le> 1 \<Longrightarrow> 0 \<le> p \<Longrightarrow> 0 \<le> x \<Longrightarrow> 0 \<le> ewma (Some p) x a"
  by (simp add: ewma_def)

subsection \<open>Antennas\<close>

lemma max_by_in: "max_by f b xs \<in> insert b (set xs)"
proof (induction xs arbitrary: b)
  case (Cons x xs)
  show ?case using Cons [of "if f x > f b then x else b"] by (auto split: if_splits)
qed simp

lemma max_by_max: "x \<in> insert b (set xs) \<Longrightarrow> f x \<le> f (max_by f b xs)"
proof (induction xs arbitrary: b x)
  case (Cons y ys)
  let ?b = "if f y > f b then y else b"
  have "f b \<le> f ?b" "f y \<le> f ?b" by auto
  moreover have "f ?b \<le> f (max_by f ?b ys)" by (rule Cons.IH) simp
  ultimately show ?case using Cons.prems Cons.IH [of x ?b] by fastforce
qed simp

lemma fold_evm_fields [simp]:
  "s_snr_w (fold_evm ants s) = s_snr_w s" "s_snr (fold_evm ants s) = s_snr s"
  "s_residual_loss_w (fold_evm ants s) = s_residual_loss_w s"
  "s_fec_work_rate_w (fold_evm ants s) = s_fec_work_rate_w s" "s_fec_work (fold_evm ants s) = s_fec_work s"
  "s_packet_rate_w (fold_evm ants s) = s_packet_rate_w s" "s_session (fold_evm ants s) = s_session s"
  "s_link_starved_w (fold_evm ants s) = s_link_starved_w s"
  by (simp_all add: fold_evm_def split: prod.splits)

lemma fold_ants_fields [simp]:
  "s_snr (fold_ants ants s) = s_snr s"
  "s_residual_loss_w (fold_ants ants s) = s_residual_loss_w s"
  "s_fec_work_rate_w (fold_ants ants s) = s_fec_work_rate_w s" "s_fec_work (fold_ants ants s) = s_fec_work s"
  "s_packet_rate_w (fold_ants ants s) = s_packet_rate_w s" "s_session (fold_ants ants s) = s_session s"
  "s_link_starved_w (fold_ants ants s) = s_link_starved_w s"
  by (simp_all add: fold_ants_def Let_def)

lemma fold_ants_snr:
  assumes "ants \<noteq> []"
  shows "\<exists>a \<in> set ants. s_snr_w (fold_ants ants s) = Some (real_of_int (a_snr_avg a)) \<and>
     (\<forall>b \<in> set ants. a_snr_avg b \<le> a_snr_avg a)"
proof -
  let ?a = "max_by a_snr_avg (hd ants) (tl ants)"
  have set: "insert (hd ants) (set (tl ants)) = set ants"
    using assms by (cases ants) auto
  have "?a \<in> set ants" using max_by_in [of a_snr_avg "hd ants" "tl ants"] set by simp
  moreover have "\<forall>b \<in> set ants. a_snr_avg b \<le> a_snr_avg ?a"
    using max_by_max [of _ "hd ants" "tl ants" a_snr_avg] set by auto
  ultimately show ?thesis by (auto simp: fold_ants_def Let_def)
qed

lemma fold_ants_inv: "ants \<noteq> [] \<Longrightarrow> ants_ok lo hi ants \<Longrightarrow> sig_inv lo hi s \<Longrightarrow> sig_inv lo hi (fold_ants ants s)"
  using fold_ants_snr [of ants s] by (auto simp: sig_inv_def in_range_def ants_ok_def list_all_iff)

subsection \<open>Windows\<close>

lemma window_rates_fields [simp]:
  "s_snr_w (window_rates k l f s) = s_snr_w s" "s_snr (window_rates k l f s) = s_snr s"
  "s_fec_work (window_rates k l f s) = s_fec_work s" "s_session (window_rates k l f s) = s_session s"
  by (simp_all add: window_rates_def Let_def)

lemma window_rates_inv:
  assumes "0 \<le> k" "0 \<le> l" "0 \<le> f" "sig_inv lo hi s"
  shows "sig_inv lo hi (window_rates k l f s)"
  using assms by (auto simp: sig_inv_def window_rates_def Let_def)

lemma starvation_fields [simp]:
  "s_snr_w (starvation t s) = s_snr_w s" "s_snr (starvation t s) = s_snr s"
  "s_residual_loss_w (starvation t s) = s_residual_loss_w s"
  "s_fec_work_rate_w (starvation t s) = s_fec_work_rate_w s" "s_fec_work (starvation t s) = s_fec_work s"
  "s_packet_rate_w (starvation t s) = s_packet_rate_w s" "s_session (starvation t s) = s_session s"
  "s_rssi_max_w (starvation t s) = s_rssi_max_w s"
  by (simp_all add: starvation_def)

lemma smooth_radio_fields [simp]:
  "s_snr_w (smooth_radio a s) = s_snr_w s" "s_residual_loss_w (smooth_radio a s) = s_residual_loss_w s"
  "s_fec_work_rate_w (smooth_radio a s) = s_fec_work_rate_w s" "s_fec_work (smooth_radio a s) = s_fec_work s"
  "s_packet_rate_w (smooth_radio a s) = s_packet_rate_w s" "s_session (smooth_radio a s) = s_session s"
  "s_link_starved_w (smooth_radio a s) = s_link_starved_w s"
  by (simp_all add: smooth_radio_def Let_def split: option.splits)

lemma smooth_radio_inv: "0 \<le> a \<Longrightarrow> a \<le> 1 \<Longrightarrow> sig_inv lo hi s \<Longrightarrow> sig_inv lo hi (smooth_radio a s)"
  using ewma_in_range [of a lo hi "s_snr s"]
  by (auto simp: sig_inv_def smooth_radio_def Let_def split: option.splits)

lemma sum_list_nonneg_slots:
  fixes h :: "micro_slot \<Rightarrow> int"
  shows "\<forall>x \<in> set xs. 0 \<le> h x \<Longrightarrow> 0 \<le> sum_list (map h xs)"
  by (rule sum_list_nonneg) auto

lemma recompute_fields [simp]:
  "micro (recompute_micro_window g) = micro g" "pending_lost (recompute_micro_window g) = pending_lost g"
  "ewma_alpha_rssi (recompute_micro_window g) = ewma_alpha_rssi g"
  "ewma_alpha_fec (recompute_micro_window g) = ewma_alpha_fec g"
  "starvation_threshold_pps (recompute_micro_window g) = starvation_threshold_pps g"
  "s_session (sig (recompute_micro_window g)) = s_session (sig g)"
  by (simp_all add: recompute_micro_window_def Let_def)

lemma recompute_inv: "agg_inv lo hi g \<Longrightarrow> agg_inv lo hi (recompute_micro_window g)"
proof -
  assume inv: "agg_inv lo hi g"
  let ?l = "(\<Sum>(d, f, l, k) \<leftarrow> micro g. l) + pending_lost g"
  have "0 \<le> (\<Sum>(d, f, l, k) \<leftarrow> micro g. f)" "0 \<le> (\<Sum>(d, f, l, k) \<leftarrow> micro g. l)"
    "0 \<le> (\<Sum>(d, f, l, k) \<leftarrow> micro g. k)"
    by (rule sum_list_nonneg_slots; use inv in \<open>auto simp: agg_inv_def\<close>)+
  then have "sig_inv lo hi (window_rates (\<Sum>(d, f, l, k) \<leftarrow> micro g. k) ?l (\<Sum>(d, f, l, k) \<leftarrow> micro g. f) (sig g))"
    using inv by (intro window_rates_inv) (auto simp: agg_inv_def)
  then have "sig_inv lo hi (sig (recompute_micro_window g))"
    by (simp add: recompute_micro_window_def Let_def sig_inv_def)
  then show ?thesis using inv by (simp add: agg_inv_def)
qed

subsection \<open>The invariant of the aggregator\<close>

lemma fec_work_inv:
  "sig_inv lo hi s \<Longrightarrow> 0 \<le> a \<Longrightarrow> a \<le> 1 \<Longrightarrow>
     sig_inv lo hi (s\<lparr> s_fec_work := ewma (Some (s_fec_work s)) (s_fec_work_rate_w s) a \<rparr>)"
  by (simp add: sig_inv_def ewma_nonneg)

lemma consume_inv:
  assumes "agg_inv lo hi g" "event_ok lo hi (EvRx ev)"
  shows "agg_inv lo hi (consume ev g)"
proof -
  define s0 where "s0 = (sig g)\<lparr> s_timestamp := e_timestamp ev, s_windows_seen := s_windows_seen (sig g) + 1,
      s_session := (case e_session ev of None \<Rightarrow> s_session (sig g) | Some x \<Rightarrow> Some x) \<rparr>"
  define s1 where "s1 = window_rates (pkt ev ''out'') (pkt ev ''lost'') (pkt ev ''fec_rec'') s0"
  define s2 where "s2 = s1\<lparr> s_packet_rate_w := real_of_int (pkt ev ''data'') / WINDOW_S,
      s_burst_rate_w := real_of_int (pkt ev ''bursts_rec'') / WINDOW_S,
      s_holdoff_rate_w := real_of_int (pkt ev ''holdoff'') / WINDOW_S,
      s_late_rate_w := real_of_int (pkt ev ''late_deadline'') / WINDOW_S \<rparr>"
  define s3 where "s3 = (if e_ants ev \<noteq> [] then fold_ants (e_ants ev) s2 else s2)"
  define s5 where "s5 = smooth_radio (ewma_alpha_rssi g) (starvation (starvation_threshold_pps g) s3)"
  have "sig_inv lo hi s0" using assms(1) by (simp add: agg_inv_def sig_inv_def s0_def)
  then have "sig_inv lo hi s1" using assms(2) by (simp add: s1_def window_rates_inv)
  then have "sig_inv lo hi s2" by (simp add: s2_def sig_inv_def)
  then have "sig_inv lo hi s3" using assms(2) by (simp add: s3_def fold_ants_inv)
  then have "sig_inv lo hi (starvation (starvation_threshold_pps g) s3)" by (simp add: sig_inv_def)
  then have "sig_inv lo hi s5" using assms(1) by (simp add: s5_def smooth_radio_inv agg_inv_def)
  then have "sig_inv lo hi (s5\<lparr> s_fec_work := ewma (Some (s_fec_work s5)) (s_fec_work_rate_w s5) (ewma_alpha_fec g) \<rparr>)"
    using assms(1) by (intro fec_work_inv) (auto simp: agg_inv_def)
  moreover have "consume ev g = g\<lparr> sig := s5\<lparr>
      s_fec_work := ewma (Some (s_fec_work s5)) (s_fec_work_rate_w s5) (ewma_alpha_fec g),
      s_burst_rate := ewma (Some (s_burst_rate s5)) (s_burst_rate_w s5) (ewma_alpha_burst g),
      s_holdoff_rate := ewma (Some (s_holdoff_rate s5)) (s_holdoff_rate_w s5) (ewma_alpha_burst g),
      s_late_rate := ewma (Some (s_late_rate s5)) (s_late_rate_w s5) (ewma_alpha_burst g) \<rparr> \<rparr>"
    unfolding consume_def Let_def s5_def s3_def s2_def s1_def s0_def by (rule refl)
  ultimately show ?thesis using assms(1) by (simp add: agg_inv_def sig_inv_def)
qed

lemma consume_micro_inv:
  assumes "agg_inv lo hi g" "event_ok lo hi (EvMicro r t)"
  shows "agg_inv lo hi (consume_micro r t g)"
proof -
  define g1 where "g1 = g\<lparr> sig := (sig g)\<lparr> s_timestamp := t \<rparr>,
      micro := deque_append MICROS_PER_WINDOW (m_pkt_data r, m_pkt_fec_rec r, m_pkt_lost r, m_pkt_out r) (micro g),
      pending_lost := 0 \<rparr>"
  define s3 where "s3 = (if m_ants r \<noteq> [] then fold_ants (m_ants r) (sig (recompute_micro_window g1))
      else sig (recompute_micro_window g1))"
  define s4 where "s4 = smooth_radio (micro_alpha (ewma_alpha_rssi g)) s3"
  have "set (micro g1) \<subseteq> insert (m_pkt_data r, m_pkt_fec_rec r, m_pkt_lost r, m_pkt_out r) (set (micro g))"
    using set_deque_append by (simp add: g1_def)
  then have "agg_inv lo hi g1"
    using assms deque_append_bound [of MICROS_PER_WINDOW]
    by (fastforce simp: agg_inv_def g1_def sig_inv_def)
  then have inv2: "agg_inv lo hi (recompute_micro_window g1)" by (rule recompute_inv)
  then have "sig_inv lo hi s3"
    using assms(2) by (simp add: s3_def agg_inv_def fold_ants_inv)
  then have "sig_inv lo hi s4"
    using assms(1) micro_alpha_bounds by (simp add: s4_def smooth_radio_inv agg_inv_def)
  then have "sig_inv lo hi (s4\<lparr> s_fec_work :=
      ewma (Some (s_fec_work s4)) (s_fec_work_rate_w s4) (micro_alpha (ewma_alpha_fec g)) \<rparr>)"
    using assms(1) micro_alpha_bounds by (intro fec_work_inv) (auto simp: agg_inv_def)
  moreover have "consume_micro r t g = (recompute_micro_window g1)\<lparr> sig := s4\<lparr> s_fec_work :=
      ewma (Some (s_fec_work s4)) (s_fec_work_rate_w s4) (micro_alpha (ewma_alpha_fec g)) \<rparr> \<rparr>"
    unfolding consume_micro_def Let_def s4_def s3_def g1_def by (rule refl)
  ultimately show ?thesis using inv2 by (simp add: agg_inv_def)
qed

lemma consume_loss_inv:
  "agg_inv lo hi g \<Longrightarrow> event_ok lo hi (EvLoss r t) \<Longrightarrow> agg_inv lo hi (consume_loss r t g)"
  unfolding consume_loss_def by (rule recompute_inv) (simp add: agg_inv_def sig_inv_def)

interpretation agg: machine agg_step "event_ok lo hi" "agg_inv lo hi" for lo hi
proof unfold_locales
  fix g e
  assume "agg_inv lo hi g" "event_ok lo hi e"
  then show "agg_inv lo hi (agg_step g e)"
    by (cases e) (auto simp: consume_inv consume_micro_inv consume_loss_inv, simp_all add:
        agg_inv_def sig_inv_def update_session_def reset_smoothed_def reset_micro_window_def in_range_def)
qed

subsection \<open>The tap window\<close>

lemma consume_micro_fields:
  "micro (consume_micro r t g) = deque_append MICROS_PER_WINDOW (slot_of r) (micro g)"
  "pending_lost (consume_micro r t g) = 0"
  "s_session (sig (consume_micro r t g)) = s_session (sig g)"
  "starvation_threshold_pps (consume_micro r t g) = starvation_threshold_pps g"
  by (simp_all add: consume_micro_def Let_def slot_of_def)

lemma fold_consume_micro:
  "micro (fold (\<lambda>(r, t). consume_micro r t) recs g) =
     fold (\<lambda>r. deque_append MICROS_PER_WINDOW (slot_of r)) (map fst recs) (micro g) \<and>
   s_session (sig (fold (\<lambda>(r, t). consume_micro r t) recs g)) = s_session (sig g) \<and>
   starvation_threshold_pps (fold (\<lambda>(r, t). consume_micro r t) recs g) = starvation_threshold_pps g"
  by (induction recs arbitrary: g) (auto simp: consume_micro_fields)

lemma fold_deque_append:
  "length xs \<le> n \<Longrightarrow> fold (deque_append n) ys xs = drop (length xs + length ys - n) (xs @ ys)"
proof (induction ys rule: rev_induct)
  case (snoc y ys)
  have "Suc 0 - (n - length ys) + (length ys - n) = Suc (length ys) - n" by arith
  with snoc show ?case
    by (cases "n \<le> length xs + length ys") (auto simp: deque_append_def Let_def Suc_diff_le)
qed simp

lemma sum_slots:
  "(\<Sum>(d, f, l, k) \<leftarrow> map slot_of rs. d) = (\<Sum>r \<leftarrow> rs. m_pkt_data r)"
  "(\<Sum>(d, f, l, k) \<leftarrow> map slot_of rs. f) = (\<Sum>r \<leftarrow> rs. m_pkt_fec_rec r)"
  "(\<Sum>(d, f, l, k) \<leftarrow> map slot_of rs. l) = (\<Sum>r \<leftarrow> rs. m_pkt_lost r)"
  "(\<Sum>(d, f, l, k) \<leftarrow> map slot_of rs. k) = (\<Sum>r \<leftarrow> rs. m_pkt_out r)"
  by (simp_all add: slot_of_def o_def)

lemma window_fields_micro:
  "window_fields (sig (consume_micro r t g)) =
     window_fields (sig (recompute_micro_window (g\<lparr> micro := deque_append MICROS_PER_WINDOW (slot_of r) (micro g),
       pending_lost := 0 \<rparr>)))"
  by (simp add: window_fields_def consume_micro_def recompute_micro_window_def Let_def slot_of_def
      window_rates_def starvation_def)

lemma window_fields_recompute:
  "window_fields (sig (recompute_micro_window g)) =
     window_fields (starvation (starvation_threshold_pps g)
       ((window_rates (\<Sum>(d, f, l, k) \<leftarrow> micro g. k) ((\<Sum>(d, f, l, k) \<leftarrow> micro g. l) + pending_lost g)
          (\<Sum>(d, f, l, k) \<leftarrow> micro g. f) (sig g))\<lparr> s_packet_rate_w :=
            real_of_int (\<Sum>(d, f, l, k) \<leftarrow> micro g. d) / WINDOW_S \<rparr>))"
  by (simp add: recompute_micro_window_def Let_def)

lemma window_fields_consume:
  "e_session ev = None \<Longrightarrow> window_fields (sig (consume ev g)) =
     window_fields (starvation (starvation_threshold_pps g)
       ((window_rates (pkt ev ''out'') (pkt ev ''lost'') (pkt ev ''fec_rec'') (sig g))\<lparr>
          s_packet_rate_w := real_of_int (pkt ev ''data'') / WINDOW_S \<rparr>))"
  by (simp add: window_fields_def consume_def Let_def window_rates_def starvation_def)

lemma window_rates_again [simp]: "window_rates k l f (window_rates k' l' f' s) = window_rates k l f s"
  by (simp add: window_rates_def Let_def)

lemma window_rates_commute:
  "window_rates k l f (s\<lparr> s_timestamp := t \<rparr>) = (window_rates k l f s)\<lparr> s_timestamp := t \<rparr>"
  "window_rates k l f (s\<lparr> s_packet_rate_w := x \<rparr>) = (window_rates k l f s)\<lparr> s_packet_rate_w := x \<rparr>"
  "window_rates k l f (s\<lparr> s_link_starved_w := b \<rparr>) = (window_rates k l f s)\<lparr> s_link_starved_w := b \<rparr>"
  by (simp_all add: window_rates_def Let_def)

lemma consume_micro_after_loss: "consume_micro r t' (consume_loss l t g) = consume_micro r t' g"
proof -
  let ?u = "\<lambda>x. x\<lparr> micro := deque_append MICROS_PER_WINDOW (m_pkt_data r, m_pkt_fec_rec r, m_pkt_lost r, m_pkt_out r) (micro g),
      pending_lost := 0 \<rparr>"
  have "recompute_micro_window (?u ((consume_loss l t g)\<lparr> sig := (sig (consume_loss l t g))\<lparr> s_timestamp := t' \<rparr> \<rparr>)) =
      recompute_micro_window (?u (g\<lparr> sig := (sig g)\<lparr> s_timestamp := t' \<rparr> \<rparr>))"
    by (simp add: consume_loss_def recompute_micro_window_def Let_def starvation_def window_rates_commute)
  then show ?thesis by (simp add: consume_micro_def Let_def consume_loss_def)
qed

section \<open>Properties\<close>

text \<open>Whatever the interleaving of 100 ms records, tap records and resets, with
  non-negative counters and antenna SNRs inside \<open>[lo, hi]\<close>: the loss rate is a
  probability, the FEC rates are not negative, the tap window holds at most ten slots, and
  the smoothed SNR, when present, stays inside \<open>[lo, hi]\<close>.\<close>

theorem signals_bounded:
  assumes "agg_inv lo hi g" "list_all (event_ok lo hi) es"
  shows "let g' = foldl agg_step g es; s = sig g' in
     0 \<le> s_residual_loss_w s \<and> s_residual_loss_w s \<le> 1 \<and> 0 \<le> s_fec_work s \<and>
     length (micro g') \<le> MICROS_PER_WINDOW \<and>
     (case s_snr s of None \<Rightarrow> True | Some v \<Rightarrow> lo \<le> v \<and> v \<le> hi)"
  using agg.inv_run [OF assms] by (simp add: agg_inv_def sig_inv_def in_range_def Let_def)

theorem signals_bounded_witness:
  "0 \<le> s_residual_loss_w (sig (foldl agg_step new_aggregator [EvLoss sample_loss 1, EvMicro sample_micro 2])) \<and>
   s_residual_loss_w (sig (foldl agg_step new_aggregator [EvLoss sample_loss 1, EvMicro sample_micro 2])) \<le> 1"
  using signals_bounded [of 0 40 new_aggregator "[EvLoss sample_loss 1, EvMicro sample_micro 2]"]
  by (simp add: Let_def agg_inv_def sig_inv_def new_aggregator_def new_signals_def sample_loss_def
      sample_micro_def sample_ant_def ants_ok_def del: agg_step.simps)

text \<open>The tap's smoothing keeps the time constant: ten micro steps with the rescaled alpha
  on a steady input equal one window step with the configured alpha.\<close>

theorem micro_time_constant:
  assumes "a \<le> 1"
  shows "((\<lambda>p. ewma (Some p) x (micro_alpha a)) ^^ MICROS_PER_WINDOW) p = ewma (Some p) x a"
  by (simp add: ewma_iterate micro_alpha_power [OF assms]) (simp add: ewma_Some)

theorem micro_time_constant_witness:
  "((\<lambda>p. ewma (Some p) 30 (micro_alpha (1 / 5))) ^^ MICROS_PER_WINDOW) 20 = 22"
  using micro_time_constant [of "1 / 5" 30 20] by (simp add: ewma_def)



text \<open>A loss notification is visible at once and never counted twice: the reported packets
  enter the loss rate of the rolling window immediately, so it is positive, and the next MICRO
  record gives exactly the state it would have given without the notification.\<close>

theorem loss_is_pending_once:
  assumes "agg_inv lo hi g" "0 < l_lost_count l"
  shows "s_residual_loss_w (sig (consume_loss l t g)) =
      real_of_int ((\<Sum>(d, f, lo, k) \<leftarrow> micro g. lo) + pending_lost g + l_lost_count l) /
      real_of_int ((\<Sum>(d, f, lo, k) \<leftarrow> micro g. k) + (\<Sum>(d, f, lo, k) \<leftarrow> micro g. lo) + pending_lost g + l_lost_count l) \<and>
     0 < s_residual_loss_w (sig (consume_loss l t g)) \<and>
     consume_micro r t' (consume_loss l t g) = consume_micro r t' g"
proof -
  have pos: "0 \<le> (\<Sum>(d, f, l, k) \<leftarrow> micro g. l)" "0 \<le> (\<Sum>(d, f, l, k) \<leftarrow> micro g. k)" "0 \<le> pending_lost g"
    using assms(1) by (auto simp: agg_inv_def intro!: sum_list_nonneg_slots)
  have "s_residual_loss_w (sig (consume_loss l t g)) =
      real_of_int ((\<Sum>(d, f, lo, k) \<leftarrow> micro g. lo) + pending_lost g + l_lost_count l) /
      real_of_int ((\<Sum>(d, f, lo, k) \<leftarrow> micro g. k) + (\<Sum>(d, f, lo, k) \<leftarrow> micro g. lo) + pending_lost g + l_lost_count l)"
    using pos assms(2)
    by (simp add: consume_loss_def recompute_micro_window_def Let_def window_rates_def add.assoc)
  then show ?thesis using pos assms(2) consume_micro_after_loss by simp
qed

theorem loss_is_pending_once_witness:
  "0 < s_residual_loss_w (sig (consume_loss sample_loss 1 new_aggregator)) \<and>
   consume_micro sample_micro 2 (consume_loss sample_loss 1 new_aggregator) = consume_micro sample_micro 2 new_aggregator"
  using loss_is_pending_once [of 0 40 new_aggregator sample_loss 1 sample_micro 2]
  by (simp add: agg_inv_def sig_inv_def new_aggregator_def new_signals_def sample_loss_def)

end
