(* ===== verification/Policy.thy ===== *)
theory Policy
  imports Selector Signals
begin

text \<open>
  \<open>src/gs/fpvdgs/dynlink/policy.py\<close>, the class \<open>Policy\<close>, and \<open>decision.py\<close>: one tick per
  100 ms window (predictive demote, proactive SNR demote, probe gates, the selector, knee
  teaching and relaxation) and the fast path \<open>loss_event\<close>. A tick returns the decision and
  the record it writes to the flight log.

  The lemmas lift the selector's safety to the tick, show that a tick moves one rung at most
  and that a Policy-level demote is never undone in its own tick, and instantiate the
  rate-limit interface: over any interleaving of ticks and loss events there is at most one
  demote per cooldown.
\<close>

section \<open>Definitions\<close>

definition PROBE_DIRTY_PER :: real where
  "PROBE_DIRTY_PER = 10 / 100"

definition PROBE_CLEAN_PER :: real where
  "PROBE_CLEAN_PER = 2 / 100"

definition PROBE_CLEAN_RELEASE_TICKS :: int where
  "PROBE_CLEAN_RELEASE_TICKS = 20"

record policy_cfg =
  cfg_selector :: selector_cfg
  cfg_prior :: prior_cfg
  cfg_link_width :: int

text \<open>The parts of a decision's reason string.\<close>

datatype policy_reason =
    PredictDemote int int
  | SnrDemote int int
  | Selected reason
  | FastPath

record decision =
  d_timestamp :: real
  d_mcs :: int
  d_reason :: "policy_reason list"
  d_snapshot :: dict

text \<open>A record of the flight log: its reason and its other fields.\<close>

record flight_record =
  fr_reason :: "policy_reason list"
  fr_fields :: dict

record policy =
  p_cfg :: policy_cfg
  profile_name :: string
  leading :: selector
  starvation_count :: int
  ticks_at_mcs :: int
  last_ingest_mcs :: "int option"
  prior :: learned_prior
  snr_window :: "real list"
  predict_demote_count :: int
  snr_demote_count :: int
  windows_since_demote :: int
  probe_clean_ticks :: int
  probe_clean_rung :: "int option"

definition new_policy :: "policy_cfg \<Rightarrow> string \<Rightarrow> prior_disk \<Rightarrow> policy res" where
  "new_policy cfg name dsk =
     res_bind (new_selector (cfg_selector cfg)) (\<lambda>sel.
     res_bind (new_learned_prior name (cfg_prior cfg) dsk) (\<lambda>lp.
       Inr \<lparr> p_cfg = cfg, profile_name = name, leading = sel, starvation_count = 0, ticks_at_mcs = 0,
             last_ingest_mcs = None, prior = lp, snr_window = [], predict_demote_count = 0,
             snr_demote_count = 0,
             windows_since_demote = demote_cooldown_windows (cfg_selector cfg),
             probe_clean_ticks = 0, probe_clean_rung = None \<rparr>))"

definition cur_mcs :: "policy \<Rightarrow> int" where
  "cur_mcs p = current_mcs (st (leading p))"

definition ts_ms_of :: "signals \<Rightarrow> real" where
  "ts_ms_of s = (if s_timestamp s \<noteq> 0 then s_timestamp s * 1000 else 0)"

subsection \<open>The parts of a tick\<close>

definition starvation_step :: "signals \<Rightarrow> policy \<Rightarrow> policy" where
  "starvation_step s p =
     p\<lparr> starvation_count := (if s_link_starved_w s then starvation_count p + 1 else 0) \<rparr>"

text \<open>Predictive demote. The result is the state, the reason if it fired, whether the drop
  was too small, and the slope.\<close>

definition predict_step ::
    "signals \<Rightarrow> real \<Rightarrow> bool \<Rightarrow> policy \<Rightarrow> policy \<times> policy_reason list \<times> bool \<times> real option" where
  "predict_step s ts cooldown_ok p = (case s_snr s of
     None \<Rightarrow> (p, [], False, None)
   | Some v \<Rightarrow>
       let pc = cfg_prior (p_cfg p);
           win = deque_append (nat (predictive_slope_window_ticks pc)) v (snr_window p);
           slope = lsq_slope win;
           p1 = p\<lparr> snr_window := win \<rparr>;
           cur = cur_mcs p1;
           projected_drop = - slope * of_int (predictive_horizon_ticks pc)
       in if snr_predictive_rung_unviable (prior p1) (Some v) slope cur (predictive_demote_margin_db pc)
          then if projected_drop \<ge> predictive_min_drop_db pc
               then let p2 = p1\<lparr> predict_demote_count := predict_demote_count p1 + 1 \<rparr>;
                        tgt = max (cur - 1) 0
                    in if predict_demote_count p2 \<ge> predictive_debounce_windows pc \<and> cooldown_ok \<and> tgt < cur
                       then (p2\<lparr> leading := external_demote tgt ts (leading p2) \<rparr>,
                             [PredictDemote cur tgt], False, Some slope)
                       else (p2, [], False, Some slope)
               else (p1\<lparr> predict_demote_count := 0 \<rparr>, [], True, Some slope)
          else (p1\<lparr> predict_demote_count := 0 \<rparr>, [], False, Some slope))"

definition snr_demote_step ::
    "signals \<Rightarrow> real \<Rightarrow> bool \<Rightarrow> int \<Rightarrow> policy \<Rightarrow> policy \<times> policy_reason list" where
  "snr_demote_step s ts cooldown_ok start_mcs p =
     (let sc = cfg_selector (p_cfg p); cur = cur_mcs p in
      if snr_rung_unviable (prior p) cur (s_snr s) (snr_demote_margin_db sc)
      then let p1 = p\<lparr> snr_demote_count := snr_demote_count p + 1 \<rparr>;
               tgt = max (cur - 1) 0
           in if snr_demote_count p1 \<ge> snr_demote_debounce sc \<and> cooldown_ok \<and> cur = start_mcs \<and> tgt < cur
              then (p1\<lparr> leading := external_demote tgt ts (leading p1) \<rparr>, [SnrDemote cur tgt])
              else (p1, [])
      else (p\<lparr> snr_demote_count := 0 \<rparr>, []))"

text \<open>The probe gates: PER, freshness, veto and release for the promote target.\<close>

definition probe_gates ::
    "signals \<Rightarrow> int \<Rightarrow> policy \<Rightarrow> (real option \<times> bool \<times> bool \<times> bool) \<times> policy" where
  "probe_gates s target p =
     (let pr = (case s_probe s of None \<Rightarrow> None | Some m \<Rightarrow> m target);
          per = (case pr of None \<Rightarrow> None | Some x \<Rightarrow> pr_per x);
          fresh = (case pr of None \<Rightarrow> False | Some x \<Rightarrow> pr_fresh x);
          veto = (fresh \<and> (case per of None \<Rightarrow> False | Some x \<Rightarrow> x \<ge> PROBE_DIRTY_PER));
          p1 = (if Some target \<noteq> probe_clean_rung p
                then p\<lparr> probe_clean_ticks := 0, probe_clean_rung := Some target \<rparr> else p);
          clean = (fresh \<and> (case per of None \<Rightarrow> False | Some x \<Rightarrow> x \<le> PROBE_CLEAN_PER));
          p2 = p1\<lparr> probe_clean_ticks := (if clean then probe_clean_ticks p1 + 1 else 0) \<rparr>
      in ((per, fresh, veto, probe_clean_ticks p2 \<ge> PROBE_CLEAN_RELEASE_TICKS), p2))"

definition teach_last_fail :: "policy \<Rightarrow> policy" where
  "teach_last_fail p = (case last_fail (leading p) of
     None \<Rightarrow> p
   | Some (r, _, v) \<Rightarrow> p\<lparr> prior := teach_failure (Some r) (Some v) (prior p) \<rparr>)"

text \<open>Clean-side relaxation: settled, clean samples only. The flag is \<open>prior_learn\<close>.\<close>

definition relax_step :: "signals \<Rightarrow> int \<Rightarrow> policy \<Rightarrow> bool \<times> policy" where
  "relax_step s new_mcs p =
     (let pc = cfg_prior (p_cfg p);
          p1 = p\<lparr> ticks_at_mcs := (if Some new_mcs \<noteq> last_ingest_mcs p then 0 else ticks_at_mcs p + 1),
                  last_ingest_mcs := Some new_mcs \<rparr>;
          prior_learn = (s_snr s \<noteq> None \<and> ticks_at_mcs p1 \<ge> settle_ticks pc \<and>
                         s_residual_loss_w s < viable_loss pc)
      in (prior_learn,
          if prior_learn
          then p1\<lparr> prior := ingest (s_snr s) (Some new_mcs) True True (prior p1) \<rparr> else p1))"

subsection \<open>Flight-log and status values\<close>

definition jnum :: "real option \<Rightarrow> json" where
  "jnum x = (case x of None \<Rightarrow> JNull | Some v \<Rightarrow> JFloat v)"

definition jint :: "int option \<Rightarrow> json" where
  "jint x = (case x of None \<Rightarrow> JNull | Some v \<Rightarrow> JInt v)"

definition show_fail :: "(int \<times> fail_class \<times> real) option \<Rightarrow> json" where
  "show_fail f = (case f of None \<Rightarrow> JNull
     | Some (_, Fade, _) \<Rightarrow> JStr ''fade'' | Some (_, Flap, _) \<Rightarrow> JStr ''flap''
     | Some (_, Burst, _) \<Rightarrow> JStr ''burst'')"

definition show_release :: "release option \<Rightarrow> json" where
  "show_release r = (case r of None \<Rightarrow> JNull | Some Timer \<Rightarrow> JStr ''timer''
     | Some RawMin \<Rightarrow> JStr ''raw_min'' | Some ProbeRelease \<Rightarrow> JStr ''probe'')"

subsection \<open>tick\<close>

definition tick_inputs :: "signals \<Rightarrow> real \<Rightarrow> real option \<Rightarrow> bool \<Rightarrow> bool \<Rightarrow> bool \<Rightarrow> bool \<Rightarrow> policy \<Rightarrow> sel_in" where
  "tick_inputs s ts slope can_demote starved veto release p =
     (let sc = cfg_selector (p_cfg p); target = cur_mcs p + 1 in
      \<lparr> i_snr_ewma = s_snr s, i_snr_w = s_snr_w s, i_slope = slope, i_loss_rate = s_residual_loss_w s,
        i_loss_demote = (s_residual_loss_w s \<ge> video_demote_per sc),
        i_target_confident = snr_rung_confident (prior p) target,
        i_target_blocked = snr_rung_unviable (prior p) target (s_snr s) (- snr_promote_margin_db sc),
        i_fec_pressure = s_fec_work s, i_link_starved = starved, i_can_demote = can_demote,
        i_ts_ms = ts, i_probe_veto = veto, i_probe_release = release \<rparr>)"

definition tick :: "signals \<Rightarrow> policy \<Rightarrow> ((decision \<times> flight_record) \<times> policy) res" where
  "tick s p =
     (let sc = cfg_selector (p_cfg p);
          ts = ts_ms_of s;
          p0 = p\<lparr> windows_since_demote := windows_since_demote p + 1 \<rparr>;
          cooldown_ok = (windows_since_demote p0 \<ge> demote_cooldown_windows sc);
          start_mcs = cur_mcs p0;
          p1 = starvation_step s p0;
          starved = (starvation_count p1 \<ge> starvation_windows sc);
          (p2, predict_reason, predict_gated, slope) = predict_step s ts cooldown_ok p1;
          (p3, snr_reason) = snr_demote_step s ts cooldown_ok start_mcs p2;
          ((probe_per, probe_fresh, veto, release), p4) = probe_gates s (cur_mcs p3 + 1) p3;
          i = tick_inputs s ts slope (cooldown_ok \<and> cur_mcs p4 = start_mcs) starved veto release p4
      in case select i (leading p4) of
           Inl e \<Rightarrow> Inl e
         | Inr ((new_mcs, _), sel) \<Rightarrow>
             let p5 = p4\<lparr> leading := sel,
                          windows_since_demote := (if new_mcs < start_mcs then 0 else windows_since_demote p4) \<rparr>;
                 fail = last_fail sel;
                 p6 = teach_last_fail p5;
                 (prior_learn, p7) = relax_step s new_mcs p6;
                 reason = predict_reason @ snr_reason @ map Selected (reasons sel)
             in Inr ((\<lparr> d_timestamp = s_timestamp s, d_mcs = new_mcs, d_reason = reason,
                        d_snapshot = [(''rssi'', jnum (s_rssi s)), (''rssi_raw'', jnum (s_rssi_raw s)),
                          (''residual_loss_w'', JFloat (s_residual_loss_w s)),
                          (''fec_work'', JFloat (s_fec_work s)), (''link_starved'', JBool starved),
                          (''mcs'', JInt new_mcs)] \<rparr>,
                      \<lparr> fr_reason = reason,
                        fr_fields = [(''ts'', JFloat (s_timestamp s)), (''rssi'', jnum (s_rssi s)),
                          (''rssi_raw'', jnum (s_rssi_raw s)), (''snr'', jnum (s_snr_w s)),
                          (''snr_ewma'', jnum (s_snr s)),
                          (''promote_blocked'', JBool (i_target_blocked i)),
                          (''promote_suppressed'', JBool (promote_suppressed sel)),
                          (''flap_level'', JInt (map_get (flap_level sel) (current_mcs (st sel) + 1) 0)),
                          (''snr_knees'', JList (map jnum (knees_snapshot (snr_model (prior p7))))),
                          (''evm'', jnum (s_evm_w s)), (''evm_lo'', jnum (s_evm_lo_w s)),
                          (''evm_min'', jnum (s_evm_min_w s)), (''mcs'', JInt new_mcs),
                          (''width'', JInt (cfg_link_width (p_cfg p))),
                          (''residual_loss_w'', JFloat (s_residual_loss_w s)),
                          (''fec_work'', JFloat (s_fec_work s)), (''link_starved'', JBool starved),
                          (''fail_class'', show_fail fail), (''trial'', jint (trial_rung sel)),
                          (''snapback_tgt'', jint (snapback_tgt sel)),
                          (''clean_dwell'', JInt (clean_dwell sel)), (''prior_learn'', JBool prior_learn),
                          (''slope'', jnum slope), (''predict_gated'', JBool predict_gated),
                          (''tap_active'', JBool (s_tap_active s)),
                          (''damper_release'', show_release (last_release sel)),
                          (''probe_per'', jnum probe_per), (''probe_fresh'', JBool probe_fresh),
                          (''probe_veto'', JBool veto)] \<rparr>), p7))"

subsection \<open>loss_event\<close>

definition loss_inputs :: "signals \<Rightarrow> sel_in" where
  "loss_inputs s =
     \<lparr> i_snr_ewma = s_snr s, i_snr_w = s_snr_w s, i_slope = None, i_loss_rate = s_residual_loss_w s,
       i_loss_demote = True, i_target_confident = False, i_target_blocked = False,
       i_fec_pressure = s_fec_work s, i_link_starved = False, i_can_demote = True,
       i_ts_ms = ts_ms_of s, i_probe_veto = False, i_probe_release = False \<rparr>"

definition loss_event ::
    "signals \<Rightarrow> real option \<Rightarrow> policy \<Rightarrow> ((decision \<times> flight_record) option \<times> policy) res" where
  "loss_event s latency_ms p =
     (let sc = cfg_selector (p_cfg p) in
      if s_residual_loss_w s < video_demote_per sc then Inr (None, p)
      else if windows_since_demote p < demote_cooldown_windows sc then Inr (None, p)
      else case select (loss_inputs s) (leading p) of
             Inl e \<Rightarrow> Inl e
           | Inr ((new_mcs, changed), sel) \<Rightarrow>
               let p1 = p\<lparr> leading := sel \<rparr> in
               if \<not> changed \<or> new_mcs \<ge> cur_mcs p then Inr (None, p1)
               else
                 let p2 = teach_last_fail (p1\<lparr> windows_since_demote := 0 \<rparr>);
                     reason = map Selected (reasons sel) @ [FastPath]
                 in Inr (Some (\<lparr> d_timestamp = s_timestamp s, d_mcs = new_mcs, d_reason = reason,
                       d_snapshot = [(''residual_loss_w'', JFloat (s_residual_loss_w s)),
                         (''fec_work'', JFloat (s_fec_work s)), (''mcs'', JInt new_mcs)] \<rparr>,
                     \<lparr> fr_reason = reason,
                       fr_fields = [(''ts'', JFloat (s_timestamp s)), (''snr'', jnum (s_snr_w s)),
                         (''snr_ewma'', jnum (s_snr s)), (''mcs'', JInt new_mcs),
                         (''width'', JInt (cfg_link_width (p_cfg p))),
                         (''residual_loss_w'', JFloat (s_residual_loss_w s)),
                         (''fail_class'', show_fail (last_fail sel)), (''fast_path'', JBool True),
                         (''loss_latency_ms'', jnum latency_ms), (''tap_active'', JBool True)] \<rparr>), p2))"

subsection \<open>Binding, sessions, closing\<close>

definition bind_learned_prior :: "string \<Rightarrow> int \<Rightarrow> policy \<Rightarrow> policy res" where
  "bind_learned_prior adapter_id width p =
     (let key = adapter_id @ ''__bw'' @ show_int width in
      if lp_key (prior p) = key then Inr p
      else res_bind (new_learned_prior key (cfg_prior (p_cfg p)) (disk (prior p)))
             (\<lambda>lp. Inr (p\<lparr> profile_name := adapter_id, prior := lp \<rparr>)))"

definition reset_for_new_session :: "policy \<Rightarrow> policy res" where
  "reset_for_new_session p =
     res_bind (new_selector (cfg_selector (p_cfg p))) (\<lambda>sel.
       Inr (p\<lparr> leading := sel, starvation_count := 0, ticks_at_mcs := 0, last_ingest_mcs := None,
               predict_demote_count := 0, snr_demote_count := 0,
               windows_since_demote := demote_cooldown_windows (cfg_selector (p_cfg p)),
               probe_clean_ticks := 0, probe_clean_rung := None, snr_window := [] \<rparr>))"

definition close_policy :: "policy \<Rightarrow> policy" where
  "close_policy p = p\<lparr> prior := flush_prior (prior p) \<rparr>"

subsection \<open>Runs\<close>

definition pol_inv :: "policy \<Rightarrow> bool" where
  "pol_inv p = (sel_inv (leading p) \<and> sel_cfg (leading p) = cfg_selector (p_cfg p) \<and>
     cap_mcs (leading p) = max_mcs (cfg_selector (p_cfg p)) \<and>
     lp_wf (prior p) \<and> 0 \<le> windows_since_demote p)"

datatype pol_event = Tick signals | LossEvent signals "real option"

definition pol_step :: "policy \<Rightarrow> pol_event \<Rightarrow> policy" where
  "pol_step p e = (case e of
     Tick s \<Rightarrow> (case tick s p of Inl _ \<Rightarrow> p | Inr (_, p') \<Rightarrow> p')
   | LossEvent s l \<Rightarrow> (case loss_event s l p of Inl _ \<Rightarrow> p | Inr (_, p') \<Rightarrow> p'))"

definition demoted :: "policy \<Rightarrow> pol_event \<Rightarrow> bool" where
  "demoted p e = (cur_mcs (pol_step p e) < cur_mcs p)"

definition is_tick :: "pol_event \<Rightarrow> bool" where
  "is_tick e = (case e of Tick _ \<Rightarrow> True | LossEvent _ _ \<Rightarrow> False)"

definition cooldown_over :: "policy \<Rightarrow> bool" where
  "cooldown_over p = (demote_cooldown_windows (cfg_selector (p_cfg p)) \<le> windows_since_demote p + 1)"

text \<open>Policies and signals for examples: after construction, ready to climb from rung 1,
  climbed to rung 2; a lossy, a steady and a fading window.\<close>

definition boot_policy :: policy where
  "boot_policy = \<lparr> p_cfg = \<lparr> cfg_selector = default_selector_cfg, cfg_prior = default_prior_cfg, cfg_link_width = 20 \<rparr>,
     profile_name = ''rtl88'', leading = boot_selector, starvation_count = 0, ticks_at_mcs = 0,
     last_ingest_mcs = None, prior = sample_prior, snr_window = [], predict_demote_count = 0,
     snr_demote_count = 0, windows_since_demote = 3, probe_clean_ticks = 0, probe_clean_rung = None \<rparr>"

definition ready_policy :: policy where
  "ready_policy = boot_policy\<lparr> leading := boot_selector\<lparr> clean_dwell := 40 \<rparr> \<rparr>"

definition climbed_policy :: policy where
  "climbed_policy = boot_policy\<lparr> snr_demote_count := 1, leading := boot_selector\<lparr>
     st := \<lparr> current_mcs = 2, last_change_time_ms = 5000, last_mcs_change_time_ms = 5000 \<rparr> \<rparr> \<rparr>"

definition lossy_signals :: signals where
  "lossy_signals = new_signals\<lparr> s_residual_loss_w := 1 / 4, s_timestamp := 6 \<rparr>"

definition steady_signals :: signals where
  "steady_signals = new_signals\<lparr> s_snr := Some 20, s_snr_w := Some 20, s_timestamp := 5 \<rparr>"

definition fading_signals :: signals where
  "fading_signals = new_signals\<lparr> s_snr := Some 5, s_snr_w := Some 5, s_timestamp := 6 \<rparr>"

section \<open>Lemmas\<close>

text \<open>What the two Policy-level demotes may do: nothing, or one step down with the full
  change bookkeeping, once the cooldown is over.\<close>

definition stepped_down :: "real \<Rightarrow> bool \<Rightarrow> policy \<Rightarrow> policy \<Rightarrow> bool" where
  "stepped_down ts cooldown_ok p p' =
     (cooldown_ok \<and> 0 < cur_mcs p \<and> leading p' = external_demote (cur_mcs p - 1) ts (leading p))"

definition same_rest :: "policy \<Rightarrow> policy \<Rightarrow> bool" where
  "same_rest p p' = (p_cfg p' = p_cfg p \<and> prior p' = prior p \<and>
     windows_since_demote p' = windows_since_demote p \<and> starvation_count p' = starvation_count p \<and>
     last_ingest_mcs p' = last_ingest_mcs p \<and> ticks_at_mcs p' = ticks_at_mcs p)"

lemma predict_step_cases:
  assumes "predict_step s ts ok p = (p', rs, g, sl)"
  shows "same_rest p p' \<and> (leading p' = leading p \<and> rs = [] \<or>
      stepped_down ts ok p p' \<and> rs = [PredictDemote (cur_mcs p) (cur_mcs p - 1)])"
  using assms
  by (auto simp: predict_step_def Let_def same_rest_def stepped_down_def cur_mcs_def
      split: option.splits if_splits)

lemma snr_demote_step_cases:
  assumes "snr_demote_step s ts ok start p = (p', rs)"
  shows "same_rest p p' \<and> (leading p' = leading p \<and> rs = [] \<or>
      stepped_down ts ok p p' \<and> cur_mcs p = start \<and> rs = [SnrDemote (cur_mcs p) (cur_mcs p - 1)] \<and>
      snr_rung_unviable (prior p) (cur_mcs p) (s_snr s) (snr_demote_margin_db (cfg_selector (p_cfg p))))"
  using assms
  by (auto simp: snr_demote_step_def Let_def same_rest_def stepped_down_def cur_mcs_def
      split: if_splits)

lemma probe_gates_same:
  "probe_gates s t p = (x, p') \<Longrightarrow> same_rest p p' \<and> leading p' = leading p"
  by (auto simp: probe_gates_def Let_def same_rest_def split: if_splits)

lemma teach_last_fail_fields [simp]:
  "leading (teach_last_fail p) = leading p" "p_cfg (teach_last_fail p) = p_cfg p"
  "windows_since_demote (teach_last_fail p) = windows_since_demote p"
  "lp_wf (prior p) \<Longrightarrow> lp_wf (prior (teach_last_fail p))"
  by (auto simp: teach_last_fail_def split: option.splits)

lemma relax_step_fields [simp]:
  "leading (snd (relax_step s n p)) = leading p" "p_cfg (snd (relax_step s n p)) = p_cfg p"
  "windows_since_demote (snd (relax_step s n p)) = windows_since_demote p"
  "lp_wf (prior p) \<Longrightarrow> lp_wf (prior (snd (relax_step s n p)))"
  by (auto simp: relax_step_def Let_def)

lemma sel_inv_stepped:
  assumes "sel_inv (leading p)" "stepped_down ts ok p p'"
  shows "sel_inv (leading p')" "cur_mcs p' = cur_mcs p - 1" "sel_cfg (leading p') = sel_cfg (leading p)"
    "cap_mcs (leading p') = cap_mcs (leading p)" "last_change_time_ms (st (leading p')) = ts"
  using assms
  by (auto simp: stepped_down_def cur_mcs_def sel_inv_external sel_inv_def external_demote_def Let_def)

text \<open>A tick: at most one Policy-level step down, then one call of the selector.\<close>

lemma tick_cases:
  assumes inv: "pol_inv p"
  obtains p4 i sel new ch d fr p' rs where
    "leading p4 = leading p \<and> rs = [] \<or>
     stepped_down (ts_ms_of s) (cooldown_over p) p p4 \<and>
       (rs = [PredictDemote (cur_mcs p) (cur_mcs p - 1)] \<or>
        rs = [SnrDemote (cur_mcs p) (cur_mcs p - 1)] \<and>
          snr_rung_unviable (prior p) (cur_mcs p) (s_snr s)
            (snr_demote_margin_db (cfg_selector (p_cfg p))))"
    "select i (leading p4) = Inr ((new, ch), sel)"
    "i_can_demote i \<longleftrightarrow> cooldown_over p \<and> cur_mcs p4 = cur_mcs p"
    "i_ts_ms i = ts_ms_of s" "i_snr_ewma i = s_snr s"
    "i_target_blocked i = snr_rung_unviable (prior p) (cur_mcs p4 + 1) (s_snr s)
       (- snr_promote_margin_db (cfg_selector (p_cfg p)))"
    "i_target_confident i = snr_rung_confident (prior p) (cur_mcs p4 + 1)"
    "i_loss_demote i = (video_demote_per (cfg_selector (p_cfg p)) \<le> s_residual_loss_w s)"
    "tick s p = Inr ((d, fr), p')" "d_mcs d = new" "d_reason d = rs @ map Selected (reasons sel)"
    "leading p' = sel" "p_cfg p' = p_cfg p"
    "windows_since_demote p' = (if new < cur_mcs p then 0 else windows_since_demote p + 1)"
    "lp_wf (prior p')"
proof -
  define p1 where "p1 = starvation_step s (p\<lparr> windows_since_demote := windows_since_demote p + 1 \<rparr>)"
  let ?ts = "ts_ms_of s" and ?ok = "cooldown_over p"
  have p1: "leading p1 = leading p" "p_cfg p1 = p_cfg p" "prior p1 = prior p" "cur_mcs p1 = cur_mcs p"
    "windows_since_demote p1 = windows_since_demote p + 1"
    by (simp_all add: p1_def starvation_step_def cur_mcs_def)
  obtain p2 rs1 g sl where e2: "predict_step s ?ts ?ok p1 = (p2, rs1, g, sl)" by (metis prod_cases4)
  obtain p3 rs2 where e3: "snr_demote_step s ?ts ?ok (cur_mcs p) p2 = (p3, rs2)" by fastforce
  obtain per fresh veto release p4 where e4: "probe_gates s (cur_mcs p3 + 1) p3 = ((per, fresh, veto, release), p4)"
    by (metis prod_cases3 prod.exhaust)
  note c2 = predict_step_cases [OF e2] and c3 = snr_demote_step_cases [OF e3] and c4 = probe_gates_same [OF e4]
  have rest: "p_cfg p4 = p_cfg p" "prior p4 = prior p" "windows_since_demote p4 = windows_since_demote p + 1"
    using c2 c3 c4 p1 by (simp_all add: same_rest_def)
  have lead: "leading p4 = leading p \<and> rs1 @ rs2 = [] \<or>
     stepped_down ?ts ?ok p p4 \<and> (rs1 @ rs2 = [PredictDemote (cur_mcs p) (cur_mcs p - 1)] \<or>
       rs1 @ rs2 = [SnrDemote (cur_mcs p) (cur_mcs p - 1)] \<and>
         snr_rung_unviable (prior p) (cur_mcs p) (s_snr s) (snr_demote_margin_db (cfg_selector (p_cfg p))))"
  proof (cases "leading p2 = leading p1 \<and> rs1 = []")
    case True
    then have "cur_mcs p2 = cur_mcs p" "p_cfg p2 = p_cfg p" "prior p2 = prior p"
      using p1 c2 by (simp_all add: cur_mcs_def same_rest_def)
    then show ?thesis
      using True c3 c4 p1 by (auto simp: stepped_down_def)
  next
    case False
    then have st: "stepped_down ?ts ?ok p1 p2" "rs1 = [PredictDemote (cur_mcs p) (cur_mcs p - 1)]"
      using c2 p1 by auto
    then have "cur_mcs p2 \<noteq> cur_mcs p"
      using sel_inv_stepped(2) [OF _ st(1)] inv p1 by (simp add: pol_inv_def)
    then show ?thesis
      using st c3 c4 p1 by (auto simp: stepped_down_def)
  qed
  have inv4: "sel_inv (leading p4)"
    using lead sel_inv_stepped(1) [of p ?ts ?ok p4] inv by (auto simp: pol_inv_def)
  define starved where "starved = (starvation_count p1 \<ge> starvation_windows (cfg_selector (p_cfg p)))"
  define i where "i = tick_inputs s ?ts sl (?ok \<and> cur_mcs p4 = cur_mcs p) starved veto release p4"
  obtain new ch sel where sel: "select i (leading p4) = Inr ((new, ch), sel)"
    using select_outcome [OF inv4, of i] by blast
  define p5 where "p5 = p4\<lparr> leading := sel,
      windows_since_demote := (if new < cur_mcs p then 0 else windows_since_demote p4) \<rparr>"
  obtain pl p7 where e7: "relax_step s new (teach_last_fail p5) = (pl, p7)" by fastforce
  have p7_eq: "p7 = snd (relax_step s new (teach_last_fail p5))" by (simp add: e7)
  have p7: "leading p7 = sel" "p_cfg p7 = p_cfg p"
    "windows_since_demote p7 = (if new < cur_mcs p then 0 else windows_since_demote p + 1)" "lp_wf (prior p7)"
    using inv unfolding p7_eq by (simp_all add: p5_def rest pol_inv_def)
  have cm: "cur_mcs (p\<lparr> windows_since_demote := w \<rparr>) = cur_mcs p" for w by (simp add: cur_mcs_def)
  have "\<exists>d fr. tick s p = Inr ((d, fr), p7) \<and> d_mcs d = new \<and> d_reason d = (rs1 @ rs2) @ map Selected (reasons sel)"
    using sel e7
    by (simp add: tick_def Let_def cm e2 e3 e4 flip: p1_def cooldown_over_def starved_def i_def p5_def)
  then obtain d fr where "tick s p = Inr ((d, fr), p7)" "d_mcs d = new"
    "d_reason d = (rs1 @ rs2) @ map Selected (reasons sel)" by blast
  then show thesis
    by (intro that [OF lead sel]) (use p7 rest in \<open>simp_all add: i_def tick_inputs_def Let_def\<close>)
qed

lemma tick_outcome:
  assumes inv: "pol_inv p"
  shows "\<exists>d fr p'. tick s p = Inr ((d, fr), p') \<and> pol_inv p' \<and> p_cfg p' = p_cfg p \<and>
     cur_mcs p' = d_mcs d \<and> \<bar>d_mcs d - cur_mcs p\<bar> \<le> 1 \<and>
     (d_mcs d < cur_mcs p \<longrightarrow> cooldown_over p) \<and>
     windows_since_demote p' = (if d_mcs d < cur_mcs p then 0 else windows_since_demote p + 1)"
proof -
  obtain p4 i sel new ch d fr p' rs where
    lead: "leading p4 = leading p \<and> rs = [] \<or> stepped_down (ts_ms_of s) (cooldown_over p) p p4"
    and sel: "select i (leading p4) = Inr ((new, ch), sel)"
    and can: "i_can_demote i \<Longrightarrow> cooldown_over p \<and> cur_mcs p4 = cur_mcs p"
    and t: "tick s p = Inr ((d, fr), p')" "d_mcs d = new" "leading p' = sel" "p_cfg p' = p_cfg p"
      "windows_since_demote p' = (if new < cur_mcs p then 0 else windows_since_demote p + 1)" "lp_wf (prior p')"
    by (rule tick_cases [OF inv, of s]) blast
  have inv4: "sel_inv (leading p4) \<and> sel_cfg (leading p4) = sel_cfg (leading p) \<and>
      cap_mcs (leading p4) = cap_mcs (leading p)"
    using lead sel_inv_stepped [of p "ts_ms_of s" "cooldown_over p" p4] inv by (auto simp: pol_inv_def)
  note r = select_rate [OF conjunct1 [OF inv4] sel]
  have "pol_inv p'"
    using inv inv4 r t by (simp add: pol_inv_def)
  moreover have "\<bar>new - cur_mcs p\<bar> \<le> 1 \<and> (new < cur_mcs p \<longrightarrow> cooldown_over p)"
  proof (cases "leading p4 = leading p")
    case True
    then show ?thesis using r can by (auto simp: cur_mcs_def)
  next
    case False
    then have sd: "stepped_down (ts_ms_of s) (cooldown_over p) p p4" using lead by blast
    have c4: "cur_mcs p4 = cur_mcs p - 1"
      using sel_inv_stepped(2) [OF _ sd] inv by (simp add: pol_inv_def)
    then have "\<not> new < cur_mcs p4" using r(6) can by (auto simp: cur_mcs_def)
    then show ?thesis using r(5) c4 sd by (auto simp: cur_mcs_def stepped_down_def)
  qed
  ultimately show ?thesis using t r by (auto simp: cur_mcs_def)
qed

lemma loss_event_outcome:
  assumes inv: "pol_inv p"
  shows "\<exists>r p'. loss_event s l p = Inr (r, p') \<and> pol_inv p' \<and> p_cfg p' = p_cfg p \<and>
     (case r of
        None \<Rightarrow> cur_mcs p' = cur_mcs p \<and> windows_since_demote p' = windows_since_demote p
      | Some (d, fr) \<Rightarrow> cur_mcs p' = cur_mcs p - 1 \<and> d_mcs d = cur_mcs p' \<and> windows_since_demote p' = 0 \<and>
          demote_cooldown_windows (cfg_selector (p_cfg p)) \<le> windows_since_demote p)"
proof -
  have "is_emergency (loss_inputs s) (leading p)" "i_can_demote (loss_inputs s)"
    by (simp_all add: is_emergency_def loss_inputs_def)
  then obtain sel where sel: "select (loss_inputs s) (leading p) =
      Inr ((current_mcs (st sel), current_mcs (st sel) \<noteq> cur_mcs p), sel)"
    and r: "sel_inv sel" "sel_cfg sel = sel_cfg (leading p)" "cap_mcs sel = cap_mcs (leading p)"
      "current_mcs (st sel) = max 0 (cur_mcs p - 1)"
    using select_outcome [of "leading p" "loss_inputs s"] inv by (auto simp: pol_inv_def cur_mcs_def)
  have pos: "0 \<le> cur_mcs p" using inv by (simp add: pol_inv_def sel_inv_def cur_mcs_def)
  show ?thesis
    using inv r pos
    by (auto simp: loss_event_def Let_def sel pol_inv_def cur_mcs_def not_less)
qed

lemma pol_step_keeps:
  assumes "pol_inv p"
  shows "pol_inv (pol_step p e)" "p_cfg (pol_step p e) = p_cfg p" "\<bar>cur_mcs (pol_step p e) - cur_mcs p\<bar> \<le> 1"
    "demoted p e \<Longrightarrow> windows_since_demote (pol_step p e) = 0"
    "\<not> demoted p e \<Longrightarrow> windows_since_demote (pol_step p e) = windows_since_demote p + (if is_tick e then 1 else 0)"
    "demoted p e \<Longrightarrow> demote_cooldown_windows (cfg_selector (p_cfg p)) \<le>
       windows_since_demote p + (if is_tick e then 1 else 0)"
proof -
  consider (t) s where "e = Tick s" | (l) s x where "e = LossEvent s x" by (cases e) auto
  then have "pol_inv (pol_step p e) \<and> p_cfg (pol_step p e) = p_cfg p \<and> \<bar>cur_mcs (pol_step p e) - cur_mcs p\<bar> \<le> 1 \<and>
      (demoted p e \<longrightarrow> windows_since_demote (pol_step p e) = 0 \<and> demote_cooldown_windows (cfg_selector (p_cfg p)) \<le>
         windows_since_demote p + (if is_tick e then 1 else 0)) \<and>
      (\<not> demoted p e \<longrightarrow> windows_since_demote (pol_step p e) = windows_since_demote p + (if is_tick e then 1 else 0))"
  proof cases
    case t
    then show ?thesis
      using tick_outcome [OF assms, of s]
      by (auto simp: pol_step_def demoted_def is_tick_def cooldown_over_def)
  next
    case l
    then show ?thesis
      using loss_event_outcome [OF assms, of s x]
      by (auto simp: pol_step_def demoted_def is_tick_def split: option.splits)
  qed
  then show "pol_inv (pol_step p e)" "p_cfg (pol_step p e) = p_cfg p" "\<bar>cur_mcs (pol_step p e) - cur_mcs p\<bar> \<le> 1"
    "demoted p e \<Longrightarrow> windows_since_demote (pol_step p e) = 0"
    "\<not> demoted p e \<Longrightarrow> windows_since_demote (pol_step p e) = windows_since_demote p + (if is_tick e then 1 else 0)"
    "demoted p e \<Longrightarrow> demote_cooldown_windows (cfg_selector (p_cfg p)) \<le>
       windows_since_demote p + (if is_tick e then 1 else 0)"
    by simp_all
qed

text \<open>The policy is a machine whose invariant every event keeps, and its demotes are
  rate limited by the cooldown.\<close>

interpretation pol: machine pol_step "\<lambda>_. True" "\<lambda>p. pol_inv p \<and> p_cfg p = cfg" for cfg
  by unfold_locales (simp add: pol_step_keeps)

interpretation demotes: rate_limited pol_step "\<lambda>p. pol_inv p \<and> p_cfg p = cfg" demoted windows_since_demote
  is_tick "demote_cooldown_windows (cfg_selector cfg)" for cfg
  using pol_step_keeps by unfold_locales (blast | metis)+

lemma policy_demote_sticks:
  assumes inv: "pol_inv p"
    and t: "tick s p = Inr ((d, fr), p')"
    and why: "PredictDemote a b \<in> set (d_reason d) \<or> SnrDemote a b \<in> set (d_reason d)"
  shows "(d_mcs d = cur_mcs p - 1 \<or> d_mcs d = cur_mcs p \<and> min_between_changes_ms (cfg_selector (p_cfg p)) \<le> 0) \<and>
    a = cur_mcs p \<and> b = cur_mcs p - 1 \<and> cooldown_over p"
proof -
  obtain p4 i sel new ch d2 fr2 p2 rs where
    lead: "leading p4 = leading p \<and> rs = [] \<or> stepped_down (ts_ms_of s) (cooldown_over p) p p4 \<and>
       (rs = [PredictDemote (cur_mcs p) (cur_mcs p - 1)] \<or> rs = [SnrDemote (cur_mcs p) (cur_mcs p - 1)])"
    and sel: "select i (leading p4) = Inr ((new, ch), sel)"
    and can: "i_can_demote i \<Longrightarrow> cooldown_over p \<and> cur_mcs p4 = cur_mcs p"
    and ts: "i_ts_ms i = ts_ms_of s"
    and t2: "tick s p = Inr ((d2, fr2), p2)" "d_mcs d2 = new" "d_reason d2 = rs @ map Selected (reasons sel)"
    by (rule tick_cases [OF inv, of s]) blast
  have d: "d = d2" using t t2 by simp
  have sd: "stepped_down (ts_ms_of s) (cooldown_over p) p p4"
    and rs: "rs = [PredictDemote (cur_mcs p) (cur_mcs p - 1)] \<or> rs = [SnrDemote (cur_mcs p) (cur_mcs p - 1)]"
    using lead why t2 d by auto
  have invp: "sel_inv (leading p)" "sel_cfg (leading p) = cfg_selector (p_cfg p)"
    using inv by (simp_all add: pol_inv_def)
  note s4 = sel_inv_stepped [OF invp(1) sd]
  note r = select_rate [OF s4(1) sel]
  have up: "new = cur_mcs p4 + 1 \<and> min_between_changes_ms (cfg_selector (p_cfg p)) \<le> 0" if "cur_mcs p4 < new"
  proof -
    have n: "current_mcs (st (leading p4)) < new" using that by (simp add: cur_mcs_def)
    show ?thesis
      by (rule select_promotes [OF s4(1) sel n]) (use ts s4 invp in \<open>auto simp: promote_guard_def cur_mcs_def\<close>)
  qed
  moreover have "\<not> new < cur_mcs p4" using r(6) can s4(2) by (auto simp: cur_mcs_def)
  ultimately have "new = cur_mcs p4 \<or> new = cur_mcs p4 + 1 \<and> min_between_changes_ms (cfg_selector (p_cfg p)) \<le> 0" by linarith
  then show ?thesis
    using d t2 s4(2) rs why sd by (auto simp: stepped_down_def)
qed

lemma knee_promote_guard:
  assumes "sel_inv x" "select i x = Inr ((mcs, ch), x')" "current_mcs (st x) < mcs"
    and "KneePromote \<in> set (reasons x')"
  shows "mcs = current_mcs (st x) + 1 \<and> \<not> i_target_blocked i \<and> (\<exists>snr. i_snr_ewma i = Some snr)"
proof (rule select_promotes [OF assms(1-3)])
  fix snr w
  assume h: "mcs = current_mcs (st x) + 1" "promote_guard i x snr" "reasons x' = [w]"
    and route: "case w of
        SnapbackPromote tgt \<Rightarrow> mcs \<le> tgt \<and> 0 \<le> slope_of i \<and> \<not> i_target_blocked i \<and>
          tgt \<in> snapback_rungs x' snr (i_ts_ms i) (confirmed_until_ms x')
      | KneePromote \<Rightarrow> i_target_confident i \<and> \<not> i_target_blocked i
      | ExplorePromote \<Rightarrow> \<not> i_target_confident i
      | _ \<Rightarrow> False"
  have "w = KneePromote" using h(3) assms(4) by simp
  then show ?thesis using h route by (simp add: promote_guard_def)
qed

lemma tick_knee_promote:
  assumes inv: "pol_inv p" and t: "tick s p = Inr ((d, fr), p')" and up: "cur_mcs p < d_mcs d"
    and why: "Selected KneePromote \<in> set (d_reason d)"
  shows "\<exists>v. s_snr s = Some v \<and> d_mcs d = cur_mcs p + 1 \<and>
     \<not> snr_rung_unviable (prior p) (d_mcs d) (Some v) (- snr_promote_margin_db (cfg_selector (p_cfg p)))"
proof -
  obtain p4 i sel new ch d2 fr2 p2 rs where
    lead: "leading p4 = leading p \<and> rs = [] \<or> stepped_down (ts_ms_of s) (cooldown_over p) p p4 \<and>
       (rs = [PredictDemote (cur_mcs p) (cur_mcs p - 1)] \<or> rs = [SnrDemote (cur_mcs p) (cur_mcs p - 1)])"
    and sel: "select i (leading p4) = Inr ((new, ch), sel)"
    and i: "i_snr_ewma i = s_snr s" "i_target_blocked i = snr_rung_unviable (prior p) (cur_mcs p4 + 1) (s_snr s)
       (- snr_promote_margin_db (cfg_selector (p_cfg p)))"
    and t2: "tick s p = Inr ((d2, fr2), p2)" "d_mcs d2 = new" "d_reason d2 = rs @ map Selected (reasons sel)"
    by (rule tick_cases [OF inv, of s]) blast
  have d: "d = d2" using t t2 by simp
  have invp: "sel_inv (leading p)" using inv by (simp add: pol_inv_def)
  have same: "leading p4 = leading p"
  proof (rule ccontr)
    assume "leading p4 \<noteq> leading p"
    then have "stepped_down (ts_ms_of s) (cooldown_over p) p p4" using lead by blast
    from sel_inv_stepped(1,2) [OF invp this] select_rate(5) [of "leading p4" i new ch sel] sel
    show False using up d t2 by (auto simp: cur_mcs_def)
  qed
  then have c4: "cur_mcs p4 = cur_mcs p" by (simp add: cur_mcs_def)
  have inv4: "sel_inv (leading p4)" and lt: "current_mcs (st (leading p4)) < new"
    using same invp up d t2 c4 by (simp_all add: cur_mcs_def)
  have "KneePromote \<in> set (reasons sel)" using why d t2 lead same by auto
  then have "new = cur_mcs p4 + 1 \<and> \<not> i_target_blocked i \<and> (\<exists>snr. i_snr_ewma i = Some snr)"
    using knee_promote_guard [OF inv4 sel lt] by (simp add: cur_mcs_def)
  then show ?thesis using i c4 d t2(2) by auto
qed

lemma tick_snr_demote:
  assumes inv: "pol_inv p" and t: "tick s p = Inr ((d, fr), p')"
    and why: "SnrDemote a b \<in> set (d_reason d)"
  shows "a = cur_mcs p \<and> snr_rung_unviable (prior p) a (s_snr s) (snr_demote_margin_db (cfg_selector (p_cfg p)))"
  by (rule tick_cases [OF inv, of s]) (use t why in auto)

lemma loss_event_tick_agree:
  assumes inv: "pol_inv p" and l: "loss_event s l p = Inr (Some (d, fr), p')"
  shows "\<exists>d2 fr2 p2. tick s p = Inr ((d2, fr2), p2) \<and> d_mcs d2 = d_mcs d"
proof -
  have o: "pol_inv p' \<and> cur_mcs p' = cur_mcs p - 1 \<and> d_mcs d = cur_mcs p' \<and>
      demote_cooldown_windows (cfg_selector (p_cfg p)) \<le> windows_since_demote p"
    using loss_event_outcome [OF inv, of s l] by (simp add: l)
  then have c: "d_mcs d = cur_mcs p - 1" "demote_cooldown_windows (cfg_selector (p_cfg p)) \<le> windows_since_demote p"
    by simp_all
  have loss: "video_demote_per (cfg_selector (p_cfg p)) \<le> s_residual_loss_w s"
    by (rule ccontr) (use l in \<open>simp add: loss_event_def\<close>)
  have pos: "0 < cur_mcs p" using o by (simp add: pol_inv_def sel_inv_def cur_mcs_def)
  obtain p4 i sel new ch d2 fr2 p2 rs where
    lead: "leading p4 = leading p \<and> rs = [] \<or> stepped_down (ts_ms_of s) (cooldown_over p) p p4"
    and sel: "select i (leading p4) = Inr ((new, ch), sel)"
    and can: "i_can_demote i \<longleftrightarrow> cooldown_over p \<and> cur_mcs p4 = cur_mcs p"
    and em: "i_loss_demote i = (video_demote_per (cfg_selector (p_cfg p)) \<le> s_residual_loss_w s)"
    and t: "tick s p = Inr ((d2, fr2), p2)" "d_mcs d2 = new"
    by (rule tick_cases [OF inv, of s]) blast
  have invp: "sel_inv (leading p)" using inv by (simp add: pol_inv_def)
  have emer: "is_emergency i (leading p4)" using em loss by (simp add: is_emergency_def)
  have cool: "cooldown_over p" using c by (simp add: cooldown_over_def)
  have "new = cur_mcs p - 1"
  proof (cases "leading p4 = leading p")
    case True
    then have "cur_mcs p4 = cur_mcs p" "i_can_demote i" using can cool by (simp_all add: cur_mcs_def)
    then show ?thesis
      using select_outcome [OF invp, of i] emer sel pos True by (auto simp: cur_mcs_def)
  next
    case False
    then have sd: "stepped_down (ts_ms_of s) (cooldown_over p) p p4" using lead by blast
    note s4 = sel_inv_stepped [OF invp sd]
    then have "\<not> i_can_demote i" using can by simp
    then show ?thesis
      using select_outcome [OF s4(1), of i] emer sel s4(2) by (auto simp: cur_mcs_def)
  qed
  then show ?thesis using t c by auto
qed

text \<open>The prior changes only by learning, so every property that learning keeps is kept.\<close>

lemma tick_prior:
  assumes "tick s p = Inr (x, p')"
  shows "\<exists>p5 new. prior p5 = prior p \<and> p' = snd (relax_step s new (teach_last_fail p5))"
proof -
  define p1 where "p1 = starvation_step s (p\<lparr> windows_since_demote := windows_since_demote p + 1 \<rparr>)"
  let ?ts = "ts_ms_of s" and ?ok = "cooldown_over p"
  obtain p2 rs1 g sl where e2: "predict_step s ?ts ?ok p1 = (p2, rs1, g, sl)" by (metis prod_cases4)
  obtain p3 rs2 where e3: "snr_demote_step s ?ts ?ok (cur_mcs p) p2 = (p3, rs2)" by fastforce
  obtain per fresh veto release p4 where e4: "probe_gates s (cur_mcs p3 + 1) p3 = ((per, fresh, veto, release), p4)"
    by (metis prod_cases3 prod.exhaust)
  have p4: "prior p4 = prior p"
    using predict_step_cases [OF e2] snr_demote_step_cases [OF e3] probe_gates_same [OF e4]
    by (simp add: same_rest_def p1_def starvation_step_def)
  have cm: "cur_mcs (p\<lparr> windows_since_demote := w \<rparr>) = cur_mcs p" for w by (simp add: cur_mcs_def)
  define starved where "starved = (starvation_count p1 \<ge> starvation_windows (cfg_selector (p_cfg p)))"
  define i where "i = tick_inputs s ?ts sl (?ok \<and> cur_mcs p4 = cur_mcs p) starved veto release p4"
  show ?thesis
  proof (cases "select i (leading p4)")
    case (Inl e)
    then show ?thesis
      using assms by (simp add: tick_def Let_def cm e2 e3 e4 flip: p1_def cooldown_over_def starved_def i_def)
  next
    case (Inr r)
    obtain new ch sel where r: "r = ((new, ch), sel)" by (metis surj_pair)
    define p5 where "p5 = p4\<lparr> leading := sel,
        windows_since_demote := (if new < cur_mcs p then 0 else windows_since_demote p4) \<rparr>"
    obtain pl p7 where e7: "relax_step s new (teach_last_fail p5) = (pl, p7)" by fastforce
    have "p' = p7"
      using assms Inr e7 by (simp add: r tick_def Let_def cm e2 e3 e4 flip: p1_def cooldown_over_def starved_def i_def p5_def)
    moreover have "prior p5 = prior p" by (simp add: p5_def p4)
    ultimately show ?thesis using e7 by (metis snd_conv)
  qed
qed

lemma tick_prior_closed:
  assumes "\<And>lp r v c. Q lp \<Longrightarrow> Q (learn r v c lp)" "Q (prior p)" "tick s p = Inr (x, p')"
  shows "Q (prior p')"
proof -
  obtain p5 new where p5: "prior p5 = prior p" "p' = snd (relax_step s new (teach_last_fail p5))"
    using tick_prior [OF assms(3)] by blast
  have "Q (prior (teach_last_fail p5))"
    using assms(1,2) p5(1) by (simp add: teach_last_fail_def teach_failure_def split: option.split prod.split)
  then show ?thesis
    using assms(1) unfolding p5(2) by (simp add: relax_step_def Let_def ingest_def split: option.split)
qed

lemma loss_event_prior_closed:
  assumes "\<And>lp r v c. Q lp \<Longrightarrow> Q (learn r v c lp)" "Q (prior p)" "loss_event s l p = Inr (x, p')"
  shows "Q (prior p')"
  using assms
  by (auto simp: loss_event_def teach_last_fail_def teach_failure_def Let_def split: if_splits sum.splits prod.splits option.splits)

lemma reset_outcome:
  assumes "pol_inv p" "0 \<le> demote_cooldown_windows (cfg_selector (p_cfg p))"
  shows "\<exists>p'. reset_for_new_session p = Inr p' \<and> pol_inv p' \<and> prior p' = prior p \<and>
     cur_mcs p' = min 1 (max_mcs (cfg_selector (p_cfg p))) \<and> snr_window p' = [] \<and>
     new_selector (cfg_selector (p_cfg p)) = Inr (leading p')"
proof -
  have "0 \<le> max_mcs (cfg_selector (p_cfg p))" using assms(1) by (auto simp: pol_inv_def sel_inv_def)
  then obtain sel where sel: "new_selector (cfg_selector (p_cfg p)) = Inr sel"
    "current_mcs (st sel) = min 1 (max_mcs (cfg_selector (p_cfg p)))"
    by (auto simp: new_selector_def Let_def)
  then show ?thesis
    using assms sel_inv_new [OF sel(1)]
    by (simp add: reset_for_new_session_def pol_inv_def cur_mcs_def)
qed

section \<open>Properties\<close>

lemma boot_policy_inv [simp]: "pol_inv boot_policy"
  using boot_selector_inv
  by (simp add: pol_inv_def boot_policy_def boot_selector_def default_selector_cfg_def sel_inv_def
      lp_wf_def sample_prior_def UNBOUND_KEY_def)

lemma boot_policy_simps [simp]:
  "p_cfg boot_policy = \<lparr> cfg_selector = default_selector_cfg, cfg_prior = default_prior_cfg, cfg_link_width = 20 \<rparr>"
  "cur_mcs boot_policy = 1" "windows_since_demote boot_policy = 3" "prior boot_policy = sample_prior"
  by (simp_all add: boot_policy_def cur_mcs_def boot_selector_def)

lemma ready_policy_inv [simp]: "pol_inv ready_policy"
  using boot_policy_inv by (simp add: pol_inv_def ready_policy_def boot_policy_def sel_inv_def boot_selector_def)

lemma climbed_policy_inv [simp]: "pol_inv climbed_policy"
  using boot_policy_inv by (simp add: pol_inv_def climbed_policy_def boot_policy_def sel_inv_def boot_selector_def)

lemma climbed_policy_simps [simp]:
  "p_cfg climbed_policy = p_cfg boot_policy" "cur_mcs climbed_policy = 2" "prior climbed_policy = sample_prior"
  "p_cfg ready_policy = p_cfg boot_policy" "cur_mcs ready_policy = 1" "prior ready_policy = sample_prior"
  by (simp_all add: climbed_policy_def ready_policy_def cur_mcs_def boot_selector_def)

lemma sample_prior_verdicts [simp]:
  "snr_rung_unviable sample_prior 2 (Some v) m \<longleftrightarrow> v < 8 - m"
  "snr_rung_unviable sample_prior 1 (Some v) m \<longleftrightarrow> v < 8 - m"
  "snr_rung_confident sample_prior 2" "lp_cfg sample_prior = default_prior_cfg"
  "snr_predictive_rung_unviable sample_prior (Some v) sl 2 m \<longleftrightarrow> v + sl * 3 < 8 - m"
  "snr_predictive_rung_unviable sample_prior (Some v) sl 1 m \<longleftrightarrow> v + sl * 3 < 8 - m"
  by (simp_all add: snr_rung_unviable_def snr_rung_confident_def snr_predictive_rung_unviable_def
      rung_unviable_def rung_confident_def MAX_MCS_def eff_knees_def sample_prior_def Let_def)
    (simp_all add: default_prior_cfg_def)

lemma climbed_tick: "\<exists>d fr p'. tick fading_signals climbed_policy = Inr ((d, fr), p') \<and>
    SnrDemote 2 1 \<in> set (d_reason d)"
  by (simp add: tick_def Let_def ts_ms_of_def starvation_step_def predict_step_def snr_demote_step_def
      probe_gates_def cur_mcs_def tick_inputs_def climbed_policy_def boot_policy_def fading_signals_def
      new_signals_def lsq_slope_def deque_append_def default_prior_cfg_def default_selector_cfg_def
      boot_selector_def external_demote_def select_def is_emergency_def emergency_active_def
      select_begin_def clean_bookkeeping_def end_probation_def confirm_rung_def damper_clear_def
      select_promote_def suppressed_def map_get_def split: prod.split)

lemma ready_tick: "\<exists>d fr p'. tick steady_signals ready_policy = Inr ((d, fr), p') \<and> d_mcs d = 2 \<and>
    Selected KneePromote \<in> set (d_reason d)"
  by (simp add: tick_def Let_def ts_ms_of_def starvation_step_def predict_step_def snr_demote_step_def
      probe_gates_def cur_mcs_def tick_inputs_def ready_policy_def boot_policy_def steady_signals_def
      new_signals_def lsq_slope_def deque_append_def default_prior_cfg_def default_selector_cfg_def
      boot_selector_def select_def is_emergency_def emergency_active_def
      select_begin_def clean_bookkeeping_def end_probation_def confirm_rung_def damper_clear_def
      select_promote_def suppressed_def map_get_def route_promote_def snapback_target_def
      dwell_promote_def start_trial_def commit_def split: prod.split)

text \<open>C2. The policy never raises and never leaves the ladder. After any interleaving of ticks and
  loss events from a well-formed policy, the rung is between 0 and the configured maximum, the
  next tick and the next loss event return normally, the decision carries the policy's new
  rung, and it differs from the old one by at most one step.\<close>

theorem policy_stays_on_ladder:
  assumes "pol_inv p"
  shows "let q = foldl pol_step p es in
     0 \<le> cur_mcs q \<and> cur_mcs q \<le> max_mcs (cfg_selector (p_cfg p)) \<and>
     (\<exists>d fr q'. tick s q = Inr ((d, fr), q') \<and> cur_mcs q' = d_mcs d \<and> \<bar>d_mcs d - cur_mcs q\<bar> \<le> 1) \<and>
     (\<exists>r q'. loss_event s l q = Inr (r, q') \<and> cur_mcs q' \<in> {cur_mcs q, cur_mcs q - 1})"
proof -
  let ?q = "foldl pol_step p es"
  have q: "pol_inv ?q" "p_cfg ?q = p_cfg p"
    using pol.inv_run [of p "p_cfg p" es] assms by (simp_all add: list_all_iff)
  then have "0 \<le> cur_mcs ?q \<and> cur_mcs ?q \<le> max_mcs (cfg_selector (p_cfg p))"
    by (auto simp: pol_inv_def sel_inv_def cur_mcs_def)
  moreover have "\<exists>d fr q'. tick s ?q = Inr ((d, fr), q') \<and> cur_mcs q' = d_mcs d \<and> \<bar>d_mcs d - cur_mcs ?q\<bar> \<le> 1"
    using tick_outcome [OF q(1), of s] by blast
  moreover have "\<exists>r q'. loss_event s l ?q = Inr (r, q') \<and> cur_mcs q' \<in> {cur_mcs ?q, cur_mcs ?q - 1}"
    using loss_event_outcome [OF q(1), of s l] by (auto split: option.splits)
  ultimately show ?thesis by (simp add: Let_def)
qed

theorem policy_stays_on_ladder_witness:
  "0 \<le> cur_mcs (foldl pol_step boot_policy [Tick lossy_signals, LossEvent lossy_signals None]) \<and>
   cur_mcs (foldl pol_step boot_policy [Tick lossy_signals, LossEvent lossy_signals None]) \<le> 7"
  using policy_stays_on_ladder [OF boot_policy_inv, of "[Tick lossy_signals, LossEvent lossy_signals None]"]
  by (simp add: Let_def default_selector_cfg_def del: foldl_Cons)

text \<open>C4. The demote cooldown is a rate limit over every path: over any interleaving of ticks and
  loss events, the number of events that lowered the rung, times the cooldown in windows, is at
  most the number of ticks plus the windows already elapsed.\<close>

theorem demote_rate_limit:
  assumes "pol_inv p"
  shows "int (count_acts pol_step demoted p es) * demote_cooldown_windows (cfg_selector (p_cfg p))
      + windows_since_demote (foldl pol_step p es)
     \<le> windows_since_demote p + int (length (filter is_tick es))"
  using demotes.actions_bound [of p "p_cfg p" es] assms by simp

theorem demote_rate_limit_witness:
  "int (count_acts pol_step demoted boot_policy [Tick lossy_signals, LossEvent lossy_signals None, Tick lossy_signals]) * 3
     + windows_since_demote (foldl pol_step boot_policy [Tick lossy_signals, LossEvent lossy_signals None, Tick lossy_signals])
   \<le> 3 + int (length (filter is_tick [Tick lossy_signals, LossEvent lossy_signals None, Tick lossy_signals]))"
  using demote_rate_limit [OF boot_policy_inv,
      of "[Tick lossy_signals, LossEvent lossy_signals None, Tick lossy_signals]"]
  by (simp only: boot_policy_simps policy_cfg.simps) (simp add: default_selector_cfg_def del: foldl_Cons count_acts.simps)



text \<open>C20. The promote and demote margins form a dead band. If one tick climbs onto a rung by the
  knee route at SNR \<open>v\<close>, and a tick of a policy with the same prior leaves that rung by the
  proactive SNR demote at SNR \<open>v'\<close>, then the SNR has fallen by more than the two margins
  together.\<close>

theorem knee_dead_band:
  assumes "pol_inv p" "tick s p = Inr ((d, fr), p')" "cur_mcs p < d_mcs d"
    and "Selected KneePromote \<in> set (d_reason d)" "s_snr s = Some v"
    and "pol_inv q" "prior q = prior p" "p_cfg q = p_cfg p" "cur_mcs q = d_mcs d"
    and "tick s' q = Inr ((d', fr'), q')" "SnrDemote a b \<in> set (d_reason d')" "s_snr s' = Some v'"
  shows "v' < v - (snr_promote_margin_db (cfg_selector (p_cfg p)) + snr_demote_margin_db (cfg_selector (p_cfg p)))"
proof -
  have "\<not> snr_rung_unviable (prior p) (d_mcs d) (Some v) (- snr_promote_margin_db (cfg_selector (p_cfg p)))"
    using tick_knee_promote [OF assms(1-4)] assms(5) by auto
  moreover have "snr_rung_unviable (prior p) (d_mcs d) (Some v') (snr_demote_margin_db (cfg_selector (p_cfg p)))"
    using tick_snr_demote [OF assms(6,10,11)] assms by metis
  ultimately show ?thesis by (auto dest: lp.dead_band)
qed

theorem knee_dead_band_witness:
  "(\<exists>d fr p'. tick steady_signals ready_policy = Inr ((d, fr), p') \<and> d_mcs d = 2) \<and> (5::real) < 20 - (1 + 3 / 2)"
proof -
  obtain d fr p' where t: "tick steady_signals ready_policy = Inr ((d, fr), p')" "d_mcs d = 2"
    "Selected KneePromote \<in> set (d_reason d)"
    using ready_tick by blast
  obtain e fr2 q' where u: "tick fading_signals climbed_policy = Inr ((e, fr2), q')"
    "SnrDemote 2 1 \<in> set (d_reason e)"
    using climbed_tick by blast
  show ?thesis
    using knee_dead_band [OF ready_policy_inv t(1) _ t(3) _ climbed_policy_inv _ _ _ u, of 20 5] t
    by (simp add: steady_signals_def fading_signals_def default_selector_cfg_def)
qed

text \<open>C22. The fast path is only a latency cut. A loss event never promotes; it returns a decision
  exactly when it steps down, by one rung, resetting the shared cooldown, which had elapsed;
  otherwise the rung and the cooldown are untouched. Whenever it fires, a tick on the same
  state and signals would have chosen the same rung.\<close>

theorem fast_path_agrees:
  assumes "pol_inv p"
  shows "\<exists>r p'. loss_event s l p = Inr (r, p') \<and>
     (case r of
        None \<Rightarrow> cur_mcs p' = cur_mcs p \<and> windows_since_demote p' = windows_since_demote p
      | Some (d, fr) \<Rightarrow> d_mcs d = cur_mcs p - 1 \<and> cur_mcs p' = d_mcs d \<and> windows_since_demote p' = 0 \<and>
          demote_cooldown_windows (cfg_selector (p_cfg p)) \<le> windows_since_demote p \<and>
          (\<exists>d2 fr2 p2. tick s p = Inr ((d2, fr2), p2) \<and> d_mcs d2 = d_mcs d))"
proof -
  obtain r p' where r: "loss_event s l p = Inr (r, p')"
    "case r of None \<Rightarrow> cur_mcs p' = cur_mcs p \<and> windows_since_demote p' = windows_since_demote p
      | Some (d, fr) \<Rightarrow> cur_mcs p' = cur_mcs p - 1 \<and> d_mcs d = cur_mcs p' \<and> windows_since_demote p' = 0 \<and>
          demote_cooldown_windows (cfg_selector (p_cfg p)) \<le> windows_since_demote p"
    using loss_event_outcome [OF assms, of s l] by blast
  show ?thesis
  proof (cases r)
    case None
    then show ?thesis using r by simp
  next
    case (Some x)
    obtain d fr where x: "x = (d, fr)" by (cases x)
    have "\<exists>d2 fr2 p2. tick s p = Inr ((d2, fr2), p2) \<and> d_mcs d2 = d_mcs d"
      using loss_event_tick_agree [OF assms, of s l d fr p'] r Some x by simp
    then show ?thesis using r Some x by simp
  qed
qed

theorem fast_path_agrees_witness:
  "\<exists>r p'. loss_event lossy_signals None boot_policy = Inr (r, p') \<and> cur_mcs p' \<in> {0, 1}"
  using fast_path_agrees [OF boot_policy_inv, of lossy_signals None] by (auto split: option.splits)

text \<open>A new session starts from the boot rung with fresh selector state and keeps the learned
  knees: resetting never fails, the rung is \<open>min 1 max_mcs\<close>, the selector is the one a new
  policy starts with, the slope window is empty, and the prior is untouched.\<close>

theorem reset_keeps_prior:
  assumes "pol_inv p" "0 \<le> demote_cooldown_windows (cfg_selector (p_cfg p))"
  shows "\<exists>p'. reset_for_new_session p = Inr p' \<and> pol_inv p' \<and> prior p' = prior p \<and>
     cur_mcs p' = min 1 (max_mcs (cfg_selector (p_cfg p))) \<and> snr_window p' = [] \<and>
     new_selector (cfg_selector (p_cfg p)) = Inr (leading p')"
  by (rule reset_outcome [OF assms])

theorem reset_keeps_prior_witness:
  "\<exists>p'. reset_for_new_session climbed_policy = Inr p' \<and> cur_mcs p' = 1 \<and> prior p' = sample_prior"
  using reset_keeps_prior [OF climbed_policy_inv] by (auto simp: default_selector_cfg_def)

end
