(* ===== verification/Conn_Monitor.thy ===== *)
theory Conn_Monitor
  imports Stats_Events
begin

text \<open>
  \<open>src/gs/fpvdgs/connection_monitor.py\<close> and \<open>src/gs/fpvdgs/events.py\<close>: the drone connection
  monitor and the event bus it publishes on. One \<open>evaluate\<close> reads the clock several times and
  awaits one HTTP call in the middle; \<open>eval_env\<close> holds what the world answers during it: the
  clock readings in order, a tunnel record that arrives during the await, and the call's result.

  Results: the published events alternate, the bus's cached state agrees with the monitor, and a
  disconnect is published only after the link was found bad by every evaluation over at least
  the grace period; and then it is published.
\<close>

section \<open>Definitions\<close>

subsection \<open>Event bus\<close>

definition DRONE_CONNECTED :: string where "DRONE_CONNECTED = ''drone.connected''"
definition DRONE_DISCONNECTED :: string where "DRONE_DISCONNECTED = ''drone.disconnected''"

definition STATE_KEY :: "string \<Rightarrow> string option" where
  "STATE_KEY ev = (if ev = DRONE_CONNECTED \<or> ev = DRONE_DISCONNECTED then Some ''drone'' else None)"

record bus =
  bus_subs :: "string \<rightharpoonup> nat list"
  bus_state :: "string \<rightharpoonup> dict"

definition new_bus :: bus where
  "new_bus = \<lparr> bus_subs = Map.empty, bus_state = Map.empty \<rparr>"

definition bus_subscribe :: "string \<Rightarrow> nat \<Rightarrow> bus \<Rightarrow> bus" where
  "bus_subscribe ev cb b = b\<lparr> bus_subs := (bus_subs b)(ev \<mapsto> map_get (bus_subs b) ev [] @ [cb]) \<rparr>"

definition bus_unsubscribe :: "string \<Rightarrow> nat \<Rightarrow> bus \<Rightarrow> bus" where
  "bus_unsubscribe ev cb b = (case bus_subs b ev of
     None \<Rightarrow> b | Some cbs \<Rightarrow> b\<lparr> bus_subs := (bus_subs b)(ev \<mapsto> remove1 cb cbs) \<rparr>)"

text \<open>\<open>publish\<close> returns the callbacks it runs, in order; one that raises is logged.\<close>

definition publish :: "string \<Rightarrow> dict \<Rightarrow> bus \<Rightarrow> bus \<times> (nat \<times> dict) list" where
  "publish ev payload b =
     (case STATE_KEY ev of None \<Rightarrow> b | Some key \<Rightarrow> b\<lparr> bus_state := (bus_state b)(key \<mapsto> payload) \<rparr>,
      map (\<lambda>cb. (cb, payload)) (map_get (bus_subs b) ev []))"

definition bus_read :: "string \<Rightarrow> bus \<Rightarrow> dict option" where
  "bus_read key b = bus_state b key"

subsection \<open>The monitor\<close>

record cm_config =
  cm_enabled :: bool
  tunnel_stale_s :: real
  http_poll_s :: real
  http_timeout_s :: real
  http_fail_count :: int
  eval_interval_s :: real
  disconnect_grace_s :: real

definition ConnectionMonitorConfig :: cm_config where
  "ConnectionMonitorConfig = \<lparr> cm_enabled = True, tunnel_stale_s = 4, http_poll_s = 3 / 2, http_timeout_s = 3,
     http_fail_count = 2, eval_interval_s = 1 / 2, disconnect_grace_s = 6 \<rparr>"

datatype cstate = Disconnected | Armed | Connected

record monitor =
  cm_cfg :: cm_config
  cm_bus :: bus
  cm_state :: cstate
  cm_since :: real
  cm_reason :: string
  cm_drone_info :: "dict option"
  last_tunnel_rx :: real
  cm_fail :: int
  last_http :: real
  bad_since :: "real option"
  pending_reason :: string

definition new_monitor :: "cm_config \<Rightarrow> bus \<Rightarrow> monitor" where
  "new_monitor c b = \<lparr> cm_cfg = c, cm_bus = b, cm_state = Disconnected, cm_since = 0, cm_reason = [],
     cm_drone_info = None, last_tunnel_rx = - 1000000000, cm_fail = 0, last_http = - 1000000000,
     bad_since = None, pending_reason = [] \<rparr>"

text \<open>What was published in a step.\<close>

datatype notice = NConnected real dict | NDisconnected real string

definition on_stats_event :: "real \<Rightarrow> event \<Rightarrow> monitor \<Rightarrow> monitor" where
  "on_stats_event now ev m = (case ev of
     RxEvent e \<Rightarrow> if e_id e \<noteq> [] \<and> has_substring ''tunnel'' (lower (e_id e)) then m\<lparr> last_tunnel_rx := now \<rparr> else m
   | _ \<Rightarrow> m)"

definition tunnel_fresh :: "real \<Rightarrow> monitor \<Rightarrow> bool" where
  "tunnel_fresh now m = (now - last_tunnel_rx m < tunnel_stale_s (cm_cfg m))"

definition drone_info_of :: "json \<Rightarrow> dict" where
  "drone_info_of snap = (case snap of
     JObj d \<Rightarrow> (''version'', dget d ''version'' JNull) #
       (case dget d ''radio'' JNull of
          JObj r \<Rightarrow> [(''radio'', JObj [(''adapterId'', dget r ''adapterId'' JNull), (''txPowerCurve'', dget r ''txPowerCurve'' JNull)])]
        | _ \<Rightarrow> [])
   | _ \<Rightarrow> [])"

definition enter_connected :: "json \<Rightarrow> real \<Rightarrow> monitor \<Rightarrow> monitor \<times> notice list" where
  "enter_connected snap now m =
     (let info = drone_info_of snap;
          m1 = m\<lparr> cm_state := Connected, cm_since := now, cm_reason := [], cm_drone_info := Some info, cm_fail := 0,
                  last_http := now, bad_since := None, pending_reason := [] \<rparr>;
          (b, _) = publish DRONE_CONNECTED [(''state'', JStr ''connected''), (''at_mono'', JFloat now), (''drone'', JObj info)] (cm_bus m1)
      in (m1\<lparr> cm_bus := b \<rparr>, [NConnected now info]))"

definition enter_disconnected :: "string \<Rightarrow> real \<Rightarrow> monitor \<Rightarrow> monitor \<times> notice list" where
  "enter_disconnected reason now m =
     (let last_seen = cm_since m;
          m1 = m\<lparr> cm_state := Disconnected, cm_reason := reason, cm_drone_info := None, cm_fail := 0,
                  bad_since := None, pending_reason := [] \<rparr>;
          (b, _) = publish DRONE_DISCONNECTED [(''state'', JStr ''disconnected''), (''at_mono'', JFloat now),
                     (''reason'', JStr reason), (''last_seen_mono'', JFloat last_seen)] (cm_bus m1)
      in (m1\<lparr> cm_bus := b \<rparr>, [NDisconnected now reason]))"

record eval_env =
  clock :: "nat \<Rightarrow> real"
  rx_during :: "real option"
  snap :: "json option"
  healthy :: bool

text \<open>A tunnel record may arrive while the HTTP call is awaited.\<close>

definition await :: "eval_env \<Rightarrow> monitor \<Rightarrow> monitor" where
  "await env m = (case rx_during env of None \<Rightarrow> m | Some t \<Rightarrow> m\<lparr> last_tunnel_rx := t \<rparr>)"

definition eval_armed :: "eval_env \<Rightarrow> monitor \<Rightarrow> monitor \<times> notice list" where
  "eval_armed env m =
     (let m1 = await env m in
      case snap env of
        Some s \<Rightarrow> enter_connected s (clock env 1) m1
      | None \<Rightarrow> if \<not> tunnel_fresh (clock env 1) m1 then (m1\<lparr> cm_state := Disconnected \<rparr>, []) else (m1, []))"

text \<open>The heartbeat of a connected link.\<close>

definition heartbeat :: "eval_env \<Rightarrow> monitor \<Rightarrow> monitor" where
  "heartbeat env m =
     (if clock env 0 - last_http m \<ge> http_poll_s (cm_cfg m)
      then let m1 = await env (m\<lparr> last_http := clock env 1 \<rparr>)
           in m1\<lparr> cm_fail := (if healthy env then 0 else cm_fail m1 + 1) \<rparr>
      else m)"

definition link_bad :: "eval_env \<Rightarrow> monitor \<Rightarrow> bool" where
  "link_bad env m = (\<not> tunnel_fresh (clock env 2) m \<or> cm_fail m \<ge> http_fail_count (cm_cfg m))"

definition eval_connected :: "eval_env \<Rightarrow> monitor \<Rightarrow> monitor \<times> notice list" where
  "eval_connected env m =
     (let m1 = heartbeat env m; now = clock env 3 in
      if \<not> link_bad env m1 then (m1\<lparr> bad_since := None, pending_reason := [] \<rparr>, [])
      else case bad_since m1 of
        None \<Rightarrow> (m1\<lparr> bad_since := Some now,
                  pending_reason := (if \<not> tunnel_fresh (clock env 2) m1 then ''tunnel_lost'' else ''http_failed'') \<rparr>, [])
      | Some b \<Rightarrow> if now - b \<ge> disconnect_grace_s (cm_cfg m1) then enter_disconnected (pending_reason m1) now m1
                  else (m1, []))"

definition evaluate :: "eval_env \<Rightarrow> monitor \<Rightarrow> monitor \<times> notice list" where
  "evaluate env m = (case cm_state m of
     Disconnected \<Rightarrow> if \<not> tunnel_fresh (clock env 0) m then (m, []) else eval_armed env (m\<lparr> cm_state := Armed \<rparr>)
   | Armed \<Rightarrow> eval_armed env m
   | Connected \<Rightarrow> eval_connected env m)"

definition cm_status :: "real \<Rightarrow> monitor \<Rightarrow> json" where
  "cm_status now m = JObj
     [(''enabled'', JBool (cm_enabled (cm_cfg m))),
      (''state'', JStr (case cm_state m of Disconnected \<Rightarrow> ''disconnected'' | Armed \<Rightarrow> ''armed'' | Connected \<Rightarrow> ''connected'')),
      (''reason'', JStr (cm_reason m)),
      (''sinceMs'', if cm_state m = Connected then JInt (py_int ((now - cm_since m) * 1000)) else JNull),
      (''suspectMs'', case bad_since m of None \<Rightarrow> JNull | Some b \<Rightarrow> JInt (py_int ((now - b) * 1000))),
      (''drone'', case cm_drone_info m of None \<Rightarrow> JNull | Some d \<Rightarrow> if d = [] then JNull else JObj d)]"

subsection \<open>Runs\<close>

datatype cm_event = Stats real event | Eval eval_env

fun cm_step :: "monitor \<Rightarrow> cm_event \<Rightarrow> monitor \<times> notice list" where
  "cm_step m (Stats now ev) = (on_stats_event now ev m, [])"
| "cm_step m (Eval env) = evaluate env m"

fun cm_run :: "monitor \<Rightarrow> cm_event list \<Rightarrow> monitor \<times> notice list" where
  "cm_run m [] = (m, [])"
| "cm_run m (e # es) = (let (m1, n1) = cm_step m e; (m2, n2) = cm_run m1 es in (m2, n1 @ n2))"

text \<open>The events alternate, beginning with a connect when \<open>up\<close> is False.\<close>

fun alternating :: "bool \<Rightarrow> notice list \<Rightarrow> bool" where
  "alternating up [] = True"
| "alternating up (NConnected _ _ # ns) = (\<not> up \<and> alternating True ns)"
| "alternating up (NDisconnected _ _ # ns) = (up \<and> alternating False ns)"

definition bus_says_connected :: "monitor \<Rightarrow> bool" where
  "bus_says_connected m = (case bus_read ''drone'' (cm_bus m) of
     None \<Rightarrow> False | Some d \<Rightarrow> map_of d ''state'' = Some (JStr ''connected''))"

text \<open>The evaluations since the link was last found good or came up: each found it bad.\<close>

fun suspects :: "monitor \<Rightarrow> real list \<Rightarrow> cm_event list \<Rightarrow> real list" where
  "suspects m ts [] = ts"
| "suspects m ts (e # es) = suspects (fst (cm_step m e))
     (case e of
        Stats _ _ \<Rightarrow> ts
      | Eval env \<Rightarrow> if cm_state m = Connected \<and> link_bad env (heartbeat env m) then ts @ [clock env 3] else []) es"

definition cm_inv :: "monitor \<Rightarrow> bool" where
  "cm_inv m = ((bus_says_connected m \<longleftrightarrow> cm_state m = Connected) \<and> (cm_state m \<noteq> Connected \<longrightarrow> bad_since m = None))"

section \<open>Lemmas\<close>

lemma on_stats_event_keeps:
  "cm_state (on_stats_event t ev m) = cm_state m" "cm_bus (on_stats_event t ev m) = cm_bus m"
  "bad_since (on_stats_event t ev m) = bad_since m" "cm_cfg (on_stats_event t ev m) = cm_cfg m"
  by (simp_all add: on_stats_event_def split: event.split)

lemma await_keeps [simp]:
  "cm_state (await env m) = cm_state m" "cm_bus (await env m) = cm_bus m" "bad_since (await env m) = bad_since m"
  "cm_cfg (await env m) = cm_cfg m" "cm_fail (await env m) = cm_fail m" "pending_reason (await env m) = pending_reason m"
  by (simp_all add: await_def split: option.split)

lemma heartbeat_keeps [simp]:
  "cm_state (heartbeat env m) = cm_state m" "cm_bus (heartbeat env m) = cm_bus m" "bad_since (heartbeat env m) = bad_since m"
  "cm_cfg (heartbeat env m) = cm_cfg m" "pending_reason (heartbeat env m) = pending_reason m"
  by (simp_all add: heartbeat_def Let_def)

lemma enter_connected_fields:
  assumes "enter_connected s now m = (m', ns)"
  shows "cm_state m' = Connected" "bad_since m' = None" "cm_cfg m' = cm_cfg m" "ns = [NConnected now (drone_info_of s)]"
    "bus_says_connected m'"
  using assms
  by (auto simp: enter_connected_def publish_def STATE_KEY_def bus_says_connected_def bus_read_def Let_def)

lemma enter_disconnected_fields:
  assumes "enter_disconnected r now m = (m', ns)"
  shows "cm_state m' = Disconnected" "bad_since m' = None" "cm_cfg m' = cm_cfg m" "ns = [NDisconnected now r]"
    "\<not> bus_says_connected m'"
  using assms
  by (auto simp: enter_disconnected_def publish_def STATE_KEY_def bus_says_connected_def bus_read_def Let_def)

lemma bus_says_cong: "cm_bus m' = cm_bus m \<Longrightarrow> bus_says_connected m' = bus_says_connected m"
  by (simp add: bus_says_connected_def)

text \<open>The outcomes of one step.\<close>

lemma cm_step_cases:
  assumes "cm_step m e = (m', ns)"
  obtains
    (stats) t ev where "e = Stats t ev" "cm_state m' = cm_state m" "cm_bus m' = cm_bus m" "bad_since m' = bad_since m" "ns = []"
      "cm_cfg m' = cm_cfg m"
  | (down) env where "e = Eval env" "cm_state m \<noteq> Connected" "cm_state m' \<noteq> Connected" "cm_bus m' = cm_bus m"
      "bad_since m' = bad_since m" "ns = []" "cm_cfg m' = cm_cfg m"
  | (up) env now info where "e = Eval env" "cm_state m \<noteq> Connected" "cm_state m' = Connected" "bad_since m' = None"
      "bus_says_connected m'" "ns = [NConnected now info]" "cm_cfg m' = cm_cfg m"
  | (good) env where "e = Eval env" "cm_state m = Connected" "cm_state m' = Connected" "\<not> link_bad env (heartbeat env m)"
      "bad_since m' = None" "cm_bus m' = cm_bus m" "ns = []" "cm_cfg m' = cm_cfg m"
  | (first_bad) env where "e = Eval env" "cm_state m = Connected" "cm_state m' = Connected" "link_bad env (heartbeat env m)"
      "bad_since m = None" "bad_since m' = Some (clock env 3)" "cm_bus m' = cm_bus m" "ns = []" "cm_cfg m' = cm_cfg m"
  | (still_bad) env b where "e = Eval env" "cm_state m = Connected" "cm_state m' = Connected" "link_bad env (heartbeat env m)"
      "bad_since m = Some b" "clock env 3 - b < disconnect_grace_s (cm_cfg m)" "bad_since m' = Some b" "cm_bus m' = cm_bus m" "ns = []"
      "cm_cfg m' = cm_cfg m"
  | (lost) env b r where "e = Eval env" "cm_state m = Connected" "cm_state m' = Disconnected" "link_bad env (heartbeat env m)"
      "bad_since m = Some b" "disconnect_grace_s (cm_cfg m) \<le> clock env 3 - b" "bad_since m' = None"
      "\<not> bus_says_connected m'" "ns = [NDisconnected (clock env 3) r]" "cm_cfg m' = cm_cfg m"
proof (cases e)
  case (Stats t ev)
  then show ?thesis using assms stats on_stats_event_keeps by auto
next
  case (Eval env)
  have armed: ?thesis if "eval_armed env m0 = (m', ns)" "cm_state m \<noteq> Connected" "cm_state m0 \<noteq> Connected" "cm_bus m0 = cm_bus m"
    "bad_since m0 = bad_since m" "cm_cfg m0 = cm_cfg m" for m0
  proof (cases "snap env")
    case None
    then show ?thesis
      using that(1) by (intro down [OF Eval that(2)]) (use that in \<open>auto simp: eval_armed_def Let_def split: if_splits\<close>)
  next
    case (Some s)
    then have "enter_connected s (clock env 1) (await env m0) = (m', ns)"
      using that(1) by (simp add: eval_armed_def Let_def)
    note f = enter_connected_fields [OF this]
    show ?thesis by (rule up [OF Eval that(2) f(1,2,5,4)]) (use f(3) that in simp)
  qed
  show ?thesis
  proof (cases "cm_state m")
    case Disconnected
    then have s: "(if \<not> tunnel_fresh (clock env 0) m then (m, []) else eval_armed env (m\<lparr> cm_state := Armed \<rparr>)) = (m', ns)"
      using assms Eval by (simp add: evaluate_def)
    show ?thesis
    proof (cases "tunnel_fresh (clock env 0) m")
      case True
      then show ?thesis using s Disconnected by (intro armed [of "m\<lparr> cm_state := Armed \<rparr>"]) simp_all
    next
      case False
      then show ?thesis using s Disconnected by (intro down [OF Eval]) simp_all
    qed
  next
    case Armed
    then show ?thesis using assms Eval by (intro armed [of m]) (simp_all add: evaluate_def)
  next
    case Connected
    then have s: "eval_connected env m = (m', ns)" using assms Eval by (simp add: evaluate_def)
    show ?thesis
    proof (cases "link_bad env (heartbeat env m)")
      case False
      then show ?thesis using s Connected by (intro good [OF Eval Connected]) (auto simp: eval_connected_def Let_def)
    next
      case True
      show ?thesis
      proof (cases "bad_since m")
        case None
        then show ?thesis
          using s Connected True by (intro first_bad [OF Eval Connected _ True None]) (auto simp: eval_connected_def Let_def)
      next
        case (Some b)
        show ?thesis
        proof (cases "disconnect_grace_s (cm_cfg m) \<le> clock env 3 - b")
          case g: True
          then have "enter_disconnected (pending_reason m) (clock env 3) (heartbeat env m) = (m', ns)"
            using s True Some by (simp add: eval_connected_def Let_def)
          note f = enter_disconnected_fields [OF this]
          show ?thesis by (rule lost [OF Eval Connected f(1) True Some g f(2,5,4)]) (use f(3) in simp)
        next
          case False
          then show ?thesis
            using s True Some Connected by (intro still_bad [OF Eval Connected _ True Some]) (auto simp: eval_connected_def Let_def)
        qed
      qed
    qed
  qed
qed

lemma cm_inv_step: "cm_inv m \<Longrightarrow> cm_inv (fst (cm_step m e))"
proof -
  assume i: "cm_inv m"
  obtain m' ns where s: "cm_step m e = (m', ns)" by fastforce
  have "cm_inv m'"
    using s
  proof (cases rule: cm_step_cases)
    case stats
    then show ?thesis using i bus_says_cong [of m' m] by (simp add: cm_inv_def)
  next
    case down
    then show ?thesis using i bus_says_cong [of m' m] by (simp add: cm_inv_def)
  next
    case up
    then show ?thesis by (simp add: cm_inv_def)
  next
    case good
    then show ?thesis using i bus_says_cong [of m' m] by (simp add: cm_inv_def)
  next
    case first_bad
    then show ?thesis using i bus_says_cong [of m' m] by (simp add: cm_inv_def)
  next
    case still_bad
    then show ?thesis using i bus_says_cong [of m' m] by (simp add: cm_inv_def)
  next
    case lost
    then show ?thesis by (simp add: cm_inv_def)
  qed
  then show ?thesis by (simp add: s)
qed

interpretation cm: machine "\<lambda>m e. fst (cm_step m e)" "\<lambda>_. True" cm_inv
  by unfold_locales (rule cm_inv_step)

lemma cm_run_fst: "fst (cm_run m es) = foldl (\<lambda>m e. fst (cm_step m e)) m es"
  by (induction es arbitrary: m) (simp_all add: Let_def case_prod_beta)

lemma cm_cfg_step: "cm_step m e = (m', ns) \<Longrightarrow> cm_cfg m' = cm_cfg m"
  by (erule cm_step_cases) simp_all

lemma cm_cfg_run: "cm_run m es = (m', ns) \<Longrightarrow> cm_cfg m' = cm_cfg m"
proof (induction es arbitrary: m ns)
  case (Cons e es)
  obtain m1 n1 where s: "cm_step m e = (m1, n1)" by fastforce
  obtain n2 where r: "cm_run m1 es = (m', n2)" using Cons.prems s by (auto split: prod.splits)
  show ?case using Cons.IH [OF r] cm_cfg_step [OF s] by simp
qed simp

lemma alternating_run: "cm_run m es = (m', ns) \<Longrightarrow> alternating (cm_state m = Connected) ns"
proof (induction es arbitrary: m ns)
  case (Cons e es)
  obtain m1 n1 where s: "cm_step m e = (m1, n1)" by fastforce
  obtain n2 where r: "cm_run m1 es = (m', n2)" and ns: "ns = n1 @ n2" using Cons.prems s by (auto split: prod.splits)
  have IH: "alternating (cm_state m1 = Connected) n2" by (rule Cons.IH [OF r])
  show ?case using s by (cases rule: cm_step_cases) (use IH ns in simp_all)
qed simp

text \<open>The recorded start of a bad run is the first of its evaluations.\<close>

lemma suspects_bad_since:
  assumes "cm_run m es = (m', ns)"
    and "cm_state m = Connected \<Longrightarrow> bad_since m = (case ts of [] \<Rightarrow> None | b # _ \<Rightarrow> Some b)"
    and "cm_state m \<noteq> Connected \<Longrightarrow> bad_since m = None"
    and "cm_state m' = Connected"
  shows "bad_since m' = (case suspects m ts es of [] \<Rightarrow> None | b # _ \<Rightarrow> Some b)"
  using assms
proof (induction es arbitrary: m ns ts)
  case (Cons e es)
  obtain m1 n1 where s: "cm_step m e = (m1, n1)" by fastforce
  obtain n2 where r: "cm_run m1 es = (m', n2)" using Cons.prems(1) s by (auto split: prod.splits)
  let ?ts = "case e of Stats _ _ \<Rightarrow> ts
      | Eval env \<Rightarrow> if cm_state m = Connected \<and> link_bad env (heartbeat env m) then ts @ [clock env 3] else []"
  have sus: "suspects m ts (e # es) = suspects m1 ?ts es" using s by simp
  have "(cm_state m1 = Connected \<longrightarrow> bad_since m1 = (case ?ts of [] \<Rightarrow> None | b # _ \<Rightarrow> Some b)) \<and>
      (cm_state m1 \<noteq> Connected \<longrightarrow> bad_since m1 = None)"
    using s by (cases rule: cm_step_cases) (use Cons.prems(2,3) in \<open>auto split: list.splits\<close>)
  then show ?case unfolding sus using Cons.IH [OF r _ _ Cons.prems(4)] by blast
qed simp

section \<open>Properties\<close>

text \<open>C14. The connection monitor's events are consistent: over any interleaving of statistics
  events and evaluations, connects and disconnects alternate beginning with a connect, and the
  state cached on the event bus says \<open>connected\<close> exactly while the monitor is connected.\<close>

theorem connection_events:
  assumes "cm_run (new_monitor c new_bus) es = (m, ns)"
  shows "alternating False ns \<and> (bus_says_connected m \<longleftrightarrow> cm_state m = Connected)"
proof -
  have "cm_inv (new_monitor c new_bus)"
    by (simp add: cm_inv_def new_monitor_def new_bus_def bus_says_connected_def bus_read_def)
  then have "cm_inv m" using cm.inv_run [of _ es] cm_run_fst assms by (metis fst_conv list_all_iff)
  then show ?thesis using alternating_run [OF assms] by (simp add: cm_inv_def new_monitor_def)
qed

theorem connection_events_witness:
  "let env = \<lparr> clock = (\<lambda>_. 1), rx_during = None, snap = Some (JObj []), healthy = True \<rparr>;
       ev = RxEvent \<lparr> e_timestamp = 0, e_id = ''gs_tunnel'', e_packets = [], e_ants = [], e_session = None, e_tx_wlan = JNull \<rparr>
   in bus_says_connected (fst (cm_run (new_monitor ConnectionMonitorConfig new_bus) [Stats 0 ev, Eval env])) \<and>
      alternating False (snd (cm_run (new_monitor ConnectionMonitorConfig new_bus) [Stats 0 ev, Eval env]))"
proof -
  let ?env = "\<lparr> clock = (\<lambda>_. 1), rx_during = None, snap = Some (JObj []), healthy = True \<rparr>"
  let ?ev = "RxEvent \<lparr> e_timestamp = 0, e_id = ''gs_tunnel'', e_packets = [], e_ants = [], e_session = None, e_tx_wlan = JNull \<rparr>"
  let ?m = "new_monitor ConnectionMonitorConfig new_bus"
  have "cm_state (fst (cm_run ?m [Stats 0 ?ev, Eval ?env])) = Connected"
    by (simp add: on_stats_event_def lower_def lower_char_def code_def new_monitor_def evaluate_def tunnel_fresh_def
        ConnectionMonitorConfig_def eval_armed_def await_def enter_connected_def publish_def Let_def case_prod_beta)
  then show ?thesis
    using connection_events [of ConnectionMonitorConfig "[Stats 0 ?ev, Eval ?env]" "fst (cm_run ?m [Stats 0 ?ev, Eval ?env])"
        "snd (cm_run ?m [Stats 0 ?ev, Eval ?env])"]
    by (simp only: prod.collapse simp_thms Let_def)
qed

text \<open>C15. A disconnect is confirmed before it is published: an evaluation publishes it exactly
  when the drone is connected, this evaluation finds the link bad, and every evaluation since
  the first suspect one found it bad too, the first of them at least the grace period ago. One
  good evaluation in between forgets the suspicion; a persistent failure is reported by the
  first evaluation after the grace period.\<close>

theorem disconnect_confirmed:
  assumes "cm_run (new_monitor c b) es = (m, ns)"
    and "ts = suspects (new_monitor c b) [] es"
  shows "(\<exists>t r. NDisconnected t r \<in> set (snd (evaluate env m))) \<longleftrightarrow>
    cm_state m = Connected \<and> link_bad env (heartbeat env m) \<and> ts \<noteq> [] \<and> disconnect_grace_s c \<le> clock env 3 - hd ts"
proof -
  obtain m' out where s: "cm_step m (Eval env) = (m', out)" by fastforce
  have c: "cm_cfg m = c" using cm_cfg_run [OF assms(1)] by (simp add: new_monitor_def)
  have b: "bad_since m = (if ts = [] then None else Some (hd ts))" if "cm_state m = Connected"
    using suspects_bad_since [OF assms(1) _ _ that, of "[]"] assms(2) by (simp add: new_monitor_def split: list.splits)
  have "(\<exists>t r. NDisconnected t r \<in> set out) \<longleftrightarrow>
      cm_state m = Connected \<and> link_bad env (heartbeat env m) \<and> ts \<noteq> [] \<and> disconnect_grace_s c \<le> clock env 3 - hd ts"
    using s by (cases rule: cm_step_cases) (use b c in \<open>auto split: if_splits\<close>)
  then show ?thesis using s by simp
qed

theorem disconnect_confirmed_witness:
  "let dead = (\<lambda>t. Eval \<lparr> clock = (\<lambda>_. t), rx_during = None, snap = None, healthy = False \<rparr>);
       alive = Eval \<lparr> clock = (\<lambda>_. 1), rx_during = None, snap = Some (JObj []), healthy = True \<rparr>;
       ev = RxEvent \<lparr> e_timestamp = 0, e_id = ''gs_tunnel'', e_packets = [], e_ants = [], e_session = None, e_tx_wlan = JNull \<rparr>;
       m = fst (cm_run (new_monitor ConnectionMonitorConfig new_bus) [Stats 0 ev, alive, dead 10])
   in \<exists>t r. NDisconnected t r \<in> set (snd (evaluate \<lparr> clock = (\<lambda>_. 17), rx_during = None, snap = None, healthy = False \<rparr> m))"
proof -
  let ?dead = "\<lambda>t. Eval \<lparr> clock = (\<lambda>_. t), rx_during = None, snap = None, healthy = False \<rparr>"
  let ?alive = "Eval \<lparr> clock = (\<lambda>_. 1), rx_during = None, snap = Some (JObj []), healthy = True \<rparr>"
  let ?ev = "RxEvent \<lparr> e_timestamp = 0, e_id = ''gs_tunnel'', e_packets = [], e_ants = [], e_session = None, e_tx_wlan = JNull \<rparr>"
  let ?m0 = "new_monitor ConnectionMonitorConfig new_bus"
  let ?es = "[Stats 0 ?ev, ?alive, ?dead 10]"
  let ?env = "\<lparr> clock = (\<lambda>_. 17), rx_during = None, snap = None, healthy = False \<rparr>"
  note d = on_stats_event_def lower_def lower_char_def code_def new_monitor_def evaluate_def tunnel_fresh_def
    ConnectionMonitorConfig_def eval_armed_def await_def enter_connected_def publish_def Let_def case_prod_beta
    eval_connected_def heartbeat_def link_bad_def
  have "cm_state (fst (cm_run ?m0 ?es)) = Connected" "link_bad ?env (heartbeat ?env (fst (cm_run ?m0 ?es)))"
    "suspects ?m0 [] ?es = [10]"
    by (simp_all add: d)
  then show ?thesis
    using disconnect_confirmed [of ConnectionMonitorConfig new_bus ?es "fst (cm_run ?m0 ?es)" "snd (cm_run ?m0 ?es)" "[10]" ?env]
    unfolding Let_def prod.collapse by (simp add: ConnectionMonitorConfig_def)
qed

end
