(* ===== verification/Config.thy ===== *)
theory Config
  imports Schema Policy Conn_Monitor
begin

text \<open>
  \<open>src/gs/fpvdgs/config_defaults.py\<close> and \<open>src/gs/fpvdgs/config.py\<close>: the code defaults, the deep
  merge of configuration trees, the tolerant loader and the store with its effective and pending
  configurations. A configuration is a \<open>dict\<close> in insertion order with distinct keys (\<open>json_wf\<close>).
  The file of the store is its last contents (\<open>None\<close> when absent); writing it may fail.

  The lemmas give the merge key by key, and show that a configuration that covers the defaults
  (every block of the defaults is still there) is reloaded unchanged.
\<close>

section \<open>Definitions\<close>

subsection \<open>Defaults\<close>

definition dynamic_link_defaults :: dict where
  "dynamic_link_defaults =
     (let sel = default_selector_cfg; agg = new_aggregator; lp = default_prior_cfg in
      [(''enabled'', JBool False),
       (''maxMcs'', JInt 5),
       (''dronePort'', JInt 9999),
       (''selector'', JObj
         [(''videoDemotePer'', JFloat (video_demote_per sel)),
          (''emergencyFecPressure'', JFloat (emergency_fec_pressure sel)),
          (''holdModesDownMs'', JInt (hold_modes_down_ms sel)),
          (''minBetweenChangesMs'', JInt (min_between_changes_ms sel)),
          (''starvationWindows'', JInt (starvation_windows sel)),
          (''flapBaseBackoffMs'', JInt (flap_base_backoff_ms sel)),
          (''flapBackoffMult'', JFloat (flap_backoff_mult sel)),
          (''flapBackoffCapMs'', JInt (flap_backoff_cap_ms sel)),
          (''flapResetCleanDwellTicks'', JInt (flap_reset_clean_dwell_ticks sel)),
          (''trialWindowMs'', JInt (trial_window_ms sel)),
          (''promoteDwellTicks'', JInt (promote_dwell_ticks sel)),
          (''promoteSlopeMin'', JFloat (promote_slope_min sel)),
          (''collapseDeltaDb'', JFloat (collapse_delta_db sel)),
          (''snapbackRecoverMarginDb'', JFloat (snapback_recover_margin_db sel)),
          (''confirmTtlMs'', JInt (confirm_ttl_ms sel)),
          (''flapSnrReleaseDb'', JFloat (flap_snr_release_db sel)),
          (''flapDecayMs'', JInt (flap_decay_ms sel))]),
       (''smoothing'', JObj
         [(''ewmaAlphaRssi'', JFloat (ewma_alpha_rssi agg)),
          (''ewmaAlphaFec'', JFloat (ewma_alpha_fec agg)),
          (''ewmaAlphaBurst'', JFloat (ewma_alpha_burst agg)),
          (''starvationThresholdPps'', JFloat (starvation_threshold_pps agg))]),
       (''learnedPrior'', JObj
         [(''settleTicks'', JInt (settle_ticks lp)),
          (''viableLoss'', JFloat (viable_loss lp)),
          (''alphaTighten'', JFloat (alpha_tighten lp)),
          (''alphaRelax'', JFloat (alpha_relax lp)),
          (''minSamples'', JFloat (min_samples lp)),
          (''recencyDecay'', JFloat (recency_decay lp))]),
       (''flightlog'', JObj [(''enabled'', JBool True)]),
       (''tap'', JObj [(''enabled'', JBool True), (''port'', JInt 8110), (''staleMs'', JInt 500), (''captureRaw'', JBool False)]),
       (''probe'', JObj [(''enabled'', JBool False)])])"

definition connection_monitor_defaults :: dict where
  "connection_monitor_defaults =
     (let cm = ConnectionMonitorConfig in
      [(''enabled'', JBool (cm_enabled cm)),
       (''tunnelStaleS'', JFloat (tunnel_stale_s cm)),
       (''httpPollS'', JFloat (http_poll_s cm)),
       (''httpTimeoutS'', JFloat (http_timeout_s cm)),
       (''httpFailCount'', JInt (http_fail_count cm)),
       (''evalIntervalS'', JFloat (eval_interval_s cm)),
       (''disconnectGraceS'', JFloat (disconnect_grace_s cm))])"

definition default_config :: dict where
  "default_config =
     [(''link'', JObj
        [(''channel'', JInt 132), (''width'', JInt 20), (''txPowerDbm'', JNull), (''region'', JStr ''US''),
         (''linkId'', JInt 7669206), (''beamforming'', JObj [(''enabled'', JBool False)]), (''cards'', JStr ''auto''),
         (''serverAddress'', JNull), (''videoEncryption'', JBool True)]),
      (''wfb'', JObj
        [(''profile'', JStr ''gs''),
         (''mavlink'', JObj [(''peer'', JStr ''connect://127.0.0.1:14550'')]),
         (''txSelector'', JObj [(''rssiDeltaDb'', JInt 3), (''counterRelDelta'', JFloat (1 / 10)), (''counterAbsDelta'', JInt 3)]),
         (''raw'', JObj [])]),
      (''drone'', JObj [(''host'', JStr ''10.5.0.10''), (''apiPort'', JInt 8080)]),
      (''dynamicLink'', JObj dynamic_link_defaults),
      (''idrForward'', JObj [(''enabled'', JBool True), (''port'', JInt 11223)]),
      (''connectionMonitor'', JObj connection_monitor_defaults),
      (''pixelpilot'', JObj
        [(''enabled'', JBool True), (''bin'', JStr ''/usr/bin/pixelpilot''), (''env'', JObj []),
         (''configPath'', JStr ''/etc/pixelpilot.yaml''), (''osdConfigPath'', JStr ''/etc/pixelpilot/osd.json''),
         (''screenMode'', JStr ''1920x1080@60''), (''codec'', JStr ''h265''), (''rtpPort'', JInt 5600),
         (''dvr'', JObj
           [(''dir'', JStr ''/media/dvr''), (''template'', JStr ''record_%Y-%m-%d_%H-%M-%S.mp4''),
            (''fmp4'', JBool True), (''sequencedFiles'', JBool True)]),
         (''extraArgs'', JList [])])]"

subsection \<open>Merging\<close>

text \<open>\<open>deep_merge\<close>: the loop over the items of the overlay; a block merges into a block.\<close>

function deep_merge :: "dict \<Rightarrow> dict \<Rightarrow> dict" where
  "deep_merge out [] = out"
| "deep_merge out ((key, val) # rest) =
     deep_merge (AList.update key
       (case val of
          JObj v \<Rightarrow> (case map_of out key of Some (JObj b) \<Rightarrow> JObj (deep_merge b v) | _ \<Rightarrow> JObj v)
        | _ \<Rightarrow> val) out) rest"
  by pat_completeness auto
termination
  by (relation "measure (\<lambda>(out, ov). size (JObj ov))") auto

subsection \<open>The tolerant loader\<close>

definition keep_keys :: "string list \<Rightarrow> dict \<Rightarrow> dict" where
  "keep_keys known d = filter (\<lambda>(k, v). k \<in> set known) d"

text \<open>Rewrite a value, and the block \<open>name\<close> of a dictionary, when it is an object.\<close>

definition on_obj :: "(dict \<Rightarrow> dict) \<Rightarrow> json \<Rightarrow> json" where
  "on_obj f v = (case v of JObj s \<Rightarrow> JObj (f s) | _ \<Rightarrow> v)"

definition in_block :: "string \<Rightarrow> (dict \<Rightarrow> dict) \<Rightarrow> dict \<Rightarrow> dict" where
  "in_block name f d = map (\<lambda>(k, v). (k, if k = name then on_obj f v else v)) d"

definition warn_unknown :: "dict \<Rightarrow> dict \<Rightarrow> dict" where
  "warn_unknown loaded defaults =
     (let p1 = keep_keys (map fst defaults) loaded;
          p2 = in_block ''drone'' (keep_keys DRONE_KEYS) (in_block ''dynamicLink'' (keep_keys DYNAMIC_LINK_KEYS) p1);
          p3 = in_block ''dynamicLink''
                 (in_block ''tap'' (keep_keys TAP_KEYS) \<circ> in_block ''learnedPrior'' (keep_keys LEARNED_PRIOR_KEYS)
                  \<circ> in_block ''smoothing'' (keep_keys SMOOTHING_KEYS) \<circ> in_block ''selector'' (keep_keys SELECTOR_KEYS)) p2
      in in_block ''wfb'' (in_block ''txSelector'' (keep_keys TX_SELECTOR_KEYS)) p3)"

subsection \<open>The store\<close>

record config_store =
  cs_defaults :: dict
  cs_config :: dict
  cs_pending :: dict
  cs_path :: bool \<comment> \<open>a path was given\<close>
  cs_file :: "dict option"

definition new_store :: "dict \<Rightarrow> dict \<Rightarrow> bool \<Rightarrow> dict option \<Rightarrow> config_store" where
  "new_store defaults loaded path file =
     (let c = deep_merge defaults loaded
      in \<lparr> cs_defaults = defaults, cs_config = c, cs_pending = c, cs_path = path, cs_file = file \<rparr>)"

text \<open>\<open>load\<close>: \<open>file\<close> is the object the file holds, if there is a file (a file that holds no JSON
  object raises before there is a store).\<close>

definition store_load :: "dict option \<Rightarrow> config_store" where
  "store_load file = new_store default_config
     (case file of None \<Rightarrow> [] | Some d \<Rightarrow> warn_unknown d default_config) True file"

definition store_patch :: "dict \<Rightarrow> config_store \<Rightarrow> config_store" where
  "store_patch sparse s = s\<lparr> cs_pending := deep_merge (cs_pending s) sparse \<rparr>"

text \<open>\<open>_persist\<close> writes a temporary file and renames it; \<open>ok\<close> says whether both succeed.\<close>

definition persist :: "bool \<Rightarrow> config_store \<Rightarrow> unit res \<times> config_store" where
  "persist ok s =
     (if \<not> cs_path s then (Inr (), s)
      else if ok then (Inr (), s\<lparr> cs_file := Some (cs_config s) \<rparr>)
      else (Inl OSError, s))"

definition store_commit :: "bool \<Rightarrow> config_store \<Rightarrow> unit res \<times> config_store" where
  "store_commit ok s = persist ok (s\<lparr> cs_config := cs_pending s \<rparr>)"

definition store_reset :: "bool \<Rightarrow> config_store \<Rightarrow> unit res \<times> config_store" where
  "store_reset ok s = persist ok (s\<lparr> cs_config := cs_defaults s, cs_pending := cs_defaults s \<rparr>)"

subsection \<open>Covering\<close>

text \<open>\<open>c\<close> covers \<open>d\<close>: it has the keys of \<open>d\<close>, first and in the same order, and every block of \<open>d\<close>
  is a block of \<open>c\<close> that covers it. A patch keeps the shape of \<open>d\<close> when it replaces no block by a
  value that is not a block.\<close>

function covers :: "dict \<Rightarrow> dict \<Rightarrow> bool" where
  "covers d c = (take (length d) (map fst c) = map fst d \<and>
     (\<forall>(k, v) \<in> set d. case v of
         JObj b \<Rightarrow> (case map_of c k of Some (JObj w) \<Rightarrow> covers b w | _ \<Rightarrow> False)
       | _ \<Rightarrow> True))"
  by pat_completeness auto
termination
  by (relation "measure (\<lambda>(d, c). size (JObj d))") (auto simp: json_size_dict simp del: json.size)

function keeps_blocks :: "dict \<Rightarrow> dict \<Rightarrow> bool" where
  "keeps_blocks d p = (\<forall>(k, v) \<in> set d. case v of
     JObj b \<Rightarrow> (case map_of p k of None \<Rightarrow> True | Some (JObj w) \<Rightarrow> keeps_blocks b w | _ \<Rightarrow> False)
   | _ \<Rightarrow> True)"
  by pat_completeness auto
termination
  by (relation "measure (\<lambda>(d, p). size (JObj d))") (auto simp: json_size_dict simp del: json.size)

declare covers.simps [simp del] keeps_blocks.simps [simp del]

text \<open>What the merge makes of one key.\<close>

definition merge_val :: "json option \<Rightarrow> json \<Rightarrow> json" where
  "merge_val old v = (case v of
     JObj w \<Rightarrow> (case old of Some (JObj b) \<Rightarrow> JObj (deep_merge b w) | _ \<Rightarrow> v) | _ \<Rightarrow> v)"

text \<open>An object has known keys only; the block \<open>name\<close> of an object.\<close>

definition only_keys :: "string list \<Rightarrow> json \<Rightarrow> bool" where
  "only_keys known v = (case v of JObj d \<Rightarrow> fst ` set d \<subseteq> set known | _ \<Rightarrow> True)"

definition block :: "string \<Rightarrow> json \<Rightarrow> json" where
  "block name v = (case v of JObj d \<Rightarrow> dget d name JNull | _ \<Rightarrow> JNull)"

text \<open>The keys that the validator of the whole configuration rejects when unknown, or that a patch
  may not introduce, and that the loader drops.\<close>

definition STRICT_BLOCKS :: "(string \<times> string list) list" where
  "STRICT_BLOCKS = [(''selector'', SELECTOR_KEYS), (''smoothing'', SMOOTHING_KEYS), (''learnedPrior'', LEARNED_PRIOR_KEYS), (''tap'', TAP_KEYS)]"

text \<open>A configuration that the loader leaves alone: its strict blocks have known keys only.\<close>

definition known_keys :: "dict \<Rightarrow> bool" where
  "known_keys c = (fst ` set c \<subseteq> fst ` set default_config
    \<and> only_keys DYNAMIC_LINK_KEYS (block ''dynamicLink'' (JObj c)) \<and> only_keys DRONE_KEYS (block ''drone'' (JObj c))
    \<and> only_keys TX_SELECTOR_KEYS (block ''txSelector'' (block ''wfb'' (JObj c)))
    \<and> (\<forall>(name, K) \<in> set STRICT_BLOCKS. only_keys K (block name (block ''dynamicLink'' (JObj c)))))"

text \<open>The keys that only the validator of a patch checks: the top level and \<open>drone\<close>.\<close>

definition patch_keys :: "dict \<Rightarrow> bool" where
  "patch_keys c = (fst ` set c \<subseteq> fst ` set default_config \<and> only_keys DRONE_KEYS (dget c ''drone'' JNull))"

section \<open>Lemmas\<close>

subsection \<open>The merge, key by key\<close>

lemma alist_eqI:
  assumes "map fst xs = map fst ys" "distinct (map fst xs)" "\<And>k. map_of xs k = map_of ys k"
  shows "xs = ys"
proof (rule nth_equalityI)
  show l: "length xs = length ys" using assms(1) by (metis length_map)
  fix i assume i: "i < length xs"
  have f: "fst (xs ! i) = fst (ys ! i)" using assms(1) i l by (metis nth_map)
  have "map_of xs (fst (xs ! i)) = Some (snd (xs ! i))" "map_of ys (fst (ys ! i)) = Some (snd (ys ! i))"
    using assms(1,2) i l by (auto intro: map_of_is_SomeI simp: nth_mem)
  then have "snd (xs ! i) = snd (ys ! i)" using assms(3) f by simp
  then show "xs ! i = ys ! i" using f by (simp add: prod_eq_iff)
qed

lemma deep_merge_Cons: "deep_merge out ((k, v) # rest) = deep_merge (AList.update k (merge_val (map_of out k) v) out) rest"
  by (cases v) (simp_all add: merge_val_def)

declare deep_merge.simps(2) [simp del]

lemma deep_merge_rec_induct [case_names Nil Cons]:
  assumes "\<And>out. P out []" "\<And>out k v rest. P (AList.update k (merge_val (map_of out k) v) out) rest \<Longrightarrow> P out ((k, v) # rest)"
  shows "P out ov"
  using assms(1)
proof (induction ov arbitrary: out)
  case (Cons a ov)
  then show ?case using assms(2) by (cases a) auto
qed

lemma deep_merge_keys:
  "distinct (map fst ov) \<Longrightarrow> map fst (deep_merge out ov) = map fst out @ filter (\<lambda>k. k \<notin> fst ` set out) (map fst ov)"
proof (induction out ov rule: deep_merge_rec_induct)
  case (Cons out k v rest)
  have "filter (\<lambda>j. j \<notin> insert k (fst ` set out)) (map fst rest) = filter (\<lambda>j. j \<notin> fst ` set out) (map fst rest)"
    using Cons.prems by (intro filter_cong) auto
  then show ?case
    using Cons by (auto simp: deep_merge_Cons update_keys dom_update [unfolded image_Un] insert_absorb)
qed simp

lemma deep_merge_lookup:
  "distinct (map fst ov) \<Longrightarrow>
     map_of (deep_merge out ov) k = (case map_of ov k of None \<Rightarrow> map_of out k | Some v \<Rightarrow> Some (merge_val (map_of out k) v))"
proof (induction out ov rule: deep_merge_rec_induct)
  case (Cons out j v rest)
  then have "j \<notin> fst ` set rest" by simp
  then have "map_of rest j = None" by (simp add: map_of_eq_None_iff)
  then show ?case using Cons by (simp add: deep_merge_Cons update_conv' split: option.split)
qed simp

lemma json_wf_merge: "json_wf (JObj out) \<Longrightarrow> json_wf (JObj ov) \<Longrightarrow> json_wf (JObj (deep_merge out ov))"
proof (induction "size (JObj ov)" arbitrary: out ov rule: less_induct)
  case less
  let ?m = "deep_merge out ov"
  have d: "distinct (map fst ov)" "distinct (map fst out)" using less.prems by simp_all
  then have dm: "distinct (map fst ?m)" by (auto simp: deep_merge_keys)
  have "json_wf v" if v: "(k, v) \<in> set ?m" for k v
  proof -
    have m: "map_of ?m k = Some v" using dm v by simp
    show ?thesis
    proof (cases "map_of ov k")
      case None
      then have "map_of out k = Some v" using m d(1) by (simp add: deep_merge_lookup)
      then show ?thesis using less.prems(1) json_wf_dict by blast
    next
      case (Some w)
      have w: "json_wf w" "size w < size (JObj ov)"
        using json_wf_dict [OF less.prems(2) Some] json_size_dict [OF map_of_SomeD [OF Some]] .
      have v: "v = merge_val (map_of out k) w" using m Some d(1) by (simp add: deep_merge_lookup)
      show ?thesis
      proof (cases "\<exists>b x. map_of out k = Some (JObj b) \<and> w = JObj x")
        case True
        then obtain b x where b: "map_of out k = Some (JObj b)" "w = JObj x" by blast
        have "json_wf (JObj b)" using b(1) less.prems(1) json_wf_dict by blast
        then have "json_wf (JObj (deep_merge b x))" using less.hyps [of x b] w b(2) by blast
        then show ?thesis using v b by (simp add: merge_val_def)
      next
        case False
        then have "v = w" unfolding v merge_val_def by (cases w; cases "map_of out k"; cases "the (map_of out k)") auto
        then show ?thesis using w(1) by simp
      qed
    qed
  qed
  then show ?case using dm by (auto simp: list_all_iff)
qed

subsection \<open>Covering\<close>

lemma covers_refl: "json_wf (JObj d) \<Longrightarrow> covers d d"
proof (induction "size (JObj d)" arbitrary: d rule: less_induct)
  case less
  have "covers b b" if "(k, JObj b) \<in> set d" for k b
    using less.hyps [OF json_size_dict [OF that]] less.prems that by (auto simp: list_all_iff)
  moreover have "map_of d k = Some v" if "(k, v) \<in> set d" for k v using less.prems that by simp
  ultimately show ?case by (auto simp: covers.simps [of d d] split: json.split)
qed

lemma coversD:
  assumes "covers d c"
  obtains rest where "map fst c = map fst d @ rest"
proof
  show "map fst c = map fst d @ drop (length d) (map fst c)"
    using assms append_take_drop_id [of "length d" "map fst c"] by (simp add: covers.simps [of d c])
qed

lemma covers_block:
  assumes "covers d c" "(k, JObj b) \<in> set d"
  obtains w where "map_of c k = Some (JObj w)" "covers b w"
proof -
  have "case map_of c k of Some (JObj w) \<Rightarrow> covers b w | _ \<Rightarrow> False" using assms by (auto simp: covers.simps [of d c])
  then show ?thesis using that by (auto split: option.splits json.splits)
qed

text \<open>A configuration that covers the defaults is merged onto them unchanged.\<close>

lemma merge_covered: "covers d c \<Longrightarrow> json_wf (JObj c) \<Longrightarrow> json_wf (JObj d) \<Longrightarrow> deep_merge d c = c"
proof (induction "size (JObj d)" arbitrary: d c rule: less_induct)
  case less
  have dc: "distinct (map fst c)" using less.prems by simp
  obtain rest where r: "map fst c = map fst d @ rest" using coversD [OF less.prems(1)] .
  have "filter (\<lambda>k. k \<notin> fst ` set d) (map fst c) = rest"
  proof -
    have "filter (\<lambda>k. k \<notin> fst ` set d) (map fst d) = []" by (auto simp: filter_empty_conv)
    moreover have "filter (\<lambda>k. k \<notin> fst ` set d) rest = rest" using dc r by (auto simp: filter_id_conv)
    ultimately show ?thesis unfolding r by simp
  qed
  then have keys: "map fst (deep_merge d c) = map fst c" using dc r by (simp add: deep_merge_keys)
  show ?case
  proof (rule alist_eqI [OF keys])
    show "distinct (map fst (deep_merge d c))" using keys dc by simp
    fix k
    show "map_of (deep_merge d c) k = map_of c k"
    proof (cases "map_of c k")
      case None
      then have "k \<notin> set (map fst d)" using r by (simp add: map_of_eq_None_iff) (metis Un_iff set_append image_set r)
      then have "map_of d k = None" by (simp add: map_of_eq_None_iff)
      then show ?thesis using None dc by (simp add: deep_merge_lookup)
    next
      case (Some v)
      have "merge_val (map_of d k) v = v"
      proof -
        have "deep_merge b w = w" if "map_of d k = Some (JObj b)" "v = JObj w" for b w
        proof -
          have m: "(k, JObj b) \<in> set d" using that map_of_SomeD by fast
          have "covers b w" using covers_block [OF less.prems(1) m] Some that by auto
          then show ?thesis
            using less.hyps [OF json_size_dict [OF m]] less.prems(2,3) Some that json_wf_dict by blast
        qed
        then show ?thesis by (auto simp: merge_val_def split: json.splits option.splits)
      qed
      then show ?thesis using Some dc by (simp add: deep_merge_lookup)
    qed
  qed
qed

lemma covers_merge:
  "covers d c \<Longrightarrow> keeps_blocks d p \<Longrightarrow> json_wf (JObj c) \<Longrightarrow> json_wf (JObj p) \<Longrightarrow> covers d (deep_merge c p)"
proof (induction "size (JObj d)" arbitrary: d c p rule: less_induct)
  case less
  have dp: "distinct (map fst p)" using less.prems by simp
  obtain rest where r: "map fst c = map fst d @ rest" using coversD [OF less.prems(1)] .
  have "take (length d) (map fst (deep_merge c p)) = map fst d"
    using dp r by (simp add: deep_merge_keys)
  moreover have "case map_of (deep_merge c p) k of Some (JObj w) \<Rightarrow> covers b w | _ \<Rightarrow> False" if m: "(k, JObj b) \<in> set d" for k b
  proof -
    obtain w where w: "map_of c k = Some (JObj w)" "covers b w" using covers_block [OF less.prems(1) m] .
    show ?thesis
    proof (cases "map_of p k")
      case None
      then show ?thesis using w dp by (simp add: deep_merge_lookup)
    next
      case (Some v)
      have "case map_of p k of None \<Rightarrow> True | Some (JObj w) \<Rightarrow> keeps_blocks b w | _ \<Rightarrow> False"
        using less.prems(2) m by (auto simp: keeps_blocks.simps [of d p])
      then obtain x where x: "v = JObj x" "keeps_blocks b x" using Some by (auto split: json.splits)
      have "covers b (deep_merge w x)"
        using less.hyps [OF json_size_dict [OF m] w(2) x(2)] less.prems(3,4) w(1) Some x(1) json_wf_dict by blast
      then show ?thesis using w Some x dp by (simp add: deep_merge_lookup merge_val_def)
    qed
  qed
  ultimately show ?case by (auto simp: covers.simps [of d "deep_merge c p"] split: json.split)
qed

lemma json_wf_default: "json_wf (JObj default_config)"
  by (simp add: default_config_def dynamic_link_defaults_def connection_monitor_defaults_def Let_def)

subsection \<open>The loader\<close>

lemma keep_keys_lookup [simp]: "map_of (keep_keys known d) k = (if k \<in> set known then map_of d k else None)"
  by (induction d) (auto simp: keep_keys_def)

lemma in_block_lookup:
  "map_of (in_block name f d) k =
     map_option (\<lambda>v. if k = name then on_obj f v else v) (map_of d k)"
  by (induction d) (auto simp: in_block_def)

lemma in_block_keys [simp]: "map fst (in_block name f d) = map fst d"
  by (simp add: in_block_def split_beta comp_def)

lemma keep_keys_wf: "json_wf (JObj d) \<Longrightarrow> json_wf (JObj (keep_keys known d))"
  by (auto simp: keep_keys_def list_all_iff distinct_map_filter)

lemma in_block_wf:
  assumes "json_wf (JObj d)" "\<And>s. json_wf (JObj s) \<Longrightarrow> json_wf (JObj (f s))"
  shows "json_wf (JObj (in_block name f d))"
proof -
  have "json_wf (on_obj f v)" if "json_wf v" for v
    using assms(2) that by (cases v) (auto simp: on_obj_def)
  then show ?thesis using assms(1) by (auto simp: list_all_iff in_block_def split_beta comp_def)
qed

lemma warn_unknown_wf: "json_wf (JObj d) \<Longrightarrow> json_wf (JObj (warn_unknown d defaults))"
  unfolding warn_unknown_def Let_def comp_def
  by (intro in_block_wf) (auto intro!: keep_keys_wf in_block_wf simp del: json_wf.simps)

lemma patches_cover:
  assumes "covers d (cs_pending s)" "json_wf (JObj (cs_pending s))" "\<forall>p \<in> set ps. json_wf (JObj p) \<and> keeps_blocks d p"
  shows "covers d (cs_pending (foldl (\<lambda>s p. store_patch p s) s ps)) \<and> json_wf (JObj (cs_pending (foldl (\<lambda>s p. store_patch p s) s ps)))"
  using assms
proof (induction ps arbitrary: s)
  case (Cons p ps)
  let ?s = "store_patch p s"
  have "covers d (cs_pending ?s)" "json_wf (JObj (cs_pending ?s))"
    using Cons.prems covers_merge [of d "cs_pending s" p] json_wf_merge [of "cs_pending s" p] by (auto simp: store_patch_def)
  then show ?case using Cons.IH [of ?s] Cons.prems(3) by simp
qed simp

lemma patches_keep [simp]: "cs_path (foldl (\<lambda>s p. store_patch p s) s ps) = cs_path s"
  by (induction ps arbitrary: s) (simp_all add: store_patch_def)

lemma only_keys_simps [simp]:
  "only_keys K JNull" "only_keys K (JObj d) = (fst ` set d \<subseteq> set K)"
  by (simp_all add: only_keys_def)

lemma only_keys_merge:
  assumes "json_wf v" "only_keys K v" "only_keys K (JObj b)"
  shows "only_keys K (merge_val (Some (JObj b)) v)"
proof (cases v)
  case (JObj w)
  then have "fst ` set (deep_merge b w) = set (map fst b @ filter (\<lambda>k. k \<notin> fst ` set b) (map fst w))"
    using assms(1) deep_merge_keys [of w b] by (metis json_wf.simps(1) list.set_map)
  then show ?thesis using assms JObj by (auto simp: merge_val_def)
qed (simp_all add: merge_val_def only_keys_def)

lemma block_merge:
  assumes "json_wf v" "map_of b name = Some (JObj x)"
  shows "block name (merge_val (Some (JObj b)) v) =
    (case v of JObj w \<Rightarrow> (case map_of w name of None \<Rightarrow> JObj x | Some y \<Rightarrow> merge_val (Some (JObj x)) y) | _ \<Rightarrow> JNull)"
  using assms by (cases v) (auto simp: merge_val_def block_def dget_def deep_merge_lookup split: option.split)

lemma only_keys_block_merge:
  assumes "json_wf v" "map_of b name = Some (JObj x)" "only_keys K (JObj x)" "only_keys K (block name v)"
  shows "only_keys K (block name (merge_val (Some (JObj b)) v))"
proof (cases v)
  case (JObj w)
  show ?thesis
  proof (cases "map_of w name")
    case (Some y)
    then have "json_wf y" using assms(1) JObj json_wf_dict by blast
    moreover have "only_keys K y" using assms(4) JObj Some by (simp add: block_def dget_def)
    ultimately show ?thesis
      unfolding block_merge [OF assms(1,2)] using JObj Some only_keys_merge [OF _ _ assms(3)] by simp
  qed (use assms JObj in \<open>simp add: block_merge\<close>)
qed (simp_all add: block_def merge_val_def)

lemma only_keys_keep [simp]: "only_keys K (JObj (keep_keys K d))"
  by (auto simp: keep_keys_def)

text \<open>What the loader leaves of each block.\<close>

lemma block_in_block: "block name (JObj (in_block b f d)) =
    (if name = b then on_obj f (block name (JObj d)) else block name (JObj d))"
  by (auto simp: block_def on_obj_def dget_def in_block_lookup split: option.split)

lemma block_keep: "block name (JObj (keep_keys K d)) = (if name \<in> set K then block name (JObj d) else JNull)"
  by (simp add: block_def dget_def)

lemma effective_block:
  assumes "json_wf (JObj l)" "map_of default_config name = Some (JObj b)"
  shows "block name (JObj (deep_merge default_config l)) =
    (case map_of l name of None \<Rightarrow> JObj b | Some v \<Rightarrow> merge_val (Some (JObj b)) v)"
  using assms by (simp add: block_def dget_def deep_merge_lookup split: option.split)

lemma default_blocks:
  "map_of default_config ''dynamicLink'' = Some (JObj dynamic_link_defaults)"
  "\<exists>b. map_of default_config ''drone'' = Some (JObj b) \<and> only_keys DRONE_KEYS (JObj b)"
  "\<exists>b x. map_of default_config ''wfb'' = Some (JObj b) \<and> map_of b ''txSelector'' = Some (JObj x) \<and> only_keys TX_SELECTOR_KEYS (JObj x)"
  by (simp_all add: default_config_def DRONE_KEYS_def TX_SELECTOR_KEYS_def)

lemma default_dl_blocks:
  "only_keys DYNAMIC_LINK_KEYS (JObj dynamic_link_defaults)"
  "list_all (\<lambda>(name, K). case map_of dynamic_link_defaults name of Some (JObj x) \<Rightarrow> only_keys K (JObj x) | _ \<Rightarrow> False) STRICT_BLOCKS"
  by code_simp+

lemma default_dl_block:
  assumes "(name, K) \<in> set STRICT_BLOCKS"
  obtains x where "map_of dynamic_link_defaults name = Some (JObj x)" "only_keys K (JObj x)"
proof -
  have "case map_of dynamic_link_defaults name of Some (JObj x) \<Rightarrow> only_keys K (JObj x) | _ \<Rightarrow> False"
    using default_dl_blocks(2) assms by (auto simp: list_all_iff)
  then show ?thesis using that by (auto split: option.splits json.splits)
qed

text \<open>The loader's rewriting of one block, \<open>on_obj\<close>.\<close>

lemma on_obj_comp: "on_obj g (on_obj f v) = on_obj (g \<circ> f) v"
  by (cases v) (simp_all add: on_obj_def)

lemma only_on_obj: "(\<And>s. only_keys K (JObj (f s))) \<Longrightarrow> only_keys K (on_obj f v)"
  by (cases v) (auto simp: on_obj_def only_keys_def)

lemma block_on_obj: "(\<And>s. only_keys K (block name (JObj (f s)))) \<Longrightarrow> only_keys K (block name (on_obj f v))"
  by (cases v) (auto simp: on_obj_def block_def only_keys_def)

lemma set_in_block [simp]: "fst ` set (in_block name f d) = fst ` set d"
  using in_block_keys [of name f d] by (metis list.set_map)

lemma set_keep_keys: "fst ` set (keep_keys K d) = fst ` set d \<inter> set K"
  by (auto simp: keep_keys_def image_iff)

lemma only_on_keep [simp]: "only_keys K (on_obj (keep_keys K) v)"
  by (rule only_on_obj) (simp add: set_keep_keys)

lemma loaded_blocks:
  fixes f :: dict
  defines "l \<equiv> warn_unknown f default_config"
  shows "fst ` set l \<subseteq> fst ` set default_config"
    "only_keys DYNAMIC_LINK_KEYS (block ''dynamicLink'' (JObj l))"
    "only_keys DRONE_KEYS (block ''drone'' (JObj l))"
    "only_keys TX_SELECTOR_KEYS (block ''txSelector'' (block ''wfb'' (JObj l)))"
    "(name, K) \<in> set STRICT_BLOCKS \<Longrightarrow> only_keys K (block name (block ''dynamicLink'' (JObj l)))"
proof -
  show "fst ` set l \<subseteq> fst ` set default_config"
    unfolding l_def warn_unknown_def Let_def set_in_block set_keep_keys by simp
  show "only_keys DRONE_KEYS (block ''drone'' (JObj l))"
    unfolding l_def warn_unknown_def Let_def by (simp add: block_in_block)
  show "only_keys TX_SELECTOR_KEYS (block ''txSelector'' (block ''wfb'' (JObj l)))"
    unfolding l_def warn_unknown_def Let_def block_in_block [of "''wfb''" "''wfb''"] if_P [OF refl]
    by (rule block_on_obj) (simp add: block_in_block)
  define p where "p = block ''dynamicLink'' (JObj (keep_keys (map fst default_config) f))"
  define g where "g = in_block ''tap'' (keep_keys TAP_KEYS) \<circ> in_block ''learnedPrior'' (keep_keys LEARNED_PRIOR_KEYS)
      \<circ> in_block ''smoothing'' (keep_keys SMOOTHING_KEYS) \<circ> in_block ''selector'' (keep_keys SELECTOR_KEYS)"
  have dl: "block ''dynamicLink'' (JObj l) = on_obj (g \<circ> keep_keys DYNAMIC_LINK_KEYS) p"
    unfolding l_def warn_unknown_def Let_def by (simp add: block_in_block on_obj_comp p_def g_def)
  show "only_keys DYNAMIC_LINK_KEYS (block ''dynamicLink'' (JObj l))"
    unfolding dl by (rule only_on_obj) (simp add: g_def set_keep_keys)
  show "only_keys K (block name (block ''dynamicLink'' (JObj l)))" if "(name, K) \<in> set STRICT_BLOCKS"
    unfolding dl
  proof (rule block_on_obj)
    fix s
    have "only_keys SELECTOR_KEYS (block ''selector'' (JObj (g s)))" "only_keys SMOOTHING_KEYS (block ''smoothing'' (JObj (g s)))"
      "only_keys LEARNED_PRIOR_KEYS (block ''learnedPrior'' (JObj (g s)))" "only_keys TAP_KEYS (block ''tap'' (JObj (g s)))" for s
      by (simp_all add: g_def block_in_block)
    then show "only_keys K (block name (JObj ((g \<circ> keep_keys DYNAMIC_LINK_KEYS) s)))"
      using that unfolding STRICT_BLOCKS_def by (elim set_ConsD [elim_format] disjE) simp_all
  qed
qed

section \<open>Properties\<close>

text \<open>A stale configuration file cannot bring unknown keys into the configuration: whatever
  object the file holds, the loaded configuration has exactly the top-level keys of the defaults,
  and its \<open>dynamicLink\<close> and \<open>drone\<close> blocks, the \<open>selector\<close>, \<open>smoothing\<close>, \<open>learnedPrior\<close> and
  \<open>tap\<close> blocks of \<open>dynamicLink\<close>, and \<open>wfb.txSelector\<close> have only keys that the schema knows.\<close>

theorem stale_keys_dropped:
  assumes "json_wf (JObj f)" "c = cs_config (store_load (Some f))"
  shows "map fst c = map fst default_config
    \<and> only_keys DYNAMIC_LINK_KEYS (block ''dynamicLink'' (JObj c)) \<and> only_keys DRONE_KEYS (block ''drone'' (JObj c))
    \<and> only_keys TX_SELECTOR_KEYS (block ''txSelector'' (block ''wfb'' (JObj c)))
    \<and> (\<forall>(name, K) \<in> set STRICT_BLOCKS. only_keys K (block name (block ''dynamicLink'' (JObj c))))"
proof -
  define l where "l = warn_unknown f default_config"
  note lb = loaded_blocks [where f = f, folded l_def]
  have wf: "json_wf (JObj l)" unfolding l_def by (rule warn_unknown_wf [OF assms(1)])
  have c: "c = deep_merge default_config l" by (simp add: assms(2) store_load_def new_store_def l_def Let_def)
  have "filter (\<lambda>k. k \<notin> fst ` set default_config) (map fst l) = []" using lb(1) by (auto simp: filter_empty_conv)
  then have keys: "map fst c = map fst default_config" using wf unfolding c by (simp add: deep_merge_keys)
  have vw: "json_wf v" if "map_of l name = Some v" for name v using json_wf_dict [OF wf that] .
  have lv: "block name (JObj l) = v" if "map_of l name = Some v" for name v using that by (simp add: block_def dget_def)
  have top: "only_keys K (block name (JObj c))"
    if "map_of default_config name = Some (JObj b)" "only_keys K (JObj b)" "only_keys K (block name (JObj l))" for name b K
    unfolding c effective_block [OF wf that(1)]
    using that(2,3) only_keys_merge [OF vw] lv by (auto split: option.split)
  have sub: "only_keys K (block n (block name (JObj c)))"
    if "map_of default_config name = Some (JObj b)" "map_of b n = Some (JObj x)" "only_keys K (JObj x)"
      "only_keys K (block n (block name (JObj l)))" for name n b x K
  proof (cases "map_of l name")
    case None
    then show ?thesis unfolding c effective_block [OF wf that(1)] using that(2,3) by (simp add: block_def dget_def)
  next
    case (Some v)
    then show ?thesis unfolding c effective_block [OF wf that(1)]
      using only_keys_block_merge [OF vw [OF Some] that(2,3)] that(4) lv [OF Some] by simp
  qed
  obtain b where b: "map_of default_config ''drone'' = Some (JObj b)" "only_keys DRONE_KEYS (JObj b)" using default_blocks(2) by blast
  obtain w x where w: "map_of default_config ''wfb'' = Some (JObj w)" "map_of w ''txSelector'' = Some (JObj x)"
    "only_keys TX_SELECTOR_KEYS (JObj x)" using default_blocks(3) by blast
  have "only_keys K (block name (block ''dynamicLink'' (JObj c)))" if m: "(name, K) \<in> set STRICT_BLOCKS" for name K
  proof -
    obtain y where y: "map_of dynamic_link_defaults name = Some (JObj y)" "only_keys K (JObj y)" using default_dl_block [OF m] .
    show ?thesis by (rule sub [OF default_blocks(1) y lb(5) [OF m]])
  qed
  then show ?thesis
    using keys top [OF default_blocks(1) default_dl_blocks(1) lb(2)] top [OF b lb(3)] sub [OF w lb(4)] by blast
qed

theorem stale_keys_dropped_witness:
  "only_keys DYNAMIC_LINK_KEYS (block ''dynamicLink'' (JObj (cs_config (store_load
     (Some [(''old'', JNull), (''dynamicLink'', JObj [(''emergencyLossRate'', JInt 1), (''selector'', JObj [(''x'', JNull)])])])))))"
  using stale_keys_dropped [OF _ refl, of "[(''old'', JNull), (''dynamicLink'', JObj [(''emergencyLossRate'', JInt 1), (''selector'', JObj [(''x'', JNull)])])]"]
  by simp

subsection \<open>What the validators leave for the loader\<close>

lemma in_order_Cons: "in_order (c # cs) = Inr () \<longleftrightarrow> c = Inr () \<and> in_order cs = Inr ()"
  by (cases c) simp_all

lemma in_order_append: "in_order (cs @ ds) = Inr () \<longleftrightarrow> in_order cs = Inr () \<and> in_order ds = Inr ()"
  by (auto simp: in_order_ok)

lemma in_order_map: "in_order (map f xs) = Inr () \<longleftrightarrow> (\<forall>x \<in> set xs. f x = Inr ())"
  by (auto simp: in_order_ok)

lemmas in_order_simps = in_order_Cons in_order_append in_order_map

declare in_order.simps(2) [simp del]

lemma keep_keys_id: "fst ` set d \<subseteq> set K \<Longrightarrow> keep_keys K d = d"
  by (auto simp: keep_keys_def filter_id_conv)

lemma in_block_id:
  assumes "distinct (map fst d)" "\<And>b. block name (JObj d) = JObj b \<Longrightarrow> f b = b"
  shows "in_block name f d = d"
proof -
  have "(if k = name then on_obj f v else v) = v" if "(k, v) \<in> set d" for k v
  proof (cases "k = name")
    case True
    then have "block name (JObj d) = v" using that assms(1) by (auto simp: block_def dget_def)
    then show ?thesis using True assms(2) by (cases v) (auto simp: on_obj_def)
  qed simp
  then show ?thesis unfolding in_block_def by (auto intro!: map_idI)
qed

lemma block_wf:
  assumes "json_wf v" "block name v = JObj b"
  shows "json_wf (JObj b)"
proof -
  obtain d where "v = JObj d" "map_of d name = Some (JObj b)"
    using assms(2) by (auto simp: block_def dget_def split: json.splits option.splits)
  then show ?thesis using json_wf_dict assms(1) by blast
qed

lemma nested_id:
  assumes "distinct (map fst b)" "\<forall>(name, K) \<in> set STRICT_BLOCKS. only_keys K (block name (JObj b))"
  shows "(in_block ''tap'' (keep_keys TAP_KEYS) \<circ> in_block ''learnedPrior'' (keep_keys LEARNED_PRIOR_KEYS)
    \<circ> in_block ''smoothing'' (keep_keys SMOOTHING_KEYS) \<circ> in_block ''selector'' (keep_keys SELECTOR_KEYS)) b = b"
proof -
  have "in_block name (keep_keys K) b = b" if "(name, K) \<in> set STRICT_BLOCKS" for name K
  proof (rule in_block_id [OF assms(1)])
    fix x assume "block name (JObj b) = JObj x"
    moreover have "only_keys K (block name (JObj b))" using assms(2) that by blast
    ultimately show "keep_keys K x = x" by (simp add: keep_keys_id)
  qed
  then show ?thesis by (simp add: STRICT_BLOCKS_def)
qed

lemma warn_unknown_id:
  assumes "json_wf (JObj c)" "known_keys c"
  shows "warn_unknown c default_config = c"
proof -
  have d: "distinct (map fst c)" using assms(1) by simp
  have 1: "keep_keys (map fst default_config) c = c"
    using assms(2) by (intro keep_keys_id) (simp add: known_keys_def)
  have 2: "in_block ''dynamicLink'' (keep_keys DYNAMIC_LINK_KEYS) c = c" "in_block ''drone'' (keep_keys DRONE_KEYS) c = c"
    by (rule in_block_id [OF d], use assms(2) in \<open>simp add: known_keys_def keep_keys_id\<close>)+
  have 3: "in_block ''dynamicLink'' (in_block ''tap'' (keep_keys TAP_KEYS) \<circ> in_block ''learnedPrior'' (keep_keys LEARNED_PRIOR_KEYS)
    \<circ> in_block ''smoothing'' (keep_keys SMOOTHING_KEYS) \<circ> in_block ''selector'' (keep_keys SELECTOR_KEYS)) c = c"
  proof (rule in_block_id [OF d], rule nested_id)
    fix b assume b: "block ''dynamicLink'' (JObj c) = JObj b"
    then show "distinct (map fst b)" using block_wf [OF assms(1)] by (metis json_wf.simps(1))
    show "\<forall>(name, K) \<in> set STRICT_BLOCKS. only_keys K (block name (JObj b))" using assms(2) b by (simp add: known_keys_def)
  qed
  have 4: "in_block ''wfb'' (in_block ''txSelector'' (keep_keys TX_SELECTOR_KEYS)) c = c"
  proof (rule in_block_id [OF d], rule in_block_id)
    fix b assume b: "block ''wfb'' (JObj c) = JObj b"
    then show "distinct (map fst b)" using block_wf [OF assms(1)] by (metis json_wf.simps(1))
    fix x assume "block ''txSelector'' (JObj b) = JObj x"
    then show "keep_keys TX_SELECTOR_KEYS x = x" using assms(2) b by (simp add: known_keys_def keep_keys_id)
  qed
  show ?thesis unfolding warn_unknown_def Let_def 1 2 3 4 ..
qed

lemma block_keys_ok: "validate_block_keys nm v K = Inr () \<Longrightarrow> only_keys K v"
  by (cases v) (auto simp: validate_block_keys_def in_order_simps reject_unknown_def unknown_keys_Nil is_dict_def only_keys_def)

lemma block_obj [simp]: "block n (JObj d) = dget d n JNull"
  by (simp add: block_def)

lemma nested_keys_ok:
  "validate_selector v = Inr () \<Longrightarrow> only_keys SELECTOR_KEYS v" "validate_smoothing v = Inr () \<Longrightarrow> only_keys SMOOTHING_KEYS v"
  "validate_learned_prior v = Inr () \<Longrightarrow> only_keys LEARNED_PRIOR_KEYS v" "validate_txsel v = Inr () \<Longrightarrow> only_keys TX_SELECTOR_KEYS v"
  unfolding validate_selector_def validate_smoothing_def validate_learned_prior_def validate_txsel_def in_order_Cons
  by (elim conjE block_keys_ok)+

lemma tap_keys_ok: "validate_tap v = Inr () \<Longrightarrow> only_keys TAP_KEYS v"
  by (cases v) (simp_all add: validate_tap_def in_order_Cons reject_unknown_def unknown_keys_Nil)

lemma dynamic_link_obj:
  assumes "validate_dynamic_link v = Inr ()"
  obtains d where "v = JObj d" "fst ` set d \<subseteq> set DYNAMIC_LINK_KEYS"
    "unless_none (dget d ''selector'' JNull) validate_selector = Inr ()" "unless_none (dget d ''smoothing'' JNull) validate_smoothing = Inr ()"
    "unless_none (dget d ''learnedPrior'' JNull) validate_learned_prior = Inr ()" "unless_none (dget d ''tap'' JNull) validate_tap = Inr ()"
proof -
  obtain d where d: "v = JObj d" using assms by (cases v) (simp_all add: validate_dynamic_link_def in_order_Cons)
  show ?thesis
    by (rule that [OF d]) (use assms in \<open>simp_all add: d validate_dynamic_link_def in_order_Cons reject_unknown_def unknown_keys_Nil\<close>)
qed

lemma unless_none_keys:
  assumes "unless_none v f = Inr ()" "\<And>w. f w = Inr () \<Longrightarrow> only_keys K w"
  shows "only_keys K v"
  using assms by (cases "v = JNull") (simp_all add: unless_none_def)

text \<open>The validator of the whole configuration rejects unknown keys in all of these blocks but \<open>drone\<close>.\<close>

lemma validated_keys:
  assumes "validate_effective bfc c = Inr ()"
  shows "only_keys DYNAMIC_LINK_KEYS (block ''dynamicLink'' (JObj c))"
    "only_keys TX_SELECTOR_KEYS (block ''txSelector'' (block ''wfb'' (JObj c)))"
    "\<forall>(name, K) \<in> set STRICT_BLOCKS. only_keys K (block name (block ''dynamicLink'' (JObj c)))"
proof -
  have v: "unless_none (dget c ''dynamicLink'' JNull) validate_dynamic_link = Inr ()" "unless_none (dget c ''wfb'' JNull) validate_wfb = Inr ()"
    using assms by (simp_all add: validate_effective_def in_order_simps)
  show "only_keys TX_SELECTOR_KEYS (block ''txSelector'' (block ''wfb'' (JObj c)))"
  proof (cases "dget c ''wfb'' JNull")
    case (JObj w)
    then have "unless_none (dget w ''txSelector'' JNull) validate_txsel = Inr ()"
      using v(2) by (simp add: unless_none_def validate_wfb_def in_order_Cons)
    then show ?thesis using JObj unless_none_keys nested_keys_ok(4) by simp
  qed (simp_all add: block_def)
  show "only_keys DYNAMIC_LINK_KEYS (block ''dynamicLink'' (JObj c))"
    unfolding block_obj by (rule unless_none_keys [OF v(1)]) (auto elim: dynamic_link_obj)
  show "\<forall>(name, K) \<in> set STRICT_BLOCKS. only_keys K (block name (block ''dynamicLink'' (JObj c)))"
  proof (cases "dget c ''dynamicLink'' JNull = JNull")
    case True
    then show ?thesis unfolding block_obj True by (simp add: block_def)
  next
    case False
    then have "validate_dynamic_link (dget c ''dynamicLink'' JNull) = Inr ()" using v(1) by (simp add: unless_none_def)
    then obtain d where d: "dget c ''dynamicLink'' JNull = JObj d"
      "unless_none (dget d ''selector'' JNull) validate_selector = Inr ()" "unless_none (dget d ''smoothing'' JNull) validate_smoothing = Inr ()"
      "unless_none (dget d ''learnedPrior'' JNull) validate_learned_prior = Inr ()" "unless_none (dget d ''tap'' JNull) validate_tap = Inr ()"
      by (rule dynamic_link_obj)
    show ?thesis
      using unless_none_keys [OF d(2) nested_keys_ok(1)] unless_none_keys [OF d(3) nested_keys_ok(2)]
        unless_none_keys [OF d(4) nested_keys_ok(3)] unless_none_keys [OF d(5) tap_keys_ok]
      by (simp add: STRICT_BLOCKS_def d(1))
  qed
qed

lemma patch_keys_merge:
  assumes "patch_keys c" "covers default_config c" "json_wf (JObj p)" "keeps_blocks default_config p" "validate_config_patch (JObj p) = Inr ()"
  shows "patch_keys (deep_merge c p)"
proof -
  have dp: "distinct (map fst p)" using assms(3) by simp
  have top: "fst ` set p \<subseteq> set CONFIG_TOP_KEYS"
    using assms(5) by (simp add: validate_config_patch_def in_order_simps reject_unknown_def unknown_keys_Nil)
  have "set CONFIG_TOP_KEYS = fst ` set default_config" by (auto simp: CONFIG_TOP_KEYS_def default_config_def)
  then have "fst ` set (deep_merge c p) \<subseteq> fst ` set default_config"
    using assms(1) top arg_cong [OF deep_merge_keys [OF dp, of c], of set] by (auto simp: patch_keys_def)
  moreover obtain b where b: "map_of default_config ''drone'' = Some (JObj b)" using default_blocks(2) by blast
  obtain w where w: "map_of c ''drone'' = Some (JObj w)" using covers_block [OF assms(2) map_of_SomeD [OF b]] .
  have "only_keys DRONE_KEYS (dget (deep_merge c p) ''drone'' JNull)"
  proof (cases "map_of p ''drone''")
    case None
    then show ?thesis using assms(1) dp by (simp add: patch_keys_def dget_def deep_merge_lookup)
  next
    case (Some v)
    have "patch_block p ''drone'' DRONE_KEYS = Inr ()" using assms(5) by (simp add: validate_config_patch_def in_order_simps)
    then have "only_keys DRONE_KEYS v"
      using Some block_keys_ok [of "''drone''" v] by (cases "v = JNull") (auto simp: patch_block_def unless_none_def dget_def)
    moreover have "json_wf v" using json_wf_dict [OF assms(3) Some] .
    ultimately have "only_keys DRONE_KEYS (merge_val (Some (JObj w)) v)"
      using assms(1) w by (intro only_keys_merge) (simp_all add: patch_keys_def dget_def)
    then show ?thesis using Some w dp by (simp add: dget_def deep_merge_lookup)
  qed
  ultimately show ?thesis by (simp add: patch_keys_def)
qed

lemma patches_patch_keys:
  assumes "patch_keys (cs_pending s)" "covers default_config (cs_pending s)" "json_wf (JObj (cs_pending s))"
    and "\<forall>p \<in> set ps. json_wf (JObj p) \<and> keeps_blocks default_config p \<and> validate_config_patch (JObj p) = Inr ()"
  shows "patch_keys (cs_pending (foldl (\<lambda>s p. store_patch p s) s ps))"
  using assms
proof (induction ps arbitrary: s)
  case (Cons p ps)
  let ?s = "store_patch p s"
  have "patch_keys (cs_pending ?s)" "covers default_config (cs_pending ?s)" "json_wf (JObj (cs_pending ?s))"
    using Cons.prems patch_keys_merge [of "cs_pending s" p] covers_merge [of default_config "cs_pending s" p] json_wf_merge [of "cs_pending s" p]
    by (auto simp: store_patch_def)
  then show ?case using Cons.IH [of ?s] Cons.prems(4) by simp
qed simp

lemma loaded_patch_keys:
  assumes "json_wf (JObj l)" "fst ` set l \<subseteq> fst ` set default_config" "only_keys DRONE_KEYS (block ''drone'' (JObj l))"
  shows "patch_keys (deep_merge default_config l)"
proof -
  have dl: "distinct (map fst l)" using assms(1) by simp
  obtain b where b: "map_of default_config ''drone'' = Some (JObj b)" "only_keys DRONE_KEYS (JObj b)" using default_blocks(2) by blast
  have "fst ` set (deep_merge default_config l) \<subseteq> fst ` set default_config"
    using assms(2) arg_cong [OF deep_merge_keys [OF dl, of default_config], of set] by auto
  moreover have "only_keys DRONE_KEYS (dget (deep_merge default_config l) ''drone'' JNull)"
  proof (cases "map_of l ''drone''")
    case (Some v)
    then show ?thesis
      using only_keys_merge [OF json_wf_dict [OF assms(1) Some] _ b(2)] assms(3) b dl by (simp add: dget_def deep_merge_lookup)
  qed (use b dl in \<open>simp add: dget_def deep_merge_lookup\<close>)
  ultimately show ?thesis by (simp add: patch_keys_def)
qed



text \<open>Both validators accept a patch that sets a block to null and a later one that sets a part of it
  again. What is committed then lacks the other defaults of the block, and a restart brings them back.\<close>

lemma null_block_not_reloaded:
  "let ps = [[(''dynamicLink'', JObj [(''flightlog'', JNull)])], [(''dynamicLink'', JObj [(''flightlog'', JObj [])])]];
       s = foldl (\<lambda>s p. store_patch p s) (store_load None) ps;
       s' = snd (store_commit True s)
   in list_all (\<lambda>p. validate_config_patch (JObj p) = Inr ()) ps \<and> validate_effective None (cs_pending s) = Inr ()
     \<and> block ''flightlog'' (block ''dynamicLink'' (JObj (cs_config s'))) = JObj []
     \<and> block ''flightlog'' (block ''dynamicLink'' (JObj (cs_config (store_load (cs_file s'))))) = JObj [(''enabled'', JBool True)]"
  by code_simp

end
