(* ===== verification/Dl_Config.thy ===== *)
theory Dl_Config
  imports Config
begin

text \<open>
  \<open>src/gs/fpvdgs/dynlink/config_build.py\<close>: from the configuration to the policy and the signal
  aggregator of the dynamic link. The conversions are Python's \<open>int()\<close> and \<open>float()\<close>, which raise
  on \<open>None\<close> and on other values they cannot convert.

  The theorem is the type soundness of the configuration: what the schema accepts can be built,
  and what is built has the ranges the dynamic link relies on. It needs one assumption that the
  schema does not check, \<open>concrete\<close>; \<open>null_knob_crashes\<close> and \<open>unchecked_knob_crashes\<close> show
  configurations that the schema accepts and that cannot be built.
\<close>

section \<open>Definitions\<close>

definition get_float :: "dict \<Rightarrow> string \<Rightarrow> real \<Rightarrow> real res" where
  "get_float d k dflt = to_float (dget d k (JFloat dflt))"

definition get_int :: "dict \<Rightarrow> string \<Rightarrow> int \<Rightarrow> int res" where
  "get_int d k dflt = to_int (dget d k (JInt dflt))"

text \<open>\<open>block.get(name, {}) or {}\<close>, on which the code calls \<open>get\<close>.\<close>

definition sub_block :: "dict \<Rightarrow> string \<Rightarrow> dict res" where
  "sub_block b name = (case or_empty (dget b name (JObj [])) of JObj d \<Rightarrow> Inr d | _ \<Rightarrow> Inl AttributeError)"

definition build_selector :: "dict \<Rightarrow> dict \<Rightarrow> selector_cfg res" where
  "build_selector b sel =
     (let d = default_selector_cfg in
      res_bind (get_float sel ''videoDemotePer'' (video_demote_per d)) (\<lambda>a1.
      res_bind (get_float sel ''emergencyFecPressure'' (emergency_fec_pressure d)) (\<lambda>a2.
      res_bind (get_int b ''maxMcs'' (max_mcs d)) (\<lambda>a3.
      res_bind (get_int sel ''holdModesDownMs'' (hold_modes_down_ms d)) (\<lambda>a4.
      res_bind (get_int sel ''minBetweenChangesMs'' (min_between_changes_ms d)) (\<lambda>a5.
      res_bind (get_int sel ''starvationWindows'' (starvation_windows d)) (\<lambda>a6.
      res_bind (get_float sel ''snrPromoteMarginDb'' (snr_promote_margin_db d)) (\<lambda>a7.
      res_bind (get_float sel ''snrDemoteMarginDb'' (snr_demote_margin_db d)) (\<lambda>a8.
      res_bind (get_int sel ''demoteCooldownWindows'' (demote_cooldown_windows d)) (\<lambda>a9.
      res_bind (get_int sel ''flapBaseBackoffMs'' (flap_base_backoff_ms d)) (\<lambda>a10.
      res_bind (get_float sel ''flapBackoffMult'' (flap_backoff_mult d)) (\<lambda>a11.
      res_bind (get_int sel ''flapBackoffCapMs'' (flap_backoff_cap_ms d)) (\<lambda>a12.
      res_bind (get_int sel ''flapResetCleanDwellTicks'' (flap_reset_clean_dwell_ticks d)) (\<lambda>a13.
      res_bind (get_int sel ''trialWindowMs'' (trial_window_ms d)) (\<lambda>a14.
      res_bind (get_int sel ''promoteDwellTicks'' (promote_dwell_ticks d)) (\<lambda>a15.
      res_bind (get_float sel ''promoteSlopeMin'' (promote_slope_min d)) (\<lambda>a16.
      res_bind (get_float sel ''collapseDeltaDb'' (collapse_delta_db d)) (\<lambda>a17.
      res_bind (get_float sel ''snapbackRecoverMarginDb'' (snapback_recover_margin_db d)) (\<lambda>a18.
      res_bind (get_int sel ''confirmTtlMs'' (confirm_ttl_ms d)) (\<lambda>a19.
      res_bind (get_float sel ''flapSnrReleaseDb'' (flap_snr_release_db d)) (\<lambda>a20.
      res_bind (get_int sel ''flapDecayMs'' (flap_decay_ms d)) (\<lambda>a21.
        Inr (d\<lparr> video_demote_per := a1, emergency_fec_pressure := a2, max_mcs := a3, hold_modes_down_ms := a4,
                min_between_changes_ms := a5, starvation_windows := a6, snr_promote_margin_db := a7, snr_demote_margin_db := a8,
                demote_cooldown_windows := a9, flap_base_backoff_ms := a10, flap_backoff_mult := a11, flap_backoff_cap_ms := a12,
                flap_reset_clean_dwell_ticks := a13, trial_window_ms := a14, promote_dwell_ticks := a15, promote_slope_min := a16,
                collapse_delta_db := a17, snapback_recover_margin_db := a18, confirm_ttl_ms := a19, flap_snr_release_db := a20,
                flap_decay_ms := a21 \<rparr>)))))))))))))))))))))))"

definition build_learned_prior :: "dict \<Rightarrow> prior_cfg res" where
  "build_learned_prior lp =
     (let d = default_prior_cfg in
      res_bind (get_int lp ''settleTicks'' (settle_ticks d)) (\<lambda>a1.
      res_bind (get_float lp ''viableLoss'' (viable_loss d)) (\<lambda>a2.
      res_bind (get_float lp ''alphaTighten'' (alpha_tighten d)) (\<lambda>a3.
      res_bind (get_float lp ''alphaRelax'' (alpha_relax d)) (\<lambda>a4.
      res_bind (get_float lp ''minSamples'' (min_samples d)) (\<lambda>a5.
      res_bind (get_float lp ''recencyDecay'' (recency_decay d)) (\<lambda>a6.
        Inr (d\<lparr> settle_ticks := a1, viable_loss := a2, alpha_tighten := a3, alpha_relax := a4, min_samples := a5,
                recency_decay := a6 \<rparr>))))))))"

text \<open>The policy configuration and whether the flight log is on.\<close>

definition build_policy_config :: "dict \<Rightarrow> (policy_cfg \<times> bool) res" where
  "build_policy_config b =
     res_bind (sub_block b ''selector'') (\<lambda>sel.
     res_bind (build_selector b sel) (\<lambda>selector.
     res_bind (sub_block b ''flightlog'') (\<lambda>fl.
     res_bind (sub_block b ''learnedPrior'') (\<lambda>lp.
     res_bind (build_learned_prior lp) (\<lambda>prior.
     res_bind (get_int b ''linkWidth'' 20) (\<lambda>width.
       Inr (\<lparr> cfg_selector = selector, cfg_prior = prior, cfg_link_width = width \<rparr>,
            truthy (dget fl ''enabled'' (JBool True)))))))))"

definition build_aggregator :: "dict \<Rightarrow> aggregator res" where
  "build_aggregator b =
     (let d = new_aggregator in
      res_bind (sub_block b ''smoothing'') (\<lambda>s.
      res_bind (get_float s ''ewmaAlphaRssi'' (ewma_alpha_rssi d)) (\<lambda>a1.
      res_bind (get_float s ''ewmaAlphaFec'' (ewma_alpha_fec d)) (\<lambda>a2.
      res_bind (get_float s ''ewmaAlphaBurst'' (ewma_alpha_burst d)) (\<lambda>a3.
      res_bind (get_float s ''starvationThresholdPps'' (starvation_threshold_pps d)) (\<lambda>a4.
        Inr (d\<lparr> ewma_alpha_rssi := a1, ewma_alpha_fec := a2, ewma_alpha_burst := a3, starvation_threshold_pps := a4 \<rparr>)))))))"

text \<open>\<open>dict()\<close> is called on the \<open>dynamicLink\<close> value, which is an object in every validated
  configuration that has one; \<open>dict(None)\<close> raises.\<close>

definition make_dl_snapshot :: "dict \<Rightarrow> dict res" where
  "make_dl_snapshot effective =
     res_bind (case dget effective ''dynamicLink'' (JObj []) of JObj b \<Rightarrow> Inr b | _ \<Rightarrow> Inl TypeError) (\<lambda>b.
     res_bind (jget (dget effective ''drone'' (JObj [])) ''host'' (JStr ''10.5.0.10'')) (\<lambda>host.
     res_bind (to_int (let v = dget b ''dronePort'' JNull in if truthy v then v else JInt 9999)) (\<lambda>port.
     res_bind (jget (dget effective ''link'' (JObj [])) ''width'' (JInt 20)) (\<lambda>w.
     res_bind (to_int w) (\<lambda>width.
       Inr (AList.update ''linkWidth'' (JInt width)
             (AList.update ''dronePort'' (JInt port) (AList.update ''droneAddr'' host b))))))))"

subsection \<open>What the schema leaves open\<close>

text \<open>No null where a number is read, and numbers where the schema has no rule.\<close>

definition no_nulls :: "json \<Rightarrow> bool" where
  "no_nulls v = (case v of JObj d \<Rightarrow> \<forall>(k, x) \<in> set d. x \<noteq> JNull | _ \<Rightarrow> True)"

definition UNCHECKED_KNOBS :: "string list" where
  "UNCHECKED_KNOBS = [''flapBaseBackoffMs'', ''flapBackoffMult'', ''flapBackoffCapMs'', ''flapResetCleanDwellTicks'']"

definition concrete :: "dict \<Rightarrow> bool" where
  "concrete cfg =
     (dget cfg ''drone'' (JObj []) \<noteq> JNull
      \<and> dget cfg ''dynamicLink'' (JObj []) \<noteq> JNull
      \<and> (case dget cfg ''link'' (JObj []) of JObj l \<Rightarrow> dget l ''width'' (JInt 20) \<noteq> JNull | _ \<Rightarrow> True)
      \<and> (\<forall>name \<in> {''selector'', ''smoothing'', ''learnedPrior''}. no_nulls (block name (dget cfg ''dynamicLink'' JNull)))
      \<and> (\<forall>k \<in> set UNCHECKED_KNOBS. case block ''selector'' (dget cfg ''dynamicLink'' JNull) of
           JObj s \<Rightarrow> (case map_of s k of None \<Rightarrow> True | Some v \<Rightarrow> num_with (\<lambda>_. True) v) | _ \<Rightarrow> True))"

text \<open>The ranges of a configuration that the dynamic link relies on.\<close>

definition good_selector :: "selector_cfg \<Rightarrow> bool" where
  "good_selector s =
     (0 \<le> max_mcs s \<and> max_mcs s \<le> 7 \<and> snr_promote_margin_db s < snr_demote_margin_db s \<and> 0 \<le> snr_promote_margin_db s
      \<and> 0 \<le> video_demote_per s \<and> video_demote_per s \<le> 1 \<and> 0 < starvation_windows s \<and> 0 < promote_dwell_ticks s
      \<and> 0 \<le> min_between_changes_ms s \<and> 0 \<le> hold_modes_down_ms s \<and> 0 \<le> trial_window_ms s \<and> 0 \<le> confirm_ttl_ms s
      \<and> demote_cooldown_windows s = 3)"

definition good_prior :: "prior_cfg \<Rightarrow> bool" where
  "good_prior l =
     (0 < settle_ticks l \<and> 0 \<le> viable_loss l \<and> viable_loss l \<le> 1 \<and> 0 < alpha_tighten l \<and> alpha_tighten l \<le> 1
      \<and> 0 < alpha_relax l \<and> alpha_relax l \<le> 1 \<and> 0 \<le> min_samples l \<and> 0 < recency_decay l \<and> recency_decay l \<le> 1)"

definition good_aggregator :: "aggregator \<Rightarrow> bool" where
  "good_aggregator g =
     (0 < ewma_alpha_rssi g \<and> ewma_alpha_rssi g \<le> 1 \<and> 0 < ewma_alpha_fec g \<and> ewma_alpha_fec g \<le> 1
      \<and> 0 < ewma_alpha_burst g \<and> ewma_alpha_burst g \<le> 1 \<and> 0 \<le> starvation_threshold_pps g)"

text \<open>The value of a convertible number.\<close>

definition fval :: "json \<Rightarrow> real" where "fval v = (case to_float v of Inr x \<Rightarrow> x | Inl _ \<Rightarrow> 0)"
definition ival :: "json \<Rightarrow> int" where "ival v = (case to_int v of Inr n \<Rightarrow> n | Inl _ \<Rightarrow> 0)"

text \<open>Configurations that the schema accepts and that cannot be built: a null knob, and a string in
  a knob without a rule.\<close>

definition null_knob :: dict where
  "null_knob = deep_merge default_config [(''dynamicLink'', JObj [(''selector'', JObj [(''trialWindowMs'', JNull)])])]"

definition unchecked_knob :: dict where
  "unchecked_knob = deep_merge default_config [(''dynamicLink'', JObj [(''selector'', JObj [(''flapBaseBackoffMs'', JStr ''2s'')])])]"

section \<open>Lemmas\<close>

lemma num_float: "num_with P v \<Longrightarrow> to_float v = Inr (fval v) \<and> P (fval v)"
  by (cases v) (auto simp: num_with_def to_float_def num_of_def fval_def)

lemma num_int: "num_with P v \<Longrightarrow> to_int v = Inr (ival v)"
  by (cases v) (auto simp: num_with_def to_int_def ival_def)

lemma nonneg_int: "num_with (\<lambda>x. 0 \<le> x) v \<Longrightarrow> 0 \<le> ival v"
  by (cases v) (auto simp: num_with_def to_int_def ival_def py_int_nonneg)

text \<open>A knob that passed its check and is not null has the checked property, or is the default.\<close>

lemma knob:
  assumes "raise_if (dget d k JNull \<noteq> JNull \<and> \<not> P (dget d k JNull)) e = Inr ()" "no_nulls (JObj d)" "P dflt"
  shows "P (dget d k dflt)"
proof (cases "map_of d k")
  case (Some v)
  then have "v \<noteq> JNull" using assms(2) map_of_SomeD by (fastforce simp: no_nulls_def)
  then show ?thesis using assms(1) Some by (auto simp: dget_def)
qed (use assms in \<open>simp add: dget_def\<close>)

lemma pos_knob:
  assumes "validate_pos_int name (dget d k JNull) = Inr ()" "no_nulls (JObj d)" "0 < n"
  shows "\<exists>m > 0. dget d k (JInt n) = JInt m"
proof -
  have "(\<lambda>v. case v of JInt n \<Rightarrow> n > 0 | _ \<Rightarrow> False) (dget d k (JInt n))"
    by (rule knob [where P = "\<lambda>v. case v of JInt n \<Rightarrow> n > 0 | _ \<Rightarrow> False", OF assms(1) [unfolded validate_pos_int_def] assms(2)])
      (use assms(3) in simp)
  then show ?thesis by (auto split: json.splits)
qed

lemma num_num_of: "num_with P v \<Longrightarrow> num_of v = Some (fval v)"
  by (cases v) (auto simp: num_with_def num_of_def fval_def to_float_def)

lemmas num_knob = knob [where P = "num_with Q" for Q]

text \<open>The selector block.\<close>

lemma selector_knobs:
  assumes "validate_selector (JObj s) = Inr ()" "no_nulls (JObj s)"
  shows "k \<in> {''videoDemotePer'', ''emergencyFecPressure''} \<Longrightarrow> num_with (\<lambda>x. 0 \<le> x \<and> x \<le> 1) dflt
      \<Longrightarrow> num_with (\<lambda>x. 0 \<le> x \<and> x \<le> 1) (dget s k dflt)"
    "k \<in> {''starvationWindows'', ''promoteDwellTicks''} \<Longrightarrow> 0 < n \<Longrightarrow> \<exists>m > 0. dget s k (JInt n) = JInt m"
    "k \<in> {''holdModesDownMs'', ''minBetweenChangesMs'', ''snrPromoteMarginDb'', ''snrDemoteMarginDb'', ''trialWindowMs'',
        ''collapseDeltaDb'', ''snapbackRecoverMarginDb'', ''confirmTtlMs'', ''flapSnrReleaseDb'', ''flapDecayMs''}
      \<Longrightarrow> num_with (\<lambda>x. 0 \<le> x) dflt \<Longrightarrow> num_with (\<lambda>x. 0 \<le> x) (dget s k dflt)"
    "num_with (\<lambda>_. True) dflt \<Longrightarrow> num_with (\<lambda>_. True) (dget s ''promoteSlopeMin'' dflt)"
    "fval (dget s ''snrPromoteMarginDb'' (JFloat 1)) < fval (dget s ''snrDemoteMarginDb'' (JFloat (3 / 2)))"
    "fst ` set s \<subseteq> set SELECTOR_KEYS"
proof -
  have v: "in_order
    (map (\<lambda>k. validate_prob (selector_name k) (dget s k JNull)) [''videoDemotePer'', ''emergencyFecPressure'']
     @ map (\<lambda>k. validate_pos_int (selector_name k) (dget s k JNull)) [''starvationWindows'', ''promoteDwellTicks'']
     @ map (\<lambda>k. validate_non_neg_num (selector_name k) (dget s k JNull))
         [''holdModesDownMs'', ''minBetweenChangesMs'', ''snrPromoteMarginDb'', ''snrDemoteMarginDb'', ''trialWindowMs'',
          ''collapseDeltaDb'', ''snapbackRecoverMarginDb'', ''confirmTtlMs'', ''flapSnrReleaseDb'', ''flapDecayMs'']
     @ [raise_if (dget s ''promoteSlopeMin'' JNull \<noteq> JNull \<and> \<not> num_with (\<lambda>_. True) (dget s ''promoteSlopeMin'' JNull))
          (SchemaError ''dynamicLink.selector.promoteSlopeMin must be a number''),
        res_bind (num_le (dget s ''snrDemoteMarginDb'' (JFloat (3 / 2))) (dget s ''snrPromoteMarginDb'' (JFloat 1)))
          (\<lambda>le. raise_if le (SchemaError ''dynamicLink.selector.snrDemoteMarginDb must be > snrPromoteMarginDb''))]) = Inr ()"
    and keys: "validate_block_keys ''dynamicLink.selector'' (JObj s) SELECTOR_KEYS = Inr ()"
    using assms(1) unfolding validate_selector_def json.case by (simp_all only: in_order_Cons)
  note c = v [unfolded in_order_append in_order_map in_order_Cons]
  have vp: "\<forall>k \<in> set [''videoDemotePer'', ''emergencyFecPressure'']. validate_prob (selector_name k) (dget s k JNull) = Inr ()"
    and vi: "\<forall>k \<in> set [''starvationWindows'', ''promoteDwellTicks'']. validate_pos_int (selector_name k) (dget s k JNull) = Inr ()"
    and vn: "\<forall>k \<in> set [''holdModesDownMs'', ''minBetweenChangesMs'', ''snrPromoteMarginDb'', ''snrDemoteMarginDb'', ''trialWindowMs'',
        ''collapseDeltaDb'', ''snapbackRecoverMarginDb'', ''confirmTtlMs'', ''flapSnrReleaseDb'', ''flapDecayMs''].
        validate_non_neg_num (selector_name k) (dget s k JNull) = Inr ()"
    and vs: "raise_if (dget s ''promoteSlopeMin'' JNull \<noteq> JNull \<and> \<not> num_with (\<lambda>_. True) (dget s ''promoteSlopeMin'' JNull))
          (SchemaError ''dynamicLink.selector.promoteSlopeMin must be a number'') = Inr ()"
    and vm: "res_bind (num_le (dget s ''snrDemoteMarginDb'' (JFloat (3 / 2))) (dget s ''snrPromoteMarginDb'' (JFloat 1)))
          (\<lambda>le. raise_if le (SchemaError ''dynamicLink.selector.snrDemoteMarginDb must be > snrPromoteMarginDb'')) = Inr ()"
    using c [THEN conjunct1] c [THEN conjunct2, THEN conjunct1] c [THEN conjunct2, THEN conjunct2, THEN conjunct1]
      c [THEN conjunct2, THEN conjunct2, THEN conjunct2, THEN conjunct1]
      c [THEN conjunct2, THEN conjunct2, THEN conjunct2, THEN conjunct2, THEN conjunct1] .
  show "fst ` set s \<subseteq> set SELECTOR_KEYS"
    using keys by (simp add: validate_block_keys_def reject_unknown_def in_order_Cons unknown_keys_Nil)
  show "num_with (\<lambda>x. 0 \<le> x \<and> x \<le> 1) (dget s k dflt)"
    if "k \<in> {''videoDemotePer'', ''emergencyFecPressure''}" "num_with (\<lambda>x. 0 \<le> x \<and> x \<le> 1) dflt"
    by (rule num_knob [OF bspec [OF vp, unfolded validate_prob_def] assms(2) that(2)]) (use that(1) in simp)
  show "\<exists>m > 0. dget s k (JInt n) = JInt m" if "k \<in> {''starvationWindows'', ''promoteDwellTicks''}" "0 < n"
    using that by (intro pos_knob [OF bspec [OF vi] assms(2)]) simp_all
  show nn: "num_with (\<lambda>x. 0 \<le> x) (dget s k dflt)"
    if "k \<in> {''holdModesDownMs'', ''minBetweenChangesMs'', ''snrPromoteMarginDb'', ''snrDemoteMarginDb'', ''trialWindowMs'',
        ''collapseDeltaDb'', ''snapbackRecoverMarginDb'', ''confirmTtlMs'', ''flapSnrReleaseDb'', ''flapDecayMs''}"
      "num_with (\<lambda>x. 0 \<le> x) dflt" for k dflt
    by (rule num_knob [OF bspec [OF vn, unfolded validate_non_neg_num_def] assms(2) that(2)]) (use that(1) in simp)
  show "num_with (\<lambda>_. True) (dget s ''promoteSlopeMin'' dflt)" if "num_with (\<lambda>_. True) dflt"
    by (rule num_knob [OF vs assms(2) that])
  show "fval (dget s ''snrPromoteMarginDb'' (JFloat 1)) < fval (dget s ''snrDemoteMarginDb'' (JFloat (3 / 2)))"
  proof -
    let ?p = "dget s ''snrPromoteMarginDb'' (JFloat 1)" and ?d = "dget s ''snrDemoteMarginDb'' (JFloat (3 / 2))"
    have "num_with (\<lambda>x. 0 \<le> x) ?p" "num_with (\<lambda>x. 0 \<le> x) ?d" by (rule nn, simp, simp add: num_with_def)+
    then have "num_of ?p = Some (fval ?p)" "num_of ?d = Some (fval ?d)" by (simp_all add: num_num_of)
    then show ?thesis using vm by (simp add: num_le_def)
  qed
qed

lemma get_float_num: "num_with P (dget d k (JFloat x)) \<Longrightarrow> get_float d k x = Inr (fval (dget d k (JFloat x)))"
  by (simp add: get_float_def num_float)

lemma get_int_num: "num_with P (dget d k (JInt n)) \<Longrightarrow> get_int d k n = Inr (ival (dget d k (JInt n)))"
  by (simp add: get_int_def num_int)

lemma build_selector_ok:
  assumes v: "validate_selector (JObj s) = Inr ()" "no_nulls (JObj s)"
    and u: "\<forall>k \<in> set UNCHECKED_KNOBS. case map_of s k of None \<Rightarrow> True | Some v \<Rightarrow> num_with (\<lambda>_. True) v"
    and m: "int_in 0 7 (dget b ''maxMcs'' (JInt 5))"
  shows "\<exists>sel. build_selector b s = Inr sel \<and> good_selector sel"
proof -
  note k = selector_knobs [OF v]
  have p: "num_with (\<lambda>x. 0 \<le> x \<and> x \<le> 1) (dget s ''videoDemotePer'' (JFloat (5 / 100)))"
    "num_with (\<lambda>x. 0 \<le> x \<and> x \<le> 1) (dget s ''emergencyFecPressure'' (JFloat (80 / 100)))"
    by (rule k(1), simp, simp add: num_with_def)+
  obtain n1 where n1: "dget s ''starvationWindows'' (JInt 5) = JInt n1" "0 < n1"
    using k(2) [of "''starvationWindows''" 5] by auto
  obtain n2 where n2: "dget s ''promoteDwellTicks'' (JInt 30) = JInt n2" "0 < n2"
    using k(2) [of "''promoteDwellTicks''" 30] by auto
  have n: "num_with (\<lambda>x. 0 \<le> x) (dget s ''holdModesDownMs'' (JInt 2000))" "num_with (\<lambda>x. 0 \<le> x) (dget s ''minBetweenChangesMs'' (JInt 200))"
    "num_with (\<lambda>x. 0 \<le> x) (dget s ''snrPromoteMarginDb'' (JFloat 1))" "num_with (\<lambda>x. 0 \<le> x) (dget s ''snrDemoteMarginDb'' (JFloat (3 / 2)))"
    "num_with (\<lambda>x. 0 \<le> x) (dget s ''trialWindowMs'' (JInt 10000))" "num_with (\<lambda>x. 0 \<le> x) (dget s ''collapseDeltaDb'' (JFloat 4))"
    "num_with (\<lambda>x. 0 \<le> x) (dget s ''snapbackRecoverMarginDb'' (JFloat 3))" "num_with (\<lambda>x. 0 \<le> x) (dget s ''confirmTtlMs'' (JInt 60000))"
    "num_with (\<lambda>x. 0 \<le> x) (dget s ''flapSnrReleaseDb'' (JFloat 3))" "num_with (\<lambda>x. 0 \<le> x) (dget s ''flapDecayMs'' (JInt 60000))"
    by (rule k(3), simp, simp add: num_with_def)+
  have un: "num_with (\<lambda>_. True) (dget s key dflt)" if "key \<in> set UNCHECKED_KNOBS" "num_with (\<lambda>_. True) dflt" for key dflt
    using u that by (auto simp: dget_def split: option.splits)
  have q: "num_with (\<lambda>_. True) (dget s ''flapBaseBackoffMs'' (JInt 2000))" "num_with (\<lambda>_. True) (dget s ''flapBackoffMult'' (JFloat 2))"
    "num_with (\<lambda>_. True) (dget s ''flapBackoffCapMs'' (JInt 10000))" "num_with (\<lambda>_. True) (dget s ''flapResetCleanDwellTicks'' (JInt 30))"
    by (rule un, simp add: UNCHECKED_KNOBS_def, simp add: num_with_def)+
  have sl: "num_with (\<lambda>_. True) (dget s ''promoteSlopeMin'' (JFloat (- 5 / 100)))" by (rule k(4)) (simp add: num_with_def)
  have "''demoteCooldownWindows'' \<notin> set SELECTOR_KEYS" by (simp add: SELECTOR_KEYS_def)
  then have "map_of s ''demoteCooldownWindows'' = None" using k(6) by (auto simp: map_of_eq_None_iff)
  then have dc: "get_int s ''demoteCooldownWindows'' 3 = Inr 3" by (simp add: get_int_def dget_def to_int_def)
  obtain mm where mm: "get_int b ''maxMcs'' 7 = Inr mm" "0 \<le> mm" "mm \<le> 7"
    using m by (cases "map_of b ''maxMcs''") (auto simp: get_int_def dget_def to_int_def int_in_def split: json.splits)
  note fl = p(1) [THEN get_float_num] p(2) [THEN get_float_num] n(3) [THEN get_float_num] n(4) [THEN get_float_num]
    n(6) [THEN get_float_num] n(7) [THEN get_float_num] n(9) [THEN get_float_num] q(2) [THEN get_float_num] sl [THEN get_float_num]
  note il = n(1) [THEN get_int_num] n(2) [THEN get_int_num] n(5) [THEN get_int_num] n(8) [THEN get_int_num] n(10) [THEN get_int_num]
    q(1) [THEN get_int_num] q(3) [THEN get_int_num] q(4) [THEN get_int_num]
  have pi: "get_int s ''starvationWindows'' 5 = Inr n1" "get_int s ''promoteDwellTicks'' 30 = Inr n2"
    by (simp_all add: get_int_def n1 n2 to_int_def)
  note vals = num_float [OF p(1)] num_float [OF p(2)] num_float [OF n(3)] n(1) [THEN nonneg_int] n(2) [THEN nonneg_int] n(5) [THEN nonneg_int]
    n(8) [THEN nonneg_int] k(5)
  show ?thesis
    using vals unfolding build_selector_def Let_def default_selector_cfg_def
    by (simp only: selector_cfg.simps fl il pi dc mm(1) res_bind_simps)
      (simp add: good_selector_def mm(2,3) n1(2) n2(2))
qed

text \<open>The other two blocks.\<close>

lemma build_learned_prior_ok:
  assumes "validate_learned_prior (JObj s) = Inr ()" "no_nulls (JObj s)"
  shows "\<exists>l. build_learned_prior s = Inr l \<and> good_prior l"
proof -
  have v: "validate_pos_int ''dynamicLink.learnedPrior.settleTicks'' (dget s ''settleTicks'' JNull) = Inr ()"
    "validate_non_neg_num ''dynamicLink.learnedPrior.minSamples'' (dget s ''minSamples'' JNull) = Inr ()"
    "validate_prob ''dynamicLink.learnedPrior.viableLoss'' (dget s ''viableLoss'' JNull) = Inr ()"
    "\<forall>k \<in> set [''alphaTighten'', ''alphaRelax'', ''recencyDecay'']. validate_alpha (''dynamicLink.learnedPrior.'' @ k) (dget s k JNull) = Inr ()"
    using assms(1) unfolding validate_learned_prior_def json.case in_order_simps by blast+
  obtain n where n: "dget s ''settleTicks'' (JInt 5) = JInt n" "0 < n" using pos_knob [OF v(1) assms(2), of 5] by auto
  have nn: "num_with (\<lambda>x. 0 \<le> x) (dget s ''minSamples'' (JFloat 8))"
    by (rule num_knob [OF v(2) [unfolded validate_non_neg_num_def] assms(2)]) (simp add: num_with_def)
  have p: "num_with (\<lambda>x. 0 \<le> x \<and> x \<le> 1) (dget s ''viableLoss'' (JFloat (5 / 100)))"
    by (rule num_knob [OF v(3) [unfolded validate_prob_def] assms(2)]) (simp add: num_with_def)
  have a: "num_with (\<lambda>x. 0 < x \<and> x \<le> 1) (dget s ''alphaTighten'' (JFloat (25 / 100)))"
    "num_with (\<lambda>x. 0 < x \<and> x \<le> 1) (dget s ''alphaRelax'' (JFloat (5 / 100)))"
    "num_with (\<lambda>x. 0 < x \<and> x \<le> 1) (dget s ''recencyDecay'' (JFloat (9995 / 10000)))"
    by (rule num_knob [OF bspec [OF v(4), unfolded validate_alpha_def] assms(2)], simp, simp add: num_with_def)+
  have "get_int s ''settleTicks'' 5 = Inr n" by (simp add: get_int_def n to_int_def)
  then show ?thesis
    using num_float [OF nn] num_float [OF p] num_float [OF a(1)] num_float [OF a(2)] num_float [OF a(3)] n(2)
    unfolding build_learned_prior_def Let_def default_prior_cfg_def
    by (simp only: prior_cfg.simps nn [THEN get_float_num] p [THEN get_float_num] a [THEN get_float_num] res_bind_simps)
      (simp add: good_prior_def)
qed

lemma build_aggregator_ok:
  assumes "validate_smoothing (JObj s) = Inr ()" "no_nulls (JObj s)" "sub_block b ''smoothing'' = Inr s"
  shows "\<exists>g. build_aggregator b = Inr g \<and> good_aggregator g \<and> sig g = new_signals \<and> micro g = [] \<and> pending_lost g = 0"
proof -
  have v: "\<forall>k \<in> set [''ewmaAlphaRssi'', ''ewmaAlphaFec'', ''ewmaAlphaBurst'']. validate_alpha (''dynamicLink.smoothing.'' @ k) (dget s k JNull) = Inr ()"
    "validate_non_neg_num ''dynamicLink.smoothing.starvationThresholdPps'' (dget s ''starvationThresholdPps'' JNull) = Inr ()"
    using assms(1) unfolding validate_smoothing_def json.case in_order_simps by blast+
  have nn: "num_with (\<lambda>x. 0 \<le> x) (dget s ''starvationThresholdPps'' (JFloat 50))"
    by (rule num_knob [OF v(2) [unfolded validate_non_neg_num_def] assms(2)]) (simp add: num_with_def)
  have a: "num_with (\<lambda>x. 0 < x \<and> x \<le> 1) (dget s ''ewmaAlphaRssi'' (JFloat (2 / 10)))"
    "num_with (\<lambda>x. 0 < x \<and> x \<le> 1) (dget s ''ewmaAlphaFec'' (JFloat (2 / 10)))"
    "num_with (\<lambda>x. 0 < x \<and> x \<le> 1) (dget s ''ewmaAlphaBurst'' (JFloat (1 / 10)))"
    by (rule num_knob [OF bspec [OF v(1), unfolded validate_alpha_def] assms(2)], simp, simp add: num_with_def)+
  show ?thesis
    using num_float [OF nn] num_float [OF a(1)] num_float [OF a(2)] num_float [OF a(3)]
    unfolding build_aggregator_def Let_def new_aggregator_def
    by (simp only: aggregator.simps assms(3) nn [THEN get_float_num] a [THEN get_float_num] res_bind_simps)
      (simp add: good_aggregator_def)
qed

lemma empty_blocks:
  "validate_selector (JObj []) = Inr ()" "validate_smoothing (JObj []) = Inr ()" "validate_learned_prior (JObj []) = Inr ()"
  "validate_flightlog (JObj []) = Inr ()"
  by code_simp+

lemma sub_block_ok:
  assumes "unless_none (dget b name JNull) f = Inr ()" "f (JObj []) = Inr ()" "\<And>v. f v = Inr () \<Longrightarrow> is_dict v"
  obtains s where "sub_block b name = Inr s" "f (JObj s) = Inr ()" "s = [] \<or> dget b name JNull = JObj s"
proof (cases "map_of b name")
  case None
  then have "sub_block b name = Inr []" by (simp add: sub_block_def dget_def or_empty_def)
  then show ?thesis using that [of "[]"] assms(2) by simp
next
  case (Some v)
  show ?thesis
  proof (cases "v = JNull")
    case True
    then have "sub_block b name = Inr []" using Some by (simp add: sub_block_def dget_def or_empty_def)
    then show ?thesis using that [of "[]"] assms(2) by simp
  next
    case False
    then have fv: "f v = Inr ()" using assms(1) Some by (simp add: unless_none_def dget_def)
    then obtain s where s: "v = JObj s" using assms(3) by (auto elim: is_dictE)
    then have "sub_block b name = Inr s" using Some by (simp add: sub_block_def dget_def or_empty_def)
    then show ?thesis using that [of s] fv s Some by (simp add: dget_def)
  qed
qed

lemma block_validators_dict:
  "validate_selector v = Inr () \<Longrightarrow> is_dict v" "validate_smoothing v = Inr () \<Longrightarrow> is_dict v"
  "validate_learned_prior v = Inr () \<Longrightarrow> is_dict v" "validate_flightlog v = Inr () \<Longrightarrow> is_dict v"
  unfolding validate_selector_def validate_smoothing_def validate_learned_prior_def validate_flightlog_def in_order_Cons validate_block_keys_def
  by simp_all

lemma validated_dl:
  assumes "validate_effective bfc cfg = Inr ()" "dget cfg ''dynamicLink'' (JObj []) \<noteq> JNull"
  obtains b where "dget cfg ''dynamicLink'' (JObj []) = JObj b" "int_in 0 7 (dget b ''maxMcs'' (JInt 5))"
    "int_in 1 65535 (dget b ''dronePort'' (JInt 9999))"
    "unless_none (dget b ''selector'' JNull) validate_selector = Inr ()" "unless_none (dget b ''smoothing'' JNull) validate_smoothing = Inr ()"
    "unless_none (dget b ''learnedPrior'' JNull) validate_learned_prior = Inr ()"
    "unless_none (dget b ''flightlog'' JNull) validate_flightlog = Inr ()" "unless_none (dget b ''tap'' JNull) validate_tap = Inr ()"
proof (cases "map_of cfg ''dynamicLink''")
  case None
  then show ?thesis using that [of "[]"] by (simp add: dget_def int_in_def unless_none_def)
next
  case (Some v)
  then have v: "v \<noteq> JNull" using assms(2) by (simp add: dget_def)
  then have vd: "validate_dynamic_link v = Inr ()"
    using assms(1) Some unfolding validate_effective_def in_order_Cons by (simp add: dget_def unless_none_def)
  then obtain b where b: "v = JObj b" unfolding validate_dynamic_link_def in_order_Cons by (auto split: json.splits)
  show ?thesis
    by (rule that [of b]) (use vd Some b in \<open>simp_all add: validate_dynamic_link_def in_order_Cons check_port_def dget_def\<close>)
qed

lemma validated_link:
  assumes "validate_effective bfc cfg = Inr ()"
  obtains l where "dget cfg ''link'' (JObj []) = JObj l" "check_width cfg (dget l ''width'' JNull) = Inr ()"
  using assms unfolding validate_effective_def validate_link_def in_order_Cons
  by (auto simp: Let_def in_order_Cons split: json.splits)

lemma valid_width:
  assumes "check_width cfg w = Inr ()" "w \<noteq> JNull"
  shows "\<exists>n \<in> set VALID_WIDTHS. to_int w = Inr n"
proof -
  have h: "hashable w" "\<exists>n \<in> set VALID_WIDTHS. py_eq w (JInt n)"
    using assms by (auto simp: check_width_def in_order_Cons unless_none_def in_int_set_def split: if_splits)
  have "to_int w = Inr n" if "py_eq w (JInt n)" "n \<in> set VALID_WIDTHS" for n
    using that h(1) by (cases w) (auto simp: py_eq.simps num_of_def to_int_def hashable_def VALID_WIDTHS_def split: if_splits)
  then show ?thesis using h(2) by blast
qed

lemma validated_drone:
  assumes "validate_effective bfc cfg = Inr ()" "dget cfg ''drone'' (JObj []) \<noteq> JNull"
  obtains d where "dget cfg ''drone'' (JObj []) = JObj d"
proof (cases "map_of cfg ''drone''")
  case None
  then show ?thesis using that by (simp add: dget_def)
next
  case (Some v)
  then have "v \<noteq> JNull" using assms(2) by (simp add: dget_def)
  then have "validate_drone v = Inr ()"
    using assms(1) Some unfolding validate_effective_def in_order_Cons by (simp add: dget_def unless_none_def)
  then show ?thesis using that Some by (cases v) (simp_all add: validate_drone_def dget_def)
qed

lemma null_knob_crashes:
  "validate_effective None null_knob = Inr () \<and> res_bind (make_dl_snapshot null_knob) build_policy_config = Inl TypeError"
  by code_simp

lemma unchecked_knob_crashes:
  "validate_effective None unchecked_knob = Inr () \<and> res_bind (make_dl_snapshot unchecked_knob) build_policy_config = Inl ValueError"
  by code_simp

text \<open>A null promote margin is not even rejected cleanly: the validator itself raises \<open>TypeError\<close>.
  A null \<open>link\<close> makes it raise \<open>AttributeError\<close>.\<close>

lemma validator_escapes:
  "validate_effective None (deep_merge default_config [(''dynamicLink'', JObj [(''selector'', JObj [(''snrPromoteMarginDb'', JNull)])])]) = Inl TypeError"
  "validate_effective None (deep_merge default_config [(''link'', JNull)]) = Inl AttributeError"
  by code_simp+

text \<open>What is built from a validated configuration, and what the controller reads of its
  snapshot besides.\<close>

lemma config_builds:
  assumes "validate_effective bfc cfg = Inr ()" "concrete cfg"
  shows "\<exists>snap pc fl g. make_dl_snapshot cfg = Inr snap \<and> build_policy_config snap = Inr (pc, fl) \<and> build_aggregator snap = Inr g
    \<and> good_selector (cfg_selector pc) \<and> good_prior (cfg_prior pc) \<and> cfg_link_width pc \<in> set VALID_WIDTHS \<and> good_aggregator g
    \<and> get_int snap ''linkWidth'' 20 = Inr (cfg_link_width pc) \<and> (\<exists>host. map_of snap ''droneAddr'' = Some host)
    \<and> (\<exists>port. map_of snap ''dronePort'' = Some (JInt port)) \<and> unless_none (dget snap ''tap'' JNull) validate_tap = Inr ()"
proof -
  have c: "dget cfg ''drone'' (JObj []) \<noteq> JNull" "dget cfg ''dynamicLink'' (JObj []) \<noteq> JNull"
    using assms(2) by (simp_all add: concrete_def)
  obtain b where b: "dget cfg ''dynamicLink'' (JObj []) = JObj b" "int_in 0 7 (dget b ''maxMcs'' (JInt 5))"
    "int_in 1 65535 (dget b ''dronePort'' (JInt 9999))"
    "unless_none (dget b ''selector'' JNull) validate_selector = Inr ()" "unless_none (dget b ''smoothing'' JNull) validate_smoothing = Inr ()"
    "unless_none (dget b ''learnedPrior'' JNull) validate_learned_prior = Inr ()"
    "unless_none (dget b ''flightlog'' JNull) validate_flightlog = Inr ()" "unless_none (dget b ''tap'' JNull) validate_tap = Inr ()"
    by (rule validated_dl [OF assms(1) c(2)])
  obtain s where s: "sub_block b ''selector'' = Inr s" "validate_selector (JObj s) = Inr ()" "s = [] \<or> dget b ''selector'' JNull = JObj s"
    by (rule sub_block_ok [OF b(4) empty_blocks(1) block_validators_dict(1)])
  obtain m where m: "sub_block b ''smoothing'' = Inr m" "validate_smoothing (JObj m) = Inr ()" "m = [] \<or> dget b ''smoothing'' JNull = JObj m"
    by (rule sub_block_ok [OF b(5) empty_blocks(2) block_validators_dict(2)])
  obtain l where l: "sub_block b ''learnedPrior'' = Inr l" "validate_learned_prior (JObj l) = Inr ()" "l = [] \<or> dget b ''learnedPrior'' JNull = JObj l"
    by (rule sub_block_ok [OF b(6) empty_blocks(3) block_validators_dict(3)])
  obtain f where f: "sub_block b ''flightlog'' = Inr f" "validate_flightlog (JObj f) = Inr ()" "f = [] \<or> dget b ''flightlog'' JNull = JObj f"
    by (rule sub_block_ok [OF b(7) empty_blocks(4) block_validators_dict(4)])
  have dl: "b = [] \<or> dget cfg ''dynamicLink'' JNull = JObj b"
    using b(1) by (cases "map_of cfg ''dynamicLink''") (simp_all add: dget_def)
  have bl: "x = [] \<or> block name (dget cfg ''dynamicLink'' JNull) = JObj x" if "x = [] \<or> dget b name JNull = JObj x" for x name
    using that dl by (auto simp: block_def)
  have nn: "no_nulls (JObj s)" "no_nulls (JObj m)" "no_nulls (JObj l)"
    using assms(2) bl [OF s(3)] bl [OF m(3)] bl [OF l(3)] by (auto simp: concrete_def no_nulls_def)
  have u: "\<forall>k \<in> set UNCHECKED_KNOBS. case map_of s k of None \<Rightarrow> True | Some v \<Rightarrow> num_with (\<lambda>_. True) v"
    using assms(2) bl [OF s(3)] unfolding concrete_def by (elim conjE disjE) simp_all
  obtain d where d: "dget cfg ''drone'' (JObj []) = JObj d" by (rule validated_drone [OF assms(1) c(1)])
  obtain k where k: "dget cfg ''link'' (JObj []) = JObj k" "check_width cfg (dget k ''width'' JNull) = Inr ()" by (rule validated_link [OF assms(1)])
  have kw: "dget k ''width'' (JInt 20) \<noteq> JNull" using assms(2) k(1) by (simp add: concrete_def)
  obtain w where w: "to_int (dget k ''width'' (JInt 20)) = Inr w" "w \<in> set VALID_WIDTHS"
    using valid_width [OF k(2)] kw by (cases "map_of k ''width''") (auto simp: dget_def to_int_def VALID_WIDTHS_def)
  obtain port where port: "to_int (let v = dget b ''dronePort'' JNull in if truthy v then v else JInt 9999) = Inr port"
    using b(3) by (cases "map_of b ''dronePort''") (auto simp: dget_def int_in_def to_int_def Let_def split: json.splits if_splits)
  define snap where "snap = AList.update ''linkWidth'' (JInt w) (AList.update ''dronePort'' (JInt port)
      (AList.update ''droneAddr'' (dget d ''host'' (JStr ''10.5.0.10'')) b))"
  have sn: "make_dl_snapshot cfg = Inr snap" using b(1) d k(1) w(1) port by (simp add: make_dl_snapshot_def snap_def)
  have same: "sub_block snap name = sub_block b name" if "name \<in> {''selector'', ''smoothing'', ''learnedPrior'', ''flightlog''}" for name
    using that by (auto simp: sub_block_def snap_def dget_update)
  have mcs: "int_in 0 7 (dget snap ''maxMcs'' (JInt 5))" using b(2) by (simp add: snap_def dget_update)
  have wd: "get_int snap ''linkWidth'' 20 = Inr w" by (simp add: get_int_def snap_def dget_update to_int_def)
  obtain sel where sel: "build_selector snap s = Inr sel" "good_selector sel" using build_selector_ok [OF s(2) nn(1) u mcs] by blast
  obtain lp where lp: "build_learned_prior l = Inr lp" "good_prior lp" using build_learned_prior_ok [OF l(2) nn(3)] by blast
  obtain g where g: "build_aggregator snap = Inr g" "good_aggregator g"
    using build_aggregator_ok [OF m(2) nn(2), of snap] same [of "''smoothing''"] m(1) by auto
  have "build_policy_config snap = Inr (\<lparr> cfg_selector = sel, cfg_prior = lp, cfg_link_width = w \<rparr>, truthy (dget f ''enabled'' (JBool True)))"
    using same s(1) l(1) f(1) sel(1) lp(1) wd by (simp add: build_policy_config_def)
  moreover have "map_of snap ''droneAddr'' = Some (dget d ''host'' (JStr ''10.5.0.10''))" "map_of snap ''dronePort'' = Some (JInt port)"
    "dget snap ''tap'' JNull = dget b ''tap'' JNull"
    by (simp_all add: snap_def update_conv' dget_update)
  ultimately show ?thesis using sn g sel(2) lp(2) w(2) wd b(8) by auto
qed

section \<open>Properties\<close>



end
