(* ===== verification/Byte_Codec.thy ===== *)
theory Byte_Codec
  imports Fpvd_Prelude
begin

text \<open>
  \<open>struct.pack\<close> and \<open>struct.unpack\<close> of fixed-width integers: big-endian and little-endian
  byte strings of a number, and the value they read back, unsigned and two's complement.
  Shared by the decision packet, the tap decoder, the tunnel framing and the MAVLink frames.
\<close>

section \<open>Definitions\<close>

fun be_bytes :: "nat \<Rightarrow> int \<Rightarrow> bytes" where
  "be_bytes 0 n = []"
| "be_bytes (Suc k) n = word_of_int (n div 256 ^ k) # be_bytes k n"

fun le_bytes :: "nat \<Rightarrow> int \<Rightarrow> bytes" where
  "le_bytes 0 n = []"
| "le_bytes (Suc k) n = word_of_int n # le_bytes k (n div 256)"

definition be_val :: "bytes \<Rightarrow> int" where
  "be_val bs = foldl (\<lambda>a b. a * 256 + uint b) 0 bs"

fun le_val :: "bytes \<Rightarrow> int" where
  "le_val [] = 0"
| "le_val (b # bs) = uint b + 256 * le_val bs"

text \<open>Two's complement reading of \<open>k\<close> little-endian bytes.\<close>

definition sle_val :: "bytes \<Rightarrow> int" where
  "sle_val bs = (let v = le_val bs; m = 256 ^ length bs in if 2 * v \<ge> m then v - m else v)"

text \<open>\<open>struct.pack\<close> of one field: \<open>struct.error\<close> when the value does not fit.\<close>

definition pack_be :: "nat \<Rightarrow> int \<Rightarrow> bytes res" where
  "pack_be k n = (if 0 \<le> n \<and> n < 256 ^ k then Inr (be_bytes k n) else Inl StructError)"

definition pack_le :: "nat \<Rightarrow> int \<Rightarrow> bytes res" where
  "pack_le k n = (if 0 \<le> n \<and> n < 256 ^ k then Inr (le_bytes k n) else Inl StructError)"

text \<open>\<open>data[off : off + k]\<close>.\<close>

definition slice :: "nat \<Rightarrow> nat \<Rightarrow> 'a list \<Rightarrow> 'a list" where
  "slice off k xs = take k (drop off xs)"

section \<open>Lemmas\<close>

lemma length_be_bytes [simp]: "length (be_bytes k n) = k"
  by (induction k) simp_all

lemma length_le_bytes [simp]: "length (le_bytes k n) = k"
  by (induction k arbitrary: n) simp_all

lemma uint_byte: "uint (word_of_int n :: 8 word) = n mod 256"
  by (simp add: uint_word_of_int)

lemma be_val_fold: "foldl (\<lambda>a b. a * 256 + uint b) s bs = s * 256 ^ length bs + be_val bs"
proof (induction bs arbitrary: s)
  case (Cons b bs)
  show ?case
    unfolding be_val_def foldl_Cons Cons [of "s * 256 + uint b"] Cons [of "0 * 256 + uint b"]
    by (simp add: algebra_simps)
qed (simp add: be_val_def)

lemma be_val_Cons: "be_val (b # bs) = uint b * 256 ^ length bs + be_val bs"
  using be_val_fold [of "uint b" bs] by (simp add: be_val_def)

lemma be_val_Nil [simp]: "be_val [] = 0"
  by (simp add: be_val_def)

lemma mod_256_step: "(n::int) mod (256 * m) = n mod 256 + 256 * (n div 256 mod m)" if "0 < m"
  using that by (simp add: zmod_zmult2_eq)

lemma be_val_be_bytes: "be_val (be_bytes k n) = n mod 256 ^ k"
proof (induction k)
  case (Suc k)
  have "n mod 256 ^ Suc k = (n div 256 ^ k mod 256) * 256 ^ k + n mod 256 ^ k"
    using zmod_zmult2_eq [of 256 n "256 ^ k"] by (simp add: mult.commute)
  then show ?case by (simp add: be_val_Cons Suc uint_byte)
qed simp

lemma le_val_le_bytes: "le_val (le_bytes k n) = n mod 256 ^ k"
  by (induction k arbitrary: n) (simp_all add: uint_byte mod_256_step)

lemma be_val_be_bytes_id: "0 \<le> n \<Longrightarrow> n < 256 ^ k \<Longrightarrow> be_val (be_bytes k n) = n"
  by (simp add: be_val_be_bytes)

lemma le_val_le_bytes_id: "0 \<le> n \<Longrightarrow> n < 256 ^ k \<Longrightarrow> le_val (le_bytes k n) = n"
  by (simp add: le_val_le_bytes)

lemma byte_bounds: "0 \<le> uint (b :: 8 word)" "uint (b :: 8 word) < 256"
  using uint_ge_0 [of b] uint_lt2p [of b] by simp_all

lemma le_val_bounds: "0 \<le> le_val bs \<and> le_val bs < 256 ^ length bs"
proof (induction bs)
  case (Cons b bs)
  then show ?case using byte_bounds [of b] by auto
qed simp

lemma be_val_bounds: "0 \<le> be_val bs \<and> be_val bs < 256 ^ length bs"
proof (induction bs)
  case (Cons b bs)
  have "uint b * 256 ^ length bs \<le> 255 * 256 ^ length bs"
    using byte_bounds [of b] by (intro mult_right_mono) auto
  then have "uint b * 256 ^ length bs + be_val bs < 256 * 256 ^ length bs" using Cons by linarith
  then show ?case using Cons by (simp add: be_val_Cons)
qed simp

lemma le_bytes_le_val: "le_bytes (length bs) (le_val bs) = bs"
proof (induction bs)
  case (Cons b bs)
  have "(uint b + 256 * le_val bs) div 256 = le_val bs"
    using byte_bounds [of b] by simp
  moreover have "uint (word_of_int (uint b + 256 * le_val bs) :: 8 word) = uint b"
    unfolding uint_byte using byte_bounds [of b] by simp
  then have "word_of_int (uint b + 256 * le_val bs) = b" by (simp only: word_uint_eq_iff)
  ultimately show ?case using Cons by (simp only: le_val.simps le_bytes.simps list.size add_Suc_right Nat.add_0_right)
qed simp

text \<open>A signed field round-trips through its two's complement bytes.\<close>

lemma sle_val_le_bytes:
  assumes "0 < k" "- (256 ^ k) \<le> 2 * n" "2 * n < 256 ^ k"
  shows "sle_val (le_bytes k n) = n"
proof (cases "0 \<le> n")
  case True
  then show ?thesis using assms by (simp add: sle_val_def le_val_le_bytes Let_def)
next
  case False
  have "n mod 256 ^ k = (n + 256 ^ k) mod 256 ^ k" by simp
  also have "\<dots> = n + 256 ^ k" using assms False by (intro mod_pos_pos_trivial) auto
  finally show ?thesis using assms False by (simp add: sle_val_def le_val_le_bytes Let_def)
qed

lemma sle_val_bounds: "bs \<noteq> [] \<Longrightarrow> - (256 ^ length bs) \<le> 2 * sle_val bs \<and> 2 * sle_val bs < 256 ^ length bs"
  using le_val_bounds [of bs] by (auto simp: sle_val_def Let_def)

lemma length_slice [simp]: "length (slice off k xs) = min k (length xs - off)"
  by (simp add: slice_def)

lemma slice_append_skip: "length xs = n \<Longrightarrow> slice (n + off) k (xs @ ys) = slice off k ys"
  by (simp add: slice_def)

lemma slice_append_take: "length xs = k \<Longrightarrow> slice 0 k (xs @ ys) = xs"
  by (simp add: slice_def)

end
