(* ===== verification/Tap_Wire.thy ===== *)
theory Tap_Wire
  imports Byte_Codec Signals
begin

text \<open>
  \<open>src/gs/fpvdgs/dynlink/tap_wire.py\<close>: the decoder of the statistics tap's datagrams
  (MICRO and LOSS records, little-endian, fixed layout). \<open>encode_micro\<close> and
  \<open>encode_loss\<close> are the layout of the module's struct formats, the specification the decoder
  is checked against.

  The lemmas show when the decoder raises, and that it inverts the layout.
\<close>

section \<open>Definitions\<close>

definition TAP_TYPE_MICRO :: int where
  "TAP_TYPE_MICRO = 1"

definition TAP_TYPE_LOSS :: int where
  "TAP_TYPE_LOSS = 2"

definition TAP_VERSION :: int where
  "TAP_VERSION = 1"

definition HDR_SIZE :: nat where
  "HDR_SIZE = 33"

definition BUCKET_SIZE :: nat where
  "BUCKET_SIZE = 28"

definition LOSS_SIZE :: nat where
  "LOSS_SIZE = 24"

datatype tap_record = Micro tap_micro | Loss tap_loss

text \<open>An unsigned field of \<open>k\<close> bytes at \<open>off\<close>, and a signed one.\<close>

definition u_at :: "nat \<Rightarrow> nat \<Rightarrow> bytes \<Rightarrow> int" where
  "u_at off k data = le_val (slice off k data)"

definition s_at :: "nat \<Rightarrow> nat \<Rightarrow> bytes \<Rightarrow> int" where
  "s_at off k data = sle_val (slice off k data)"

definition decode_bucket :: "bytes \<Rightarrow> nat \<Rightarrow> rx_ant" where
  "decode_bucket data off =
     \<lparr> a_ant = u_at (off + 4) 8 data, a_freq = u_at off 2 data, a_mcs = u_at (off + 2) 1 data,
       a_bw = u_at (off + 3) 1 data, a_pkt_recv = u_at (off + 12) 4 data,
       a_rssi_min = s_at (off + 16) 1 data, a_rssi_avg = s_at (off + 17) 1 data,
       a_rssi_max = s_at (off + 18) 1 data, a_snr_min = s_at (off + 19) 1 data,
       a_snr_avg = s_at (off + 20) 1 data, a_snr_max = s_at (off + 21) 1 data,
       a_evm_min = s_at (off + 22) 2 data, a_evm_avg = s_at (off + 24) 2 data,
       a_evm_max = s_at (off + 26) 2 data \<rparr>"

fun decode_buckets :: "bytes \<Rightarrow> nat \<Rightarrow> nat \<Rightarrow> rx_ant list" where
  "decode_buckets data off 0 = []"
| "decode_buckets data off (Suc n) = decode_bucket data off # decode_buckets data (off + BUCKET_SIZE) n"

definition decode_loss :: "bytes \<Rightarrow> tap_record option res" where
  "decode_loss data =
     (if length data \<noteq> LOSS_SIZE then Inl TapDecodeError
      else Inr (Some (Loss \<lparr> l_seq = u_at 2 2 data, l_timestamp_ms = u_at 4 8 data,
        l_lost_count = u_at 12 4 data, l_last_seq = u_at 16 4 data, l_new_seq = u_at 20 4 data \<rparr>)))"

definition decode_micro :: "bytes \<Rightarrow> tap_record option res" where
  "decode_micro data =
     (if length data < HDR_SIZE then Inl TapDecodeError
      else let n = nat (u_at 32 1 data) in
        if length data \<noteq> HDR_SIZE + n * BUCKET_SIZE then Inl TapDecodeError
        else Inr (Some (Micro \<lparr> m_seq = u_at 2 2 data, m_timestamp_ms = u_at 4 8 data,
          m_pkt_all = u_at 12 4 data, m_pkt_data = u_at 16 4 data, m_pkt_fec_rec = u_at 20 4 data,
          m_pkt_lost = u_at 24 4 data, m_pkt_out = u_at 28 4 data,
          m_ants = decode_buckets data HDR_SIZE n \<rparr>)))"

definition tap_decode :: "bytes \<Rightarrow> tap_record option res" where
  "tap_decode data =
     (if length data < 2 then Inl TapDecodeError
      else let rtype = uint (data ! 0); version = uint (data ! 1) in
        if version \<noteq> TAP_VERSION \<or> rtype \<notin> {TAP_TYPE_MICRO, TAP_TYPE_LOSS} then Inr None
        else if rtype = TAP_TYPE_LOSS then decode_loss data
        else decode_micro data)"

subsection \<open>The wire layout\<close>

definition encode_bucket :: "rx_ant \<Rightarrow> bytes" where
  "encode_bucket a = le_bytes 2 (a_freq a) @ le_bytes 1 (a_mcs a) @ le_bytes 1 (a_bw a) @
     le_bytes 8 (a_ant a) @ le_bytes 4 (a_pkt_recv a) @ le_bytes 1 (a_rssi_min a) @
     le_bytes 1 (a_rssi_avg a) @ le_bytes 1 (a_rssi_max a) @ le_bytes 1 (a_snr_min a) @
     le_bytes 1 (a_snr_avg a) @ le_bytes 1 (a_snr_max a) @ le_bytes 2 (a_evm_min a) @
     le_bytes 2 (a_evm_avg a) @ le_bytes 2 (a_evm_max a)"

definition encode_micro :: "tap_micro \<Rightarrow> bytes" where
  "encode_micro r = le_bytes 1 TAP_TYPE_MICRO @ le_bytes 1 TAP_VERSION @ le_bytes 2 (m_seq r) @
     le_bytes 8 (m_timestamp_ms r) @ le_bytes 4 (m_pkt_all r) @ le_bytes 4 (m_pkt_data r) @
     le_bytes 4 (m_pkt_fec_rec r) @ le_bytes 4 (m_pkt_lost r) @ le_bytes 4 (m_pkt_out r) @
     le_bytes 1 (int (length (m_ants r))) @ concat (map encode_bucket (m_ants r))"

definition encode_loss :: "tap_loss \<Rightarrow> bytes" where
  "encode_loss r = le_bytes 1 TAP_TYPE_LOSS @ le_bytes 1 TAP_VERSION @ le_bytes 2 (l_seq r) @
     le_bytes 8 (l_timestamp_ms r) @ le_bytes 4 (l_lost_count r) @ le_bytes 4 (l_last_seq r) @
     le_bytes 4 (l_new_seq r)"

definition fits_u :: "nat \<Rightarrow> int \<Rightarrow> bool" where
  "fits_u k n = (0 \<le> n \<and> n < 256 ^ k)"

definition fits_s :: "nat \<Rightarrow> int \<Rightarrow> bool" where
  "fits_s k n = (- (256 ^ k) \<le> 2 * n \<and> 2 * n < 256 ^ k)"

definition ant_fits :: "rx_ant \<Rightarrow> bool" where
  "ant_fits a = (fits_u 2 (a_freq a) \<and> fits_u 1 (a_mcs a) \<and> fits_u 1 (a_bw a) \<and> fits_u 8 (a_ant a) \<and>
     fits_u 4 (a_pkt_recv a) \<and> fits_s 1 (a_rssi_min a) \<and> fits_s 1 (a_rssi_avg a) \<and>
     fits_s 1 (a_rssi_max a) \<and> fits_s 1 (a_snr_min a) \<and> fits_s 1 (a_snr_avg a) \<and>
     fits_s 1 (a_snr_max a) \<and> fits_s 2 (a_evm_min a) \<and> fits_s 2 (a_evm_avg a) \<and> fits_s 2 (a_evm_max a))"

definition micro_fits :: "tap_micro \<Rightarrow> bool" where
  "micro_fits r = (fits_u 2 (m_seq r) \<and> fits_u 8 (m_timestamp_ms r) \<and> fits_u 4 (m_pkt_all r) \<and>
     fits_u 4 (m_pkt_data r) \<and> fits_u 4 (m_pkt_fec_rec r) \<and> fits_u 4 (m_pkt_lost r) \<and>
     fits_u 4 (m_pkt_out r) \<and> length (m_ants r) < 256 \<and> list_all ant_fits (m_ants r))"

definition loss_fits :: "tap_loss \<Rightarrow> bool" where
  "loss_fits r = (fits_u 2 (l_seq r) \<and> fits_u 8 (l_timestamp_ms r) \<and> fits_u 4 (l_lost_count r) \<and>
     fits_u 4 (l_last_seq r) \<and> fits_u 4 (l_new_seq r))"

section \<open>Lemmas\<close>

lemma slice_0 [simp]: "slice 0 k xs = take k xs"
  by (simp add: slice_def)

lemma slice_skip: "length xs \<le> off \<Longrightarrow> slice off k (xs @ ys) = slice (off - length xs) k ys"
  by (simp add: slice_def)

lemma le_val_fits: "fits_u k n \<Longrightarrow> le_val (le_bytes k n) = n"
  by (simp add: fits_u_def le_val_le_bytes_id)

lemma sle_val_fits: "0 < k \<Longrightarrow> fits_s k n \<Longrightarrow> sle_val (le_bytes k n) = n"
  by (simp add: fits_s_def sle_val_le_bytes)

lemma length_encode_bucket [simp]: "length (encode_bucket a) = BUCKET_SIZE"
  by (simp add: encode_bucket_def BUCKET_SIZE_def)

lemma decode_encode_bucket:
  assumes "ant_fits a"
  shows "decode_bucket (pre @ encode_bucket a @ post) (length pre) = a"
  using assms
  by (simp add: decode_bucket_def u_at_def s_at_def slice_skip encode_bucket_def ant_fits_def
      le_val_fits sle_val_fits del: le_bytes.simps)

lemma decode_encode_buckets:
  "list_all ant_fits ants \<Longrightarrow>
     decode_buckets (pre @ concat (map encode_bucket ants)) (length pre) (length ants) = ants"
proof (induction ants arbitrary: pre)
  case (Cons a ants)
  then show ?case
    using decode_encode_bucket [of a pre "concat (map encode_bucket ants)"] Cons.IH [of "pre @ encode_bucket a"]
    by simp
qed simp

lemma length_buckets: "length (concat (map encode_bucket ants)) = length ants * BUCKET_SIZE"
  by (induction ants) simp_all

text \<open>Conversely, the bytes of a decoded field are the bytes it was read from.\<close>

lemma le_bytes_mod: "le_bytes k (n mod 256 ^ k) = le_bytes k n"
proof -
  have "le_bytes k (le_val (le_bytes k n)) = le_bytes k n"
    using le_bytes_le_val [of "le_bytes k n"] by simp
  then show ?thesis by (simp add: le_val_le_bytes)
qed

lemma le_bytes_u_at: "off + k \<le> length data \<Longrightarrow> le_bytes k (u_at off k data) = slice off k data"
  using le_bytes_le_val [of "slice off k data"] by (simp add: u_at_def)

lemma le_bytes_s_at: "off + k \<le> length data \<Longrightarrow> le_bytes k (s_at off k data) = slice off k data"
proof -
  assume len: "off + k \<le> length data"
  let ?b = "slice off k data"
  have "s_at off k data mod 256 ^ k = le_val ?b mod 256 ^ k"
    using len by (simp add: s_at_def sle_val_def Let_def min_absorb1)
  then have "le_bytes k (s_at off k data) = le_bytes k (le_val ?b)" by (metis le_bytes_mod)
  then show ?thesis using le_bytes_le_val [of ?b] len by simp
qed

lemma slice_drop: "slice off k xs @ drop (off + k) xs = drop off xs"
  by (simp add: slice_def add.commute flip: drop_drop)

lemma slice_join:
  "slice off a xs @ slice (off + a) b xs = slice off (a + b) xs"
  "slice off a xs @ slice (off + a) b xs @ ys = slice off (a + b) xs @ ys"
  by (simp_all add: slice_def take_add add.commute flip: drop_drop append_assoc)

lemma encode_decode_bucket:
  assumes "off + BUCKET_SIZE \<le> length data"
  shows "encode_bucket (decode_bucket data off) = slice off BUCKET_SIZE data"
proof -
  have "encode_bucket (decode_bucket data off) = slice off 2 data @ slice (off + 2) 1 data @
      slice (off + 3) 1 data @ slice (off + 4) 8 data @ slice (off + 12) 4 data @ slice (off + 16) 1 data @
      slice (off + 17) 1 data @ slice (off + 18) 1 data @ slice (off + 19) 1 data @ slice (off + 20) 1 data @
      slice (off + 21) 1 data @ slice (off + 22) 2 data @ slice (off + 24) 2 data @ slice (off + 26) 2 data"
    using assms unfolding BUCKET_SIZE_def
    by (simp add: encode_bucket_def decode_bucket_def le_bytes_u_at le_bytes_s_at del: le_bytes.simps)
  also have "\<dots> = slice off BUCKET_SIZE data"
    by (simp add: slice_join BUCKET_SIZE_def del: add_2_eq_Suc' One_nat_def)
  finally show ?thesis .
qed

lemma encode_decode_buckets:
  "length data = off + n * BUCKET_SIZE \<Longrightarrow>
     concat (map encode_bucket (decode_buckets data off n)) = drop off data"
proof (induction n arbitrary: off)
  case (Suc n)
  then have "encode_bucket (decode_bucket data off) = slice off BUCKET_SIZE data"
    by (intro encode_decode_bucket) simp
  then show ?case using Suc slice_drop [of off BUCKET_SIZE data] by simp
qed simp

lemma length_decode_buckets [simp]: "length (decode_buckets data off n) = n"
  by (induction n arbitrary: off) simp_all

lemma u_at_fits: "fits_u k (u_at off k data)"
proof -
  have "(256::int) ^ length (slice off k data) \<le> 256 ^ k" by (rule power_increasing) auto
  with le_val_bounds [of "slice off k data"] have "le_val (slice off k data) < 256 ^ k"
    by (metis less_le_trans)
  then show ?thesis using le_val_bounds [of "slice off k data"] by (simp add: fits_u_def u_at_def)
qed

lemma s_at_fits: "off + k \<le> length data \<Longrightarrow> 0 < k \<Longrightarrow> fits_s k (s_at off k data)"
proof -
  assume h: "off + k \<le> length data" "0 < k"
  then have len: "length (slice off k data) = k" by simp
  with h have "slice off k data \<noteq> []" by force
  from sle_val_bounds [OF this] show ?thesis unfolding len fits_s_def s_at_def .
qed

lemma decode_bucket_fits: "off + BUCKET_SIZE \<le> length data \<Longrightarrow> ant_fits (decode_bucket data off)"
  by (simp add: ant_fits_def decode_bucket_def u_at_fits s_at_fits BUCKET_SIZE_def)

lemma decode_buckets_fit:
  "length data = off + n * BUCKET_SIZE \<Longrightarrow> list_all ant_fits (decode_buckets data off n)"
  by (induction n arbitrary: off) (simp_all add: decode_bucket_fits)

lemma u_at_byte: "off < length data \<Longrightarrow> u_at off 1 data = uint (data ! off)"
  by (simp add: u_at_def slice_def take_Suc hd_drop_conv_nth)

lemma decode_encode_micro:
  assumes "micro_fits r"
  shows "tap_decode (encode_micro r) = Inr (Some (Micro r))"
proof -
  let ?d = "encode_micro r" and ?b = "concat (map encode_bucket (m_ants r))"
  define pre where "pre = take HDR_SIZE ?d"
  have enc: "?d = pre @ ?b" and len: "length pre = HDR_SIZE"
    by (simp_all add: pre_def encode_micro_def HDR_SIZE_def del: le_bytes.simps)
  have size: "length ?d = HDR_SIZE + length (m_ants r) * BUCKET_SIZE"
    using len by (simp add: enc length_buckets)
  have n: "fits_u 1 (int (length (m_ants r)))" using assms by (simp add: micro_fits_def fits_u_def)
  have hdr: "u_at 0 1 ?d = TAP_TYPE_MICRO" "u_at 1 1 ?d = TAP_VERSION" "u_at 2 2 ?d = m_seq r"
    "u_at 4 8 ?d = m_timestamp_ms r" "u_at 12 4 ?d = m_pkt_all r" "u_at 16 4 ?d = m_pkt_data r"
    "u_at 20 4 ?d = m_pkt_fec_rec r" "u_at 24 4 ?d = m_pkt_lost r" "u_at 28 4 ?d = m_pkt_out r"
    "u_at 32 1 ?d = int (length (m_ants r))"
    using assms n
    by (simp_all add: micro_fits_def u_at_def encode_micro_def slice_skip le_val_fits del: le_bytes.simps)
      (simp_all add: le_val_le_bytes TAP_TYPE_MICRO_def TAP_VERSION_def del: le_bytes.simps)
  have ants: "decode_buckets ?d HDR_SIZE (length (m_ants r)) = m_ants r"
    using decode_encode_buckets [of "m_ants r" pre] assms len by (simp add: enc micro_fits_def)
  have "uint (?d ! 0) = TAP_TYPE_MICRO" "uint (?d ! 1) = TAP_VERSION"
    using hdr(1,2) u_at_byte [of 0 ?d] u_at_byte [of 1 ?d] size by (simp_all add: HDR_SIZE_def)
  then show ?thesis
    using size hdr(3-) ants
    by (simp add: tap_decode_def decode_micro_def Let_def TAP_TYPE_MICRO_def TAP_TYPE_LOSS_def HDR_SIZE_def)
qed

lemma decode_encode_loss:
  assumes "loss_fits l"
  shows "tap_decode (encode_loss l) = Inr (Some (Loss l))"
proof -
  let ?d = "encode_loss l"
  have size: "length ?d = LOSS_SIZE" by (simp add: encode_loss_def LOSS_SIZE_def del: le_bytes.simps)
  have hdr: "u_at 0 1 ?d = TAP_TYPE_LOSS" "u_at 1 1 ?d = TAP_VERSION" "u_at 2 2 ?d = l_seq l"
    "u_at 4 8 ?d = l_timestamp_ms l" "u_at 12 4 ?d = l_lost_count l" "u_at 16 4 ?d = l_last_seq l"
    "u_at 20 4 ?d = l_new_seq l"
    using assms
    by (simp_all add: loss_fits_def u_at_def encode_loss_def slice_skip le_val_fits del: le_bytes.simps)
      (simp_all add: le_val_le_bytes TAP_TYPE_LOSS_def TAP_VERSION_def del: le_bytes.simps)
  have "uint (?d ! 0) = TAP_TYPE_LOSS" "uint (?d ! 1) = TAP_VERSION"
    using hdr(1,2) u_at_byte [of 0 ?d] u_at_byte [of 1 ?d] size by (simp_all add: LOSS_SIZE_def)
  then show ?thesis
    using size hdr(3-) by (simp add: tap_decode_def decode_loss_def Let_def LOSS_SIZE_def)
qed

lemma first_bytes:
  assumes "2 \<le> length data"
  shows "le_bytes 1 (uint (data ! 0)) = slice 0 1 data" "le_bytes 1 (uint (data ! 1)) = slice 1 1 data"
proof -
  have "0 < length data" "1 < length data" using assms by linarith+
  from this [THEN u_at_byte] show "le_bytes 1 (uint (data ! 0)) = slice 0 1 data"
    "le_bytes 1 (uint (data ! 1)) = slice 1 1 data"
    using le_bytes_u_at [of 0 1 data] le_bytes_u_at [of 1 1 data] assms by (metis add_0 le_trans one_le_numeral)
      (metis le_bytes_u_at [of 1 1 data] assms nat_1_add_1 u_at_byte [of 1 data] \<open>1 < length data\<close>)
qed

lemma slice_join_0:
  "slice 0 a xs @ slice a b xs @ ys = slice 0 (a + b) xs @ ys" "slice 0 a xs @ slice a b xs = slice 0 (a + b) xs"
  "slice 0 a xs @ drop a xs = xs"
  using slice_join [of 0 a xs b] by (simp_all del: slice_0) (simp add: slice_def)

lemma encode_decode_micro:
  assumes "tap_decode data = Inr (Some (Micro r))"
  shows "micro_fits r \<and> encode_micro r = data"
proof -
  define n where "n = nat (u_at 32 1 data)"
  have ty: "2 \<le> length data" "uint (data ! 1) = TAP_VERSION" "uint (data ! 0) = TAP_TYPE_MICRO"
    and dec: "decode_micro data = Inr (Some (Micro r))"
    using assms by (auto simp: tap_decode_def decode_loss_def Let_def split: if_splits)
  have size: "length data = HDR_SIZE + n * BUCKET_SIZE"
    and r: "r = \<lparr> m_seq = u_at 2 2 data, m_timestamp_ms = u_at 4 8 data, m_pkt_all = u_at 12 4 data,
      m_pkt_data = u_at 16 4 data, m_pkt_fec_rec = u_at 20 4 data, m_pkt_lost = u_at 24 4 data,
      m_pkt_out = u_at 28 4 data, m_ants = decode_buckets data HDR_SIZE n \<rparr>"
    using dec by (auto simp: decode_micro_def Let_def n_def split: if_splits)
  have n: "int n = u_at 32 1 data" "n < 256"
    using u_at_fits [of 1 32 data] by (auto simp: n_def fits_u_def)
  have "micro_fits r"
    using size n by (simp add: r micro_fits_def u_at_fits decode_buckets_fit)
  moreover have "encode_micro r = slice 0 1 data @ slice 1 1 data @ slice 2 2 data @ slice 4 8 data @
      slice 12 4 data @ slice 16 4 data @ slice 20 4 data @ slice 24 4 data @ slice 28 4 data @
      slice 32 1 data @ drop HDR_SIZE data"
    using size encode_decode_buckets [of data HDR_SIZE n] first_bytes [OF ty(1)] ty
    by (simp add: r encode_micro_def le_bytes_u_at n(1) HDR_SIZE_def del: le_bytes.simps slice_0 One_nat_def)
  moreover have "\<dots> = data"
    by (simp add: slice_join_0 HDR_SIZE_def del: slice_0 One_nat_def)
  ultimately show ?thesis by simp
qed

lemma encode_decode_loss:
  assumes "tap_decode data = Inr (Some (Loss l))"
  shows "loss_fits l \<and> encode_loss l = data"
proof -
  have ty: "2 \<le> length data" "uint (data ! 1) = TAP_VERSION" "uint (data ! 0) = TAP_TYPE_LOSS"
    and dec: "decode_loss data = Inr (Some (Loss l))"
    using assms by (auto simp: tap_decode_def decode_micro_def Let_def split: if_splits)
  have size: "length data = LOSS_SIZE"
    and l: "l = \<lparr> l_seq = u_at 2 2 data, l_timestamp_ms = u_at 4 8 data,
        l_lost_count = u_at 12 4 data, l_last_seq = u_at 16 4 data, l_new_seq = u_at 20 4 data \<rparr>"
    using dec by (auto simp: decode_loss_def split: if_splits)
  have "encode_loss l = slice 0 1 data @ slice 1 1 data @ slice 2 2 data @ slice 4 8 data @
      slice 12 4 data @ slice 16 4 data @ slice 20 4 data"
    using size first_bytes [OF ty(1)] ty
    by (simp add: l encode_loss_def le_bytes_u_at LOSS_SIZE_def del: le_bytes.simps slice_0 One_nat_def)
  also have "\<dots> = data"
    using size by (simp add: slice_join_0 LOSS_SIZE_def del: slice_0 One_nat_def) (simp add: slice_def)
  finally show ?thesis by (simp add: l loss_fits_def u_at_fits)
qed

section \<open>Properties\<close>

text \<open>C31. The tap decoder is the exact inverse of the wire layout. Every MICRO record whose
  fields fit their widths (at most 255 antennas) and every LOSS record is read back from its
  bytes; conversely whatever the decoder accepts as a record has fitting fields and is the
  encoding of that record, so no other datagram is accepted.\<close>

theorem tap_decode_exact:
  "(tap_decode data = Inr (Some (Micro r)) \<longleftrightarrow> micro_fits r \<and> data = encode_micro r) \<and>
   (tap_decode data = Inr (Some (Loss l)) \<longleftrightarrow> loss_fits l \<and> data = encode_loss l)"
  using decode_encode_micro decode_encode_loss encode_decode_micro encode_decode_loss by metis

end
