(* ===== verification/Probe.thy ===== *)
theory Probe
  imports Signals
begin

text \<open>
  \<open>src/gs/fpvdgs/probe/parser.py\<close> and \<open>src/gs/fpvdgs/probe/feed.py\<close>: the loss measurement of
  the probe stream. Lines of the probe's receiver are parsed, labelled with the rung of the last
  \<open>RX_ANT\<close> line and folded into a smoothed packet error rate per rung; a snapshot marks an
  estimate as fresh when a window that carried packets is at most half a second old.

  \<open>labelled\<close> reads a log of lines as the measurement windows it contains. The lemmas show that the
  feed is a function of those windows, rung by rung: the error rate of a rung is the fold of its
  own windows, its freshness the time of its last window with packets.
\<close>

section \<open>Definitions\<close>

datatype probe_rec = PRxAnt int int int | PPkt int int int

text \<open>\<open>line.rstrip("\\n")\<close>.\<close>

definition rstrip_nl :: "string \<Rightarrow> string" where
  "rstrip_nl s = rev (dropWhile (\<lambda>c. c = CHR 0x0A) (rev s))"

definition parse_line :: "string \<Rightarrow> probe_rec option" where
  "parse_line line =
     (let cols = split_on CHR 0x09 (rstrip_nl line) in
      if length cols < 3 then None
      else let kind = cols ! 1 in
        if kind = ''RX_ANT'' \<and> 5 \<le> length cols
        then (case parse_ints (split_on CHR '':'' (cols ! 2)) of
                Some [freq, mcs, bw] \<Rightarrow>
                  (case parse_ints (split_on CHR '':'' (cols ! 4)) of
                     None \<Rightarrow> None
                   | Some vals \<Rightarrow> if length vals < 7 then None else Some (PRxAnt mcs (vals ! 2) (vals ! 5)))
              | _ \<Rightarrow> None)
        else if kind = ''PKT''
        then (case parse_ints (split_on CHR '':'' (cols ! 2)) of
                None \<Rightarrow> None
              | Some f \<Rightarrow> if length f < 8 then None else Some (PPkt (f ! 4) (f ! 6) (f ! 7)))
        else None)"

subsection \<open>McsAggregator\<close>

record mcs_slot =
  sl_per :: "real option"
  sl_rssi :: "int option"
  sl_snr :: "int option"
  sl_windows :: nat
  sl_empty :: nat

definition new_slot :: mcs_slot where
  "new_slot = \<lparr> sl_per = None, sl_rssi = None, sl_snr = None, sl_windows = 0, sl_empty = 0 \<rparr>"

record mcs_aggregator =
  ag_alpha :: real
  blackout_windows :: nat
  slots :: "(int \<times> mcs_slot) list"

text \<open>\<open>_slot\<close>: the slot of a rung, created when absent; the update is done in place.\<close>

definition slot :: "int \<Rightarrow> mcs_aggregator \<Rightarrow> mcs_slot" where
  "slot mcs a = (case map_of (slots a) mcs of None \<Rightarrow> new_slot | Some s \<Rightarrow> s)"

definition with_slot :: "int \<Rightarrow> (mcs_slot \<Rightarrow> mcs_slot) \<Rightarrow> mcs_aggregator \<Rightarrow> mcs_aggregator" where
  "with_slot mcs f a = a\<lparr> slots := AList.update mcs (f (slot mcs a)) (slots a) \<rparr>"

definition on_rx_ant :: "int \<Rightarrow> int \<Rightarrow> int \<Rightarrow> mcs_aggregator \<Rightarrow> mcs_aggregator" where
  "on_rx_ant mcs rssi snr = with_slot mcs (\<lambda>s. s\<lparr> sl_rssi := Some rssi, sl_snr := Some snr \<rparr>)"

text \<open>The body of \<open>on_pkt\<close> for its slot.\<close>

definition slot_pkt :: "real \<Rightarrow> nat \<Rightarrow> int \<Rightarrow> int \<Rightarrow> mcs_slot \<Rightarrow> mcs_slot" where
  "slot_pkt alpha blackout data lost s =
     (let denom = data + lost in
      if denom \<le> 0
      then let s1 = s\<lparr> sl_empty := Suc (sl_empty s) \<rparr>
           in if sl_empty s1 \<ge> blackout then s1\<lparr> sl_per := Some 1 \<rparr> else s1
      else let win_per = real_of_int lost / real_of_int denom
           in s\<lparr> sl_empty := 0,
                 sl_per := Some (case sl_per s of None \<Rightarrow> win_per | Some v \<Rightarrow> alpha * win_per + (1 - alpha) * v),
                 sl_windows := Suc (sl_windows s) \<rparr>)"

definition on_pkt :: "int \<Rightarrow> int \<Rightarrow> int \<Rightarrow> mcs_aggregator \<Rightarrow> mcs_aggregator" where
  "on_pkt mcs data lost a = with_slot mcs (slot_pkt (ag_alpha a) (blackout_windows a) data lost) a"

text \<open>\<open>snapshot\<close> leaves out the private counter of empty windows.\<close>

definition agg_snapshot :: "mcs_aggregator \<Rightarrow> (int \<times> real option \<times> int option \<times> int option \<times> nat) list" where
  "agg_snapshot a = map (\<lambda>(mcs, s). (mcs, sl_per s, sl_rssi s, sl_snr s, sl_windows s)) (slots a)"

subsection \<open>ProbeFeed\<close>

definition PROBE_FRESH_S :: real where "PROBE_FRESH_S = 1 / 2"
definition PROBE_EWMA_ALPHA :: real where "PROBE_EWMA_ALPHA = 1 / 4"
definition PROBE_BLACKOUT_WINDOWS :: nat where "PROBE_BLACKOUT_WINDOWS = 10"

record probe_feed =
  pf_agg :: mcs_aggregator
  last_mcs :: "int option"
  updated :: "int \<rightharpoonup> real"

definition new_probe_feed :: probe_feed where
  "new_probe_feed = \<lparr> pf_agg = \<lparr> ag_alpha = PROBE_EWMA_ALPHA, blackout_windows = PROBE_BLACKOUT_WINDOWS, slots = [] \<rparr>,
     last_mcs = None, updated = Map.empty \<rparr>"

definition probe_feed_line :: "real \<Rightarrow> string \<Rightarrow> probe_feed \<Rightarrow> probe_feed" where
  "probe_feed_line now line p = (case parse_line line of
     None \<Rightarrow> p
   | Some (PRxAnt mcs rssi snr) \<Rightarrow> p\<lparr> last_mcs := Some mcs, pf_agg := on_rx_ant mcs rssi snr (pf_agg p) \<rparr>
   | Some (PPkt data fec_rec lost) \<Rightarrow>
       (case last_mcs p of
          None \<Rightarrow> p
        | Some mcs \<Rightarrow>
            let p1 = p\<lparr> pf_agg := on_pkt mcs data lost (pf_agg p) \<rparr>
            in if data + lost > 0 then p1\<lparr> updated := (updated p1)(mcs \<mapsto> now) \<rparr> else p1))"

record fresh_per =
  f_per :: real
  f_snr :: "int option"
  f_fresh :: bool

definition is_fresh :: "real \<Rightarrow> probe_feed \<Rightarrow> int \<Rightarrow> bool" where
  "is_fresh now p mcs = (case updated p mcs of None \<Rightarrow> False | Some t \<Rightarrow> now - t \<le> PROBE_FRESH_S)"

definition snapshot_fresh :: "real \<Rightarrow> probe_feed \<Rightarrow> (int \<times> fresh_per) list" where
  "snapshot_fresh now p =
     List.map_filter (\<lambda>(mcs, per, rssi, snr, w). case per of
         None \<Rightarrow> None
       | Some v \<Rightarrow> Some (mcs, \<lparr> f_per = v, f_snr = snr, f_fresh = is_fresh now p mcs \<rparr>))
       (agg_snapshot (pf_agg p))"

subsection \<open>Logs\<close>

definition feed_log :: "(real \<times> string) list \<Rightarrow> probe_feed" where
  "feed_log ls = foldl (\<lambda>p (now, line). probe_feed_line now line p) new_probe_feed ls"

text \<open>The measurement windows of a log: time, rung, packets received and lost.\<close>

fun labelled :: "int option \<Rightarrow> (real \<times> string) list \<Rightarrow> (real \<times> int \<times> int \<times> int) list" where
  "labelled label [] = []"
| "labelled label ((now, line) # ls) = (case parse_line line of
     None \<Rightarrow> labelled label ls
   | Some (PRxAnt mcs _ _) \<Rightarrow> labelled (Some mcs) ls
   | Some (PPkt data _ lost) \<Rightarrow>
       (case label of None \<Rightarrow> labelled label ls | Some mcs \<Rightarrow> (now, mcs, data, lost) # labelled label ls))"

definition carried :: "real \<times> int \<times> int \<times> int \<Rightarrow> bool" where
  "carried w = (case w of (_, _, data, lost) \<Rightarrow> data + lost > 0)"

definition of_rung :: "int \<Rightarrow> (real \<times> int \<times> int \<times> int) list \<Rightarrow> (real \<times> int \<times> int \<times> int) list" where
  "of_rung mcs ws = filter (\<lambda>(_, r, _). r = mcs) ws"

text \<open>The smoothed error rate and the run of empty windows after a sequence of windows.\<close>

fun per_of :: "(real \<times> int \<times> int \<times> int) list \<Rightarrow> real option \<times> nat \<Rightarrow> real option \<times> nat" where
  "per_of [] pe = pe"
| "per_of ((t, r, data, lost) # ws) (per, gap) =
     (if data + lost \<le> 0
      then per_of ws (if Suc gap \<ge> PROBE_BLACKOUT_WINDOWS then Some 1 else per, Suc gap)
      else let x = real_of_int lost / real_of_int (data + lost)
           in per_of ws (Some (case per of None \<Rightarrow> x | Some v \<Rightarrow> PROBE_EWMA_ALPHA * x + (1 - PROBE_EWMA_ALPHA) * v), 0))"

definition last_carried :: "int \<Rightarrow> (real \<times> int \<times> int \<times> int) list \<Rightarrow> real option" where
  "last_carried mcs ws = (let cs = filter carried (of_rung mcs ws) in if cs = [] then None else Some (fst (last cs)))"

text \<open>The settings of the feed, and one slot per rung.\<close>

definition feed_settings :: "probe_feed \<Rightarrow> bool" where
  "feed_settings p = (ag_alpha (pf_agg p) = PROBE_EWMA_ALPHA \<and> blackout_windows (pf_agg p) = PROBE_BLACKOUT_WINDOWS
     \<and> distinct (map fst (slots (pf_agg p))))"

text \<open>Lines for an example: rung 3, then a window with three packets and one loss.\<close>

definition rx_ant_sample :: string where
  "rx_ant_sample = ''1'' @ [CHR 0x09] @ ''RX_ANT'' @ [CHR 0x09] @ ''5805:3:20'' @ [CHR 0x09] @ ''0'' @ [CHR 0x09] @ ''9:-60:-59:-58:20:21:22''"

definition pkt_sample :: string where
  "pkt_sample = ''1'' @ [CHR 0x09] @ ''PKT'' @ [CHR 0x09] @ ''4:0:0:0:3:0:0:1:0:0:0''"

section \<open>Lemmas\<close>

lemma slot_with_slot [simp]: "slot m (with_slot mcs f a) = (if m = mcs then f (slot mcs a) else slot m a)"
  by (simp add: slot_def with_slot_def update_conv')

lemma with_slot_settings [simp]:
  "ag_alpha (with_slot mcs f a) = ag_alpha a" "blackout_windows (with_slot mcs f a) = blackout_windows a"
  by (simp_all add: with_slot_def)

lemma feed_settings_step: "feed_settings p \<Longrightarrow> feed_settings (probe_feed_line now line p)"
  by (auto simp: feed_settings_def probe_feed_line_def on_rx_ant_def on_pkt_def with_slot_def Let_def distinct_update
      split: option.split probe_rec.split)

lemma feed_line_slot:
  assumes "feed_settings p"
  shows "(sl_per (slot m (pf_agg (probe_feed_line now line p))), sl_empty (slot m (pf_agg (probe_feed_line now line p)))) =
      per_of (of_rung m (labelled (last_mcs p) [(now, line)])) (sl_per (slot m (pf_agg p)), sl_empty (slot m (pf_agg p)))"
  using assms
  by (auto simp: feed_settings_def probe_feed_line_def on_rx_ant_def on_pkt_def slot_pkt_def of_rung_def Let_def
      split: option.split probe_rec.split)

lemma feed_line_updated:
  "updated (probe_feed_line now line p) m =
     (case last_carried m (labelled (last_mcs p) [(now, line)]) of None \<Rightarrow> updated p m | Some t \<Rightarrow> Some t)"
  by (auto simp: probe_feed_line_def last_carried_def of_rung_def carried_def Let_def split: option.split probe_rec.split)

lemma labelled_cons:
  "labelled (last_mcs p) ((now, line) # ls) =
     labelled (last_mcs p) [(now, line)] @ labelled (last_mcs (probe_feed_line now line p)) ls"
  by (simp add: probe_feed_line_def Let_def split: option.split probe_rec.split)

lemma per_of_append: "per_of (xs @ ys) pe = per_of ys (per_of xs pe)"
  by (induction xs pe rule: per_of.induct) (auto simp: Let_def)

lemma of_rung_append [simp]: "of_rung m (xs @ ys) = of_rung m xs @ of_rung m ys"
  by (simp add: of_rung_def)

lemma last_carried_append:
  "last_carried m (xs @ ys) = (case last_carried m ys of None \<Rightarrow> last_carried m xs | Some t \<Rightarrow> Some t)"
  by (simp add: last_carried_def Let_def)

lemma feed_fold:
  assumes "feed_settings p"
  defines "q \<equiv> \<lambda>p ls. foldl (\<lambda>p (now, line). probe_feed_line now line p) p ls"
  shows "feed_settings (q p ls) \<and>
    (sl_per (slot m (pf_agg (q p ls))), sl_empty (slot m (pf_agg (q p ls)))) =
      per_of (of_rung m (labelled (last_mcs p) ls)) (sl_per (slot m (pf_agg p)), sl_empty (slot m (pf_agg p))) \<and>
    updated (q p ls) m = (case last_carried m (labelled (last_mcs p) ls) of None \<Rightarrow> updated p m | Some t \<Rightarrow> Some t)"
  using assms(1) unfolding q_def
proof (induction ls arbitrary: p)
  case (Cons a ls)
  obtain now line where a: "a = (now, line)" by (cases a)
  let ?p = "probe_feed_line now line p"
  note lc = labelled_cons [of p now line ls]
  have IH: "feed_settings (foldl (\<lambda>p (now, line). probe_feed_line now line p) ?p ls) \<and>
    (sl_per (slot m (pf_agg (foldl (\<lambda>p (now, line). probe_feed_line now line p) ?p ls))),
     sl_empty (slot m (pf_agg (foldl (\<lambda>p (now, line). probe_feed_line now line p) ?p ls)))) =
      per_of (of_rung m (labelled (last_mcs ?p) ls)) (sl_per (slot m (pf_agg ?p)), sl_empty (slot m (pf_agg ?p))) \<and>
    updated (foldl (\<lambda>p (now, line). probe_feed_line now line p) ?p ls) m =
      (case last_carried m (labelled (last_mcs ?p) ls) of None \<Rightarrow> updated ?p m | Some t \<Rightarrow> Some t)"
    using Cons feed_settings_step by blast
  show ?case unfolding a lc of_rung_append per_of_append last_carried_append
    using IH feed_line_slot [OF Cons.prems, of m now line] feed_line_updated [of now line p m]
    by (simp split: option.split)
qed (simp add: last_carried_def of_rung_def)

lemma feed_log_spec:
  "feed_settings (feed_log ls)"
  "sl_per (slot m (pf_agg (feed_log ls))) = fst (per_of (of_rung m (labelled None ls)) (None, 0))"
  "updated (feed_log ls) m = last_carried m (labelled None ls)"
proof -
  have n: "feed_settings new_probe_feed" "last_mcs new_probe_feed = None" "slot m (pf_agg new_probe_feed) = new_slot"
    "updated new_probe_feed m = None"
    by (simp_all add: feed_settings_def new_probe_feed_def slot_def)
  note f = feed_fold [OF n(1), of ls m, folded feed_log_def, unfolded n(2,3,4)]
  show "feed_settings (feed_log ls)" using f by simp
  show "sl_per (slot m (pf_agg (feed_log ls))) = fst (per_of (of_rung m (labelled None ls)) (None, 0))"
    using f by (simp add: new_slot_def) (metis fst_conv)
  show "updated (feed_log ls) m = last_carried m (labelled None ls)" using f by (simp split: option.splits)
qed

lemma per_of_bounds:
  assumes "\<forall>(t, r, data, lost) \<in> set ws. 0 \<le> data \<and> 0 \<le> lost"
    and "\<forall>v. per = Some v \<longrightarrow> 0 \<le> v \<and> v \<le> 1" "fst (per_of ws (per, gap)) = Some x"
  shows "0 \<le> x \<and> x \<le> 1"
  using assms
proof (induction ws arbitrary: per gap)
  case (Cons w ws)
  obtain t r data lost where w: "w = (t, r, data, lost)" by (cases w) auto
  show ?case
  proof (cases "data + lost \<le> 0")
    case True
    then show ?thesis
      using Cons.IH [of "if Suc gap \<ge> PROBE_BLACKOUT_WINDOWS then Some 1 else per" "Suc gap"] Cons.prems w by (simp split: if_splits)
  next
    case False
    define y where "y = real_of_int lost / real_of_int (data + lost)"
    have y: "0 \<le> y" "y \<le> 1" using Cons.prems(1) w False by (auto simp: y_def)
    define v where "v = (case per of None \<Rightarrow> y | Some v \<Rightarrow> PROBE_EWMA_ALPHA * y + (1 - PROBE_EWMA_ALPHA) * v)"
    have "0 \<le> v \<and> v \<le> 1"
      using y Cons.prems(2) by (auto simp: v_def PROBE_EWMA_ALPHA_def split: option.split)
    moreover have "per_of (w # ws) (per, gap) = per_of ws (Some v, 0)" using w False by (simp add: v_def y_def Let_def split: option.split)
    ultimately show ?thesis using Cons.IH [of "Some v" 0] Cons.prems(1,3) by simp
  qed
qed simp

lemma snapshot_fresh_iff:
  assumes "feed_settings p"
  shows "map_of (snapshot_fresh now p) m =
    map_option (\<lambda>v. \<lparr> f_per = v, f_snr = sl_snr (slot m (pf_agg p)), f_fresh = is_fresh now p m \<rparr>) (sl_per (slot m (pf_agg p)))"
proof -
  have h: "distinct (map fst xs) \<Longrightarrow>
    map_of (List.map_filter (\<lambda>(mcs, per, rssi, snr, w). case per of None \<Rightarrow> None
       | Some v \<Rightarrow> Some (mcs, \<lparr> f_per = v, f_snr = snr, f_fresh = is_fresh now p mcs \<rparr>))
       (map (\<lambda>(mcs, s). (mcs, sl_per s, sl_rssi s, sl_snr s, sl_windows s)) xs)) m =
    (case map_of xs m of None \<Rightarrow> None | Some s \<Rightarrow>
      map_option (\<lambda>v. \<lparr> f_per = v, f_snr = sl_snr s, f_fresh = is_fresh now p m \<rparr>) (sl_per s))" for xs
  proof (induction xs)
    case (Cons a xs)
    obtain r sl where a: "a = (r, sl)" by (cases a)
    have "map_of xs r = None" using Cons.prems a by (simp add: map_of_eq_None_iff)
    then show ?case using Cons a by (cases "sl_per sl") (auto simp: map_filter_simps)
  qed (simp add: map_filter_simps)
  show ?thesis
    using h [of "slots (pf_agg p)"] assms by (simp add: feed_settings_def snapshot_fresh_def agg_snapshot_def slot_def new_slot_def split: option.split)
qed

section \<open>Properties\<close>

text \<open>C32. The probe measurement is a function of the windows of its own rung. After any log of
  receiver lines whose counters are not negative, a snapshot has an entry for a rung exactly when
  the fold of that rung's windows has an estimate; the packet error rate is that estimate, it lies
  between 0 and 1, and it is fresh exactly when the rung's last window with packets is at most
  half a second old. Lines that do not parse, windows without packets and other rungs never renew
  it.\<close>

theorem probe_measurement:
  assumes "\<forall>(t, r, data, lost) \<in> set (labelled None ls). 0 \<le> data \<and> 0 \<le> lost"
  shows "case map_of (snapshot_fresh now (feed_log ls)) m of
      None \<Rightarrow> fst (per_of (of_rung m (labelled None ls)) (None, 0)) = None
    | Some f \<Rightarrow> fst (per_of (of_rung m (labelled None ls)) (None, 0)) = Some (f_per f) \<and> 0 \<le> f_per f \<and> f_per f \<le> 1
        \<and> (f_fresh f \<longleftrightarrow> (\<exists>t. last_carried m (labelled None ls) = Some t \<and> now - t \<le> 1 / 2))"
proof -
  have "\<forall>(t, r, data, lost) \<in> set (of_rung m (labelled None ls)). 0 \<le> data \<and> 0 \<le> lost"
    using assms by (auto simp: of_rung_def)
  note b = per_of_bounds [OF this, of None 0]
  show ?thesis
    using b unfolding snapshot_fresh_iff [OF feed_log_spec(1)] feed_log_spec(2)
    by (auto simp: is_fresh_def feed_log_spec(3) PROBE_FRESH_S_def split: option.split)
qed

theorem probe_measurement_witness:
  "\<exists>f. map_of (snapshot_fresh 2 (feed_log [(1, rx_ant_sample), (2, pkt_sample)])) 3 = Some f \<and> f_per f = 1 / 4 \<and> f_fresh f"
proof -
  have r: "parse_line rx_ant_sample = Some (PRxAnt 3 (- 59) 21)" "parse_line pkt_sample = Some (PPkt 3 0 1)"
    by code_simp+
  let ?ls = "[(1, rx_ant_sample), (2, pkt_sample)]"
  have l: "labelled None ?ls = [(2, 3, 3, 1)]" by (simp add: r)
  have "case map_of (snapshot_fresh 2 (feed_log ?ls)) 3 of
      None \<Rightarrow> fst (per_of (of_rung 3 (labelled None ?ls)) (None, 0)) = None
    | Some f \<Rightarrow> fst (per_of (of_rung 3 (labelled None ?ls)) (None, 0)) = Some (f_per f) \<and> 0 \<le> f_per f \<and> f_per f \<le> 1
        \<and> (f_fresh f \<longleftrightarrow> (\<exists>t. last_carried 3 (labelled None ?ls) = Some t \<and> 2 - t \<le> 1 / 2))"
    by (rule probe_measurement) (simp only: l, simp)
  then show ?thesis
    unfolding l by (auto simp: of_rung_def last_carried_def carried_def split: option.splits)
qed

end
