(* ===== verification/Wire.thy ===== *)
theory Wire
  imports Byte_Codec
begin

unbundle bit_operations_syntax

text \<open>
  The decision packet that carries the chosen MCS to the drone:
  \<open>src/gs/fpvdgs/dynlink/wire.py\<close> (the encoder of the ground station) and
  \<open>src/drone/src/dynlink/wire.cpp\<close>, \<open>wire.hpp\<close> (the drone's encoder, decoder and CRC).
  \<open>binascii.crc32\<close> is modelled as the table-driven CRC-32 it documents; the drone computes
  the same checksum bit by bit.

  The lemmas show that the two checksums agree, that the two encoders agree byte for byte,
  that the drone decodes what the ground station encodes, and that no corruption of a single
  byte is accepted.
\<close>

section \<open>Definitions\<close>

subsection \<open>Ground station\<close>

definition MAGIC :: int where
  "MAGIC = 0x444C4B31"

definition VERSION :: int where
  "VERSION = 3"

definition PAYLOAD_SIZE :: nat where
  "PAYLOAD_SIZE = 11"

definition ON_WIRE_SIZE :: nat where
  "ON_WIRE_SIZE = 15"

definition crc_poly :: "32 word" where
  "crc_poly = 0xEDB88320"

text \<open>One entry of the CRC table: eight conditional shifts of a byte.\<close>

definition crc_shift :: "32 word \<Rightarrow> 32 word" where
  "crc_shift c = (if bit c 0 then drop_bit 1 c XOR crc_poly else drop_bit 1 c)"

definition crc_table :: "8 word \<Rightarrow> 32 word" where
  "crc_table b = (crc_shift ^^ 8) (ucast b)"

definition binascii_crc32 :: "bytes \<Rightarrow> 32 word" where
  "binascii_crc32 data =
     NOT (foldl (\<lambda>c b. crc_table (ucast c XOR b) XOR drop_bit 8 c) (NOT 0) data)"

definition wire_crc32 :: "bytes \<Rightarrow> int" where
  "wire_crc32 data = uint (binascii_crc32 data)"

definition encode_raw :: "int \<Rightarrow> int \<Rightarrow> int \<Rightarrow> int \<Rightarrow> bytes res" where
  "encode_raw version flags sequence mcs =
     res_bind (pack_be 4 MAGIC) (\<lambda>m.
     res_bind (pack_be 1 version) (\<lambda>v.
     res_bind (pack_be 1 flags) (\<lambda>f.
     res_bind (pack_be 4 sequence) (\<lambda>s.
     res_bind (pack_be 1 mcs) (\<lambda>c.
       let payload = m @ v @ f @ s @ c
       in res_bind (pack_be 4 (wire_crc32 payload)) (\<lambda>crc. Inr (payload @ crc)))))))"

record encoder =
  enc_seq :: int

text \<open>\<open>Encoder.encode\<close>: the counter advances before the packet is built.\<close>

definition wire_encode :: "int \<Rightarrow> int option \<Rightarrow> encoder \<Rightarrow> bytes res \<times> encoder" where
  "wire_encode mcs sequence enc = (case sequence of
     None \<Rightarrow> (encode_raw VERSION 0 (enc_seq enc) mcs,
              enc\<lparr> enc_seq := (enc_seq enc + 1) mod 2 ^ 32 \<rparr>)
   | Some s \<Rightarrow> (encode_raw VERSION 0 s mcs, enc))"

definition wire_encode_once :: "int \<Rightarrow> int \<Rightarrow> bytes res" where
  "wire_encode_once mcs sequence = fst (wire_encode mcs (Some sequence) \<lparr> enc_seq = sequence \<rparr>)"

subsection \<open>Drone\<close>

record cpp_decision =
  dd_magic :: "32 word"
  dd_version :: "8 word"
  dd_flags :: "8 word"
  dd_sequence :: "32 word"
  dd_timestampMs :: "32 word"
  dd_mcs :: "8 word"
  dd_bandwidth :: "8 word"
  dd_txPowerDbm :: "8 word"
  dd_k :: "8 word"
  dd_n :: "8 word"
  dd_bitrateKbps :: "16 word"
  dd_fps :: "8 word"

definition cpp_decision0 :: cpp_decision where
  "cpp_decision0 = \<lparr> dd_magic = 0, dd_version = 0, dd_flags = 0, dd_sequence = 0, dd_timestampMs = 0,
     dd_mcs = 0, dd_bandwidth = 0, dd_txPowerDbm = 0, dd_k = 0, dd_n = 0, dd_bitrateKbps = 0, dd_fps = 0 \<rparr>"

datatype decode_result = DecodeOk | DecodeShort | BadMagic | BadVersion | BadCrc

datatype packet_kind = UnknownPacket | DecisionPacket

definition kWireMagic :: "32 word" where
  "kWireMagic = 0x444C4B31"

definition kWireVersion :: "8 word" where
  "kWireVersion = 3"

definition put_u32 :: "32 word \<Rightarrow> bytes" where
  "put_u32 v = [ucast (drop_bit 24 v), ucast (drop_bit 16 v AND 0xFF),
                ucast (drop_bit 8 v AND 0xFF), ucast (v AND 0xFF)]"

definition get_u32 :: "bytes \<Rightarrow> nat \<Rightarrow> 32 word" where
  "get_u32 buf off =
     push_bit 24 (ucast (buf ! off)) OR push_bit 16 (ucast (buf ! (off + 1))) OR
     push_bit 8 (ucast (buf ! (off + 2))) OR ucast (buf ! (off + 3))"

definition crc_bit :: "32 word \<Rightarrow> 32 word" where
  "crc_bit crc = (let mask = - (crc AND 1) in drop_bit 1 crc XOR (crc_poly AND mask))"

definition crc_byte :: "32 word \<Rightarrow> 8 word \<Rightarrow> 32 word" where
  "crc_byte crc b = (crc_bit ^^ 8) (crc XOR ucast b)"

definition cpp_crc32 :: "bytes \<Rightarrow> 32 word" where
  "cpp_crc32 buf = foldl crc_byte 0xFFFFFFFF buf XOR 0xFFFFFFFF"

definition peekKind :: "bytes \<Rightarrow> packet_kind" where
  "peekKind buf = (if length buf < 4 then UnknownPacket
     else if get_u32 buf 0 = kWireMagic then DecisionPacket else UnknownPacket)"

text \<open>\<open>encodeDecision\<close> into a buffer of \<open>buflen\<close> bytes: None when it is too small.\<close>

definition encodeDecision :: "cpp_decision \<Rightarrow> nat \<Rightarrow> bytes option" where
  "encodeDecision d buflen =
     (if buflen < ON_WIRE_SIZE then None
      else let payload = put_u32 kWireMagic @ [kWireVersion, dd_flags d] @ put_u32 (dd_sequence d) @ [dd_mcs d]
           in Some (payload @ put_u32 (cpp_crc32 payload)))"

definition decodeDecision :: "bytes \<Rightarrow> cpp_decision \<Rightarrow> decode_result \<times> cpp_decision" where
  "decodeDecision buf d =
     (if length buf < ON_WIRE_SIZE then (DecodeShort, d)
      else let magic = get_u32 buf 0 in
        if magic \<noteq> kWireMagic then (BadMagic, d)
        else let version = buf ! 4 in
          if version \<noteq> kWireVersion then (BadVersion, d)
          else if get_u32 buf PAYLOAD_SIZE \<noteq> cpp_crc32 (take PAYLOAD_SIZE buf) then (BadCrc, d)
          else (DecodeOk, cpp_decision0\<lparr> dd_magic := magic, dd_version := version, dd_flags := buf ! 5,
                  dd_sequence := get_u32 buf 6, dd_mcs := buf ! 10 \<rparr>))"

text \<open>The layout both encoders produce.\<close>

definition wire_payload :: "8 word \<Rightarrow> 32 word \<Rightarrow> 8 word \<Rightarrow> bytes" where
  "wire_payload flags sequence mcs =
     put_u32 kWireMagic @ [kWireVersion, flags] @ put_u32 sequence @ [mcs]"

definition wire_packet :: "8 word \<Rightarrow> 32 word \<Rightarrow> 8 word \<Rightarrow> bytes" where
  "wire_packet flags sequence mcs =
     (let p = wire_payload flags sequence mcs in p @ put_u32 (cpp_crc32 p))"

section \<open>Lemmas\<close>

subsection \<open>The checksum\<close>

lemma xor_zero_iff: "x XOR y = 0 \<longleftrightarrow> x = y" for x y :: "'a::len word"
proof
  assume e: "x XOR y = 0"
  have "x = (x XOR y) XOR y" by (simp only: xor.assoc xor_self_eq xor.right_neutral)
  then show "x = y" by (simp add: e)
qed simp

lemma xor_cancel_iff: "x XOR z = y XOR z \<longleftrightarrow> x = y" for x y z :: "'a::len word"
  using xor_zero_iff [of "x XOR z" "y XOR z"] xor_zero_iff [of x y]
  by (simp add: xor.assoc xor.left_commute xor.commute)

lemma xor_all_ones: "x XOR 0xFFFFFFFF = NOT x" "(0xFFFFFFFF :: 32 word) = NOT 0" for x :: "32 word"
proof -
  show e: "(0xFFFFFFFF :: 32 word) = NOT 0" by simp
  show "x XOR 0xFFFFFFFF = NOT x" unfolding e by (rule bit_word_eqI) (simp add: bit_simps)
qed

lemma crc_bit_shift: "crc_bit c = crc_shift c"
proof -
  have "c AND 1 = (if bit c 0 then 1 else 0)"
    by (simp add: and_one_eq mod_2_eq_odd bit_0)
  then show ?thesis by (simp add: crc_bit_def crc_shift_def Let_def crc_poly_def xor.commute)
qed

lemma crc_bit_xor: "crc_bit (x XOR y) = crc_bit x XOR crc_bit y"
  by (simp add: crc_bit_shift crc_shift_def bit_xor_iff drop_bit_xor xor.left_commute xor.assoc xor.commute)

lemma crc_bits_xor: "(crc_bit ^^ n) (x XOR y) = (crc_bit ^^ n) x XOR (crc_bit ^^ n) y"
  by (induction n) (simp_all add: crc_bit_xor)

lemma crc_bits_high: "(\<And>j. j < n \<Longrightarrow> \<not> bit y j) \<Longrightarrow> (crc_bit ^^ n) y = drop_bit n y"
proof (induction n)
  case (Suc n)
  then have "\<not> bit (drop_bit n y) 0" by (simp add: bit_drop_bit_eq)
  with Suc show ?case by (simp add: crc_bit_shift crc_shift_def)
qed simp

lemma split_low_byte: "x = ucast (ucast x :: 8 word) XOR (x AND NOT (mask 8))" for x :: "32 word"
  by (rule bit_word_eqI) (auto simp: bit_simps)

lemma crc_byte_table: "(crc_bit ^^ 8) x = crc_table (ucast x) XOR drop_bit 8 x"
proof -
  have hi: "(crc_bit ^^ 8) (x AND NOT (mask 8)) = drop_bit 8 (x AND NOT (mask 8))"
    by (rule crc_bits_high) (auto simp: bit_simps)
  have same: "drop_bit 8 (x AND NOT (mask 8)) = drop_bit 8 x"
    by (rule bit_word_eqI) (auto simp: bit_simps dest: bit_imp_le_length)
  have "(crc_bit ^^ 8) x = (crc_bit ^^ 8) (ucast (ucast x :: 8 word)) XOR drop_bit 8 x"
    using split_low_byte [of x] crc_bits_xor hi same by metis
  then show ?thesis by (simp add: crc_table_def crc_bit_shift [abs_def])
qed

lemma crc32_agree: "cpp_crc32 data = binascii_crc32 data"
proof -
  have "crc_byte c b = crc_table (ucast c XOR b) XOR drop_bit 8 c" for c b
  proof -
    have "ucast (c XOR ucast b) = ucast c XOR b" "drop_bit 8 (c XOR ucast b) = drop_bit 8 c"
      by (rule bit_word_eqI; auto simp: bit_simps dest: bit_imp_le_length)+
    then show ?thesis by (simp add: crc_byte_def crc_byte_table)
  qed
  then have "crc_byte = (\<lambda>c b. crc_table (ucast c XOR b) XOR drop_bit 8 c)" by (intro ext)
  then show ?thesis unfolding cpp_crc32_def binascii_crc32_def xor_all_ones by simp
qed

text \<open>Two byte strings that differ in exactly one byte have different checksums: the
  difference enters as a non-zero state, and one shift never maps a non-zero state to zero.\<close>

lemma crc_bit_zero: "crc_bit x = 0 \<Longrightarrow> x = 0"
proof (cases "bit x 0")
  case True
  assume "crc_bit x = 0"
  then have "drop_bit 1 x = crc_poly" using True by (simp add: crc_bit_shift crc_shift_def xor_zero_iff)
  moreover have "\<not> bit (drop_bit 1 x) 31" by (auto simp: bit_simps dest: bit_imp_le_length)
  moreover have "bit crc_poly 31" by (simp add: crc_poly_def)
  ultimately show ?thesis by simp
next
  case False
  assume "crc_bit x = 0"
  then have "drop_bit 1 x = 0" using False by (simp add: crc_bit_shift crc_shift_def)
  moreover have "bit (drop_bit 1 x) n = bit x (Suc n)" for n by (simp add: bit_drop_bit_eq)
  ultimately have high: "\<not> bit x (Suc n)" for n by simp
  have "bit x n = bit 0 n" for n using high False by (cases n) simp_all
  then show "x = 0" by (intro bit_word_eqI) simp
qed

lemma crc_bits_zero: "(crc_bit ^^ n) x = 0 \<Longrightarrow> x = 0"
  by (induction n) (auto dest: crc_bit_zero)

lemma crc_fold_xor:
  "foldl crc_byte c bs XOR foldl crc_byte c' bs = (crc_bit ^^ (8 * length bs)) (c XOR c')"
proof (induction bs arbitrary: c c')
  case (Cons b bs)
  have "crc_byte c b XOR crc_byte c' b = (crc_bit ^^ 8) (c XOR c')"
    by (simp add: crc_byte_def crc_bits_xor xor.left_commute xor.assoc xor.commute)
  then show ?case by (simp add: Cons) (simp add: add.commute [of 8] funpow_add)
qed simp

lemma crc32_single_byte:
  assumes "b \<noteq> b'"
  shows "cpp_crc32 (xs @ b # ys) \<noteq> cpp_crc32 (xs @ b' # ys)"
proof
  assume eq: "cpp_crc32 (xs @ b # ys) = cpp_crc32 (xs @ b' # ys)"
  define c where "c = foldl crc_byte 0xFFFFFFFF xs"
  have "foldl crc_byte (crc_byte c b) ys = foldl crc_byte (crc_byte c b') ys"
    using eq by (simp add: cpp_crc32_def c_def xor_cancel_iff)
  then have "(crc_bit ^^ (8 * length ys)) (crc_byte c b XOR crc_byte c b') = 0"
    by (simp flip: crc_fold_xor)
  then have "crc_byte c b XOR crc_byte c b' = 0" by (rule crc_bits_zero)
  then have "(crc_bit ^^ 8) (ucast b XOR ucast b' :: 32 word) = 0"
    by (simp add: crc_byte_def crc_bits_xor xor.left_commute xor.assoc xor.commute)
  then have "(ucast b XOR ucast b' :: 32 word) = 0" by (rule crc_bits_zero)
  then have "(ucast b :: 32 word) = ucast b'" by (simp add: xor_zero_iff)
  then have same: "bit (ucast b :: 32 word) n = bit (ucast b' :: 32 word) n" for n by simp
  have "bit b n = bit b' n" if "n < 8" for n using same [of n] that by (simp add: bit_ucast_iff)
  then have "b = b'" by (intro bit_word_eqI) simp
  then show False using assms by simp
qed

subsection \<open>Big-endian words\<close>

lemma ff_mask: "(0xFF :: 32 word) = mask 8"
  by (simp add: mask_eq_exp_minus_1)

lemma ucast_low_byte: "ucast (x AND 0xFF) = (ucast x :: 8 word)" for x :: "32 word"
  unfolding ff_mask by (rule bit_word_eqI) (auto simp: bit_simps)

lemma join_bytes:
  "push_bit 24 (ucast (ucast (drop_bit 24 v) :: 8 word)) OR
   push_bit 16 (ucast (ucast (drop_bit 16 v) :: 8 word)) OR
   push_bit 8 (ucast (ucast (drop_bit 8 v) :: 8 word)) OR ucast (ucast v :: 8 word) = v" for v :: "32 word"
proof (rule bit_word_eqI, goal_cases)
  case (1 n)
  consider "n < 8" | "8 \<le> n" "n < 16" | "16 \<le> n" "n < 24" | "24 \<le> n" by linarith
  then show ?case using 1 by cases (auto simp: bit_simps)
qed

lemma length_put_u32 [simp]: "length (put_u32 v) = 4"
  by (simp add: put_u32_def)

lemma get_put_u32: "get_u32 (xs @ put_u32 v @ ys) (length xs) = v"
  using join_bytes [of v] by (simp add: get_u32_def put_u32_def nth_append ucast_low_byte)

lemma put_get_u32: "put_u32 (get_u32 buf off) = [buf ! off, buf ! (off + 1), buf ! (off + 2), buf ! (off + 3)]"
proof -
  let ?g = "\<lambda>a b c d. push_bit 24 (ucast a) OR push_bit 16 (ucast b) OR push_bit 8 (ucast c) OR ucast d :: 32 word"
  have "ucast (drop_bit 24 (?g a b c d)) = a" "ucast (drop_bit 16 (?g a b c d)) = b"
    "ucast (drop_bit 8 (?g a b c d)) = c" "ucast (?g a b c d) = d" for a b c d :: "8 word"
    by (rule bit_word_eqI; auto simp: bit_simps dest: bit_imp_le_length)+
  then show ?thesis by (simp add: put_u32_def get_u32_def ucast_low_byte)
qed

lemma byte_of_div: "word_of_int (uint v div 256 ^ k) = (ucast (drop_bit (8 * k) v) :: 8 word)" for v :: "32 word"
proof (rule bit_word_eqI)
  fix n
  have "uint v div 256 ^ k = drop_bit (8 * k) (uint v)" by (simp add: drop_bit_eq_div power_mult)
  then show "bit (word_of_int (uint v div 256 ^ k) :: 8 word) n = bit (ucast (drop_bit (8 * k) v) :: 8 word) n"
    by (simp add: bit_simps)
qed

lemma be_bytes_put_u32: "be_bytes 4 (uint v) = put_u32 v" for v :: "32 word"
  using byte_of_div [of v 3] byte_of_div [of v 2] byte_of_div [of v 1] byte_of_div [of v 0]
  by (simp add: put_u32_def ucast_low_byte numeral_eq_Suc)

lemma be_bytes_word: "0 \<le> n \<Longrightarrow> n < 256 ^ 4 \<Longrightarrow> be_bytes 4 n = put_u32 (word_of_int n)"
  using be_bytes_put_u32 [of "word_of_int n"] by (simp add: uint_word_of_int)

subsection \<open>The packet\<close>

lemma length_wire_payload [simp]: "length (wire_payload f s m) = PAYLOAD_SIZE"
  by (simp add: wire_payload_def PAYLOAD_SIZE_def)

lemma length_wire_packet [simp]: "length (wire_packet f s m) = ON_WIRE_SIZE"
  by (simp add: wire_packet_def Let_def PAYLOAD_SIZE_def ON_WIRE_SIZE_def)

lemma encode_raw_packet:
  assumes "0 \<le> flags" "flags < 256" "0 \<le> sequence" "sequence < 2 ^ 32" "0 \<le> mcs" "mcs < 256"
  shows "encode_raw VERSION flags sequence mcs =
     Inr (wire_packet (word_of_int flags) (word_of_int sequence) (word_of_int mcs))"
proof -
  have "be_bytes 4 MAGIC = put_u32 kWireMagic"
    using be_bytes_word [of MAGIC] by (simp add: MAGIC_def kWireMagic_def)
  moreover have "be_bytes 4 sequence = put_u32 (word_of_int sequence)"
    using be_bytes_word [of sequence] assms by simp
  moreover have crc: "0 \<le> wire_crc32 p" "wire_crc32 p < 4294967296" "be_bytes 4 (wire_crc32 p) = put_u32 (cpp_crc32 p)" for p
    using be_bytes_put_u32 uint_lt2p [of "binascii_crc32 p"] by (simp_all add: wire_crc32_def crc32_agree)
  ultimately show ?thesis
    using assms crc
    by (simp add: encode_raw_def pack_be_def Let_def MAGIC_def VERSION_def kWireVersion_def wire_packet_def wire_payload_def)
qed

lemma encode_raw_error:
  "\<not> (0 \<le> flags \<and> flags < 256 \<and> 0 \<le> sequence \<and> sequence < 2 ^ 32 \<and> 0 \<le> mcs \<and> mcs < 256) \<Longrightarrow>
   encode_raw VERSION flags sequence mcs = Inl StructError"
  by (auto simp: encode_raw_def pack_be_def MAGIC_def VERSION_def)

lemma wire_packet_fields:
  "get_u32 (wire_packet f s m) 0 = kWireMagic" "wire_packet f s m ! 4 = kWireVersion"
  "wire_packet f s m ! 5 = f" "get_u32 (wire_packet f s m) 6 = s" "wire_packet f s m ! 10 = m"
  "get_u32 (wire_packet f s m) PAYLOAD_SIZE = cpp_crc32 (wire_payload f s m)"
  "take PAYLOAD_SIZE (wire_packet f s m) = wire_payload f s m"
  using get_put_u32 [of "[]" kWireMagic "[kWireVersion, f] @ put_u32 s @ [m] @ put_u32 (cpp_crc32 (wire_payload f s m))"]
    get_put_u32 [of "put_u32 kWireMagic @ [kWireVersion, f]" s "[m] @ put_u32 (cpp_crc32 (wire_payload f s m))"]
    get_put_u32 [of "wire_payload f s m" "cpp_crc32 (wire_payload f s m)" "[]"]
  by (simp_all add: wire_packet_def Let_def) (simp_all add: wire_payload_def nth_append)

lemma decode_wire_packet:
  "decodeDecision (wire_packet f s m) d = (DecodeOk, cpp_decision0\<lparr> dd_magic := kWireMagic,
     dd_version := kWireVersion, dd_flags := f, dd_sequence := s, dd_mcs := m \<rparr>)"
  by (simp add: decodeDecision_def Let_def wire_packet_fields)

lemma get_u32_eq_nth: "get_u32 x off = get_u32 y off \<Longrightarrow> j < 4 \<Longrightarrow> x ! (off + j) = y ! (off + j)"
  using put_get_u32 [of x off] put_get_u32 [of y off]
  by (auto simp: less_Suc_eq numeral_eq_Suc)

lemma decode_single_byte:
  assumes "i < ON_WIRE_SIZE" "b \<noteq> wire_packet f s m ! i"
  shows "fst (decodeDecision ((wire_packet f s m)[i := b]) d) \<noteq> DecodeOk"
proof -
  let ?w = "wire_packet f s m" and ?v = "(wire_packet f s m)[i := b]"
  have "get_u32 ?v PAYLOAD_SIZE \<noteq> cpp_crc32 (take PAYLOAD_SIZE ?v)"
  proof (cases "i < PAYLOAD_SIZE")
    case True
    have "get_u32 ?v PAYLOAD_SIZE = get_u32 ?w PAYLOAD_SIZE"
      using True by (simp add: get_u32_def)
    also have "\<dots> = cpp_crc32 (wire_payload f s m)" by (rule wire_packet_fields)
    also have "wire_payload f s m = take i (wire_payload f s m) @ ?w ! i # drop (Suc i) (wire_payload f s m)"
      using True by (simp add: wire_packet_def Let_def nth_append flip: id_take_nth_drop)
    finally have "get_u32 ?v PAYLOAD_SIZE =
        cpp_crc32 (take i (wire_payload f s m) @ ?w ! i # drop (Suc i) (wire_payload f s m))" .
    moreover have "take PAYLOAD_SIZE ?v = take i (wire_payload f s m) @ b # drop (Suc i) (wire_payload f s m)"
      using True by (simp add: take_update_swap wire_packet_fields upd_conv_take_nth_drop)
    ultimately show ?thesis using crc32_single_byte assms(2) by metis
  next
    case False
    then have "take PAYLOAD_SIZE ?v = wire_payload f s m"
      using wire_packet_fields(7) [of f s m] by simp
    moreover have "get_u32 ?v PAYLOAD_SIZE \<noteq> get_u32 ?w PAYLOAD_SIZE"
    proof
      assume eq: "get_u32 ?v PAYLOAD_SIZE = get_u32 ?w PAYLOAD_SIZE"
      have "i - PAYLOAD_SIZE < 4" using False assms(1) by (simp add: PAYLOAD_SIZE_def ON_WIRE_SIZE_def)
      from get_u32_eq_nth [OF eq this] False assms show False by simp
    qed
    ultimately show ?thesis using wire_packet_fields(6) by simp
  qed
  then show ?thesis by (simp add: decodeDecision_def Let_def)
qed

section \<open>Properties\<close>

text \<open>C3. The drone decodes what the ground station encodes. For a sequence number of 32 bits and an
  MCS of 8 bits the encoder returns 15 bytes and advances its counter modulo \<open>2 ^ 32\<close>; the
  drone accepts the packet and reads back the same sequence number and MCS, whatever was in
  its decision before; and the drone's own encoder produces the same bytes from what it
  read.\<close>

theorem decision_round_trip:
  assumes "0 \<le> seq" "seq < 2 ^ 32" "0 \<le> mcs" "mcs < 256"
  shows "\<exists>bs d. wire_encode mcs None \<lparr> enc_seq = seq \<rparr> = (Inr bs, \<lparr> enc_seq = (seq + 1) mod 2 ^ 32 \<rparr>) \<and>
     length bs = ON_WIRE_SIZE \<and> peekKind bs = DecisionPacket \<and> decodeDecision bs d0 = (DecodeOk, d) \<and>
     uint (dd_sequence d) = seq \<and> uint (dd_mcs d) = mcs \<and> encodeDecision d ON_WIRE_SIZE = Some bs"
proof -
  let ?s = "word_of_int seq :: 32 word" and ?m = "word_of_int mcs :: 8 word"
  let ?w = "wire_packet 0 ?s ?m"
  let ?d = "cpp_decision0\<lparr> dd_magic := kWireMagic, dd_version := kWireVersion, dd_flags := 0,
      dd_sequence := ?s, dd_mcs := ?m \<rparr>"
  have "encode_raw VERSION 0 seq mcs = Inr ?w" using encode_raw_packet [of 0 seq mcs] assms by simp
  moreover have "peekKind ?w = DecisionPacket"
    using wire_packet_fields(1) [of 0 ?s ?m] by (simp add: peekKind_def ON_WIRE_SIZE_def)
  moreover have "encodeDecision ?d ON_WIRE_SIZE = Some ?w"
    by (simp add: encodeDecision_def wire_packet_def wire_payload_def Let_def)
  moreover have "uint ?s = seq" "uint ?m = mcs" using assms by (simp_all add: uint_word_of_int)
  ultimately show ?thesis
    using decode_wire_packet [of 0 ?s ?m d0]
    by (intro exI [of _ ?w] exI [of _ ?d]) (simp add: wire_encode_def)
qed

theorem decision_round_trip_witness:
  "\<exists>bs d. wire_encode 5 None \<lparr> enc_seq = 4294967295 \<rparr> = (Inr bs, \<lparr> enc_seq = 0 \<rparr>) \<and>
     decodeDecision bs cpp_decision0 = (DecodeOk, d) \<and> uint (dd_mcs d) = 5"
  using decision_round_trip [of 4294967295 5 cpp_decision0] by auto

text \<open>C24. No corruption of a single byte is accepted: a valid packet with any one of its 15 bytes
  replaced by a different byte is rejected by the drone.\<close>

theorem corrupted_byte_rejected:
  assumes "fst (wire_encode mcs None enc) = Inr bs" "i < length bs" "b \<noteq> bs ! i"
  shows "fst (decodeDecision (bs[i := b]) d) \<noteq> DecodeOk"
proof -
  have "0 \<le> enc_seq enc \<and> enc_seq enc < 2 ^ 32 \<and> 0 \<le> mcs \<and> mcs < 256"
    using assms(1) encode_raw_error [of 0 "enc_seq enc" mcs] by (force simp: wire_encode_def)
  then have "bs = wire_packet 0 (word_of_int (enc_seq enc)) (word_of_int mcs)"
    using assms(1) encode_raw_packet [of 0 "enc_seq enc" mcs] by (simp add: wire_encode_def)
  then show ?thesis using decode_single_byte assms(2,3) by simp
qed

theorem corrupted_byte_rejected_witness:
  "\<exists>bs. fst (wire_encode 5 None \<lparr> enc_seq = 1 \<rparr>) = Inr bs \<and>
     fst (decodeDecision (bs[10 := bs ! 10 + 1]) cpp_decision0) \<noteq> DecodeOk"
proof -
  obtain bs where bs: "fst (wire_encode 5 None \<lparr> enc_seq = 1 \<rparr>) = Inr bs" "length bs = 15"
    using encode_raw_packet [of 0 1 5] by (auto simp: wire_encode_def ON_WIRE_SIZE_def)
  then show ?thesis
    using corrupted_byte_rejected [OF bs(1), of 10 "bs ! 10 + 1"] by auto
qed

text \<open>The table-driven CRC-32 of the ground station and the bitwise CRC-32 of the drone are the
  same function.\<close>

theorem checksums_agree: "wire_crc32 data = uint (cpp_crc32 data)"
  by (simp add: wire_crc32_def crc32_agree)

end
