(* ===== verification/Drone_Link.thy ===== *)
theory Drone_Link
  imports Wire
begin

text \<open>
  The drone's intake of decisions: \<open>src/drone/src/dynlink/dedup.cpp\<close> (serial-number filter),
  \<open>watchdog.cpp\<close> (failsafe timer), and the branches of the control loop of \<open>controller.cpp\<close> that
  read the decision socket and the watchdog tick. What the drone does with an accepted decision
  (encoder, radio, transmit power, OSD) is not modelled: the model says which decisions are
  accepted and when the failsafe fires.

  The lemmas show what the filter accepts of a numbered stream in whatever order, with whatever
  losses and duplicates, it arrives: the decisions that are newer than everything before.
\<close>

section \<open>Definitions\<close>

record dedup =
  lastSeq :: "32 word"
  ever :: bool

definition new_dedup :: dedup where
  "new_dedup = \<lparr> lastSeq = 0, ever = False \<rparr>"

definition dedup_reset :: "dedup \<Rightarrow> dedup" where
  "dedup_reset d = d\<lparr> ever := False \<rparr>"

text \<open>True when the packet is to be dropped.\<close>

definition dedup_check :: "32 word \<Rightarrow> dedup \<Rightarrow> bool \<times> dedup" where
  "dedup_check seq d =
     (if \<not> ever d then (False, d\<lparr> lastSeq := seq, ever := True \<rparr>)
      else let delta = sint (seq - lastSeq d) in
        if delta \<le> 0 then (True, d) else (False, d\<lparr> lastSeq := seq \<rparr>))"

record watchdog =
  wd_lastDecisionMs :: "64 word"
  wd_timeoutMs :: "32 word"
  everSeen :: bool
  tripped :: bool

definition new_watchdog :: "32 word \<Rightarrow> watchdog" where
  "new_watchdog timeout = \<lparr> wd_lastDecisionMs = 0, wd_timeoutMs = timeout, everSeen = False, tripped = False \<rparr>"

definition setTimeout :: "32 word \<Rightarrow> watchdog \<Rightarrow> watchdog" where
  "setTimeout timeout w = w\<lparr> wd_timeoutMs := timeout \<rparr>"

definition notifyDecision :: "64 word \<Rightarrow> watchdog \<Rightarrow> watchdog" where
  "notifyDecision now w = w\<lparr> wd_lastDecisionMs := now, everSeen := True, tripped := False \<rparr>"

definition watchdog_tick :: "64 word \<Rightarrow> watchdog \<Rightarrow> bool \<times> watchdog" where
  "watchdog_tick now w =
     (if \<not> everSeen w then (False, w)
      else if tripped w then (False, w)
      else if wd_lastDecisionMs w \<le> now \<and> ucast (wd_timeoutMs w) \<le> now - wd_lastDecisionMs w
      then (True, w\<lparr> tripped := True \<rparr>)
      else (False, w))"

subsection \<open>The control loop's intake\<close>

record intake =
  in_dedup :: dedup
  in_watchdog :: watchdog

definition start_intake :: "32 word \<Rightarrow> intake" where
  "start_intake timeout = \<lparr> in_dedup = new_dedup, in_watchdog = new_watchdog timeout \<rparr>"

text \<open>A datagram on the decision socket, read into a buffer of 256 bytes; the result is the
  decision to apply.\<close>

definition on_decision :: "64 word \<Rightarrow> bytes \<Rightarrow> intake \<Rightarrow> intake \<times> cpp_decision option" where
  "on_decision now dgram s =
     (let buf = take 256 dgram in
      case peekKind buf of
        UnknownPacket \<Rightarrow> (s, None)
      | DecisionPacket \<Rightarrow>
          (case decodeDecision buf cpp_decision0 of (dr, d) \<Rightarrow>
             if dr \<noteq> DecodeOk then (s, None)
             else case dedup_check (dd_sequence d) (in_dedup s) of (stale, dd) \<Rightarrow>
               if stale then (s\<lparr> in_dedup := dd \<rparr>, None)
               else (\<lparr> in_dedup = dd, in_watchdog = notifyDecision now (in_watchdog s) \<rparr>, Some d)))"

text \<open>The tick timer; true when the failsafe is applied.\<close>

definition on_tick :: "64 word \<Rightarrow> intake \<Rightarrow> intake \<times> bool" where
  "on_tick now s =
     (case watchdog_tick now (in_watchdog s) of (trip, w) \<Rightarrow>
        (if trip then \<lparr> in_dedup = dedup_reset (in_dedup s), in_watchdog = w \<rparr> else s\<lparr> in_watchdog := w \<rparr>, trip))"

datatype drone_event = Datagram "64 word" bytes | DroneTick "64 word"

text \<open>The accepted decisions of a run and whether the failsafe fired.\<close>

fun intake_run :: "intake \<Rightarrow> drone_event list \<Rightarrow> intake \<times> cpp_decision list \<times> bool" where
  "intake_run s [] = (s, [], False)"
| "intake_run s (Datagram t b # es) =
     (case on_decision t b s of (s1, r) \<Rightarrow>
      case intake_run s1 es of (s2, ds, f) \<Rightarrow> (s2, (case r of None \<Rightarrow> ds | Some d \<Rightarrow> d # ds), f))"
| "intake_run s (DroneTick t # es) =
     (case on_tick t s of (s1, trip) \<Rightarrow>
      case intake_run s1 es of (s2, ds, f) \<Rightarrow> (s2, ds, trip \<or> f))"

subsection \<open>Numbered streams\<close>

text \<open>The elements of a list that are greater than \<open>b\<close> and everything before them.\<close>

fun records_above :: "int \<Rightarrow> int list \<Rightarrow> int list" where
  "records_above b [] = []"
| "records_above b (k # ks) = (if b < k then k # records_above k ks else records_above b ks)"

text \<open>The packet of a ground station's \<open>k\<close>-th decision, with MCS \<open>m k\<close>.\<close>

definition numbered :: "(int \<Rightarrow> int) \<Rightarrow> int \<Rightarrow> bytes" where
  "numbered m k = wire_packet 0 (word_of_int k) (word_of_int (m k))"

definition arrivals :: "(int \<Rightarrow> int) \<Rightarrow> 64 word list \<Rightarrow> int list \<Rightarrow> drone_event list" where
  "arrivals m ts ks = map2 (\<lambda>t k. Datagram t (numbered m k)) ts ks"

definition decision_of :: "cpp_decision \<Rightarrow> int \<times> int" where
  "decision_of d = (uint (dd_sequence d), uint (dd_mcs d))"

section \<open>Lemmas\<close>

lemma arrivals_simps [simp]:
  "arrivals m ts [] = []" "arrivals m (t # ts) (k # ks) = Datagram t (numbered m k) # arrivals m ts ks"
  by (simp_all add: arrivals_def)

lemma sint_diff:
  assumes "\<bar>a - b\<bar> < 2 ^ 31"
  shows "sint (word_of_int a - word_of_int b :: 32 word) = a - b"
proof -
  have "sint (word_of_int (a - b) :: 32 word) = signed_take_bit 31 (a - b)"
    by (subst sint_sbintrunc') simp
  also have "\<dots> = a - b" using assms by (simp add: signed_take_bit_int_eq_self)
  finally show ?thesis by simp
qed

lemma on_decision_numbered:
  "on_decision t (numbered m k) s =
     (let d = cpp_decision0\<lparr> dd_magic := kWireMagic, dd_version := kWireVersion, dd_flags := 0,
          dd_sequence := word_of_int k, dd_mcs := word_of_int (m k) \<rparr>
      in case dedup_check (word_of_int k) (in_dedup s) of (stale, dd) \<Rightarrow>
        if stale then (s\<lparr> in_dedup := dd \<rparr>, None)
        else (\<lparr> in_dedup = dd, in_watchdog = notifyDecision t (in_watchdog s) \<rparr>, Some d))"
proof -
  have len: "length (numbered m k) = 15"
    by (simp add: numbered_def wire_packet_def wire_payload_def put_u32_def Let_def)
  then have "take 256 (numbered m k) = numbered m k" by simp
  moreover have "peekKind (numbered m k) = DecisionPacket"
    using len wire_packet_fields(1) by (simp add: peekKind_def numbered_def)
  ultimately show ?thesis
    by (simp add: on_decision_def numbered_def decode_wire_packet Let_def)
qed

lemma dedup_check_serial:
  assumes "ever d" "lastSeq d = word_of_int b" "\<bar>k - b\<bar> < 2 ^ 31"
  shows "dedup_check (word_of_int k) d = (if b < k then (False, d\<lparr> lastSeq := word_of_int k \<rparr>) else (True, d))"
  using sint_diff [OF assms(3)] assms(1,2) by (simp add: dedup_check_def)

text \<open>A stream of numbered packets whose numbers lie in a window of \<open>2 ^ 31\<close>.\<close>

lemma intake_stream:
  assumes "ever (in_dedup s)" "lastSeq (in_dedup s) = word_of_int b"
    and "\<forall>k \<in> set ks. lo \<le> k \<and> k < lo + 2 ^ 31 \<and> 0 \<le> m k \<and> m k < 256" "lo \<le> b" "b < lo + 2 ^ 31"
    and "length ts = length ks"
  shows "map decision_of (fst (snd (intake_run s (arrivals m ts ks)))) =
      map (\<lambda>k. (k mod 2 ^ 32, m k)) (records_above b ks)
    \<and> \<not> snd (snd (intake_run s (arrivals m ts ks)))"
  using assms
proof (induction ks arbitrary: s b ts)
  case (Cons k ks)
  then obtain t ts' where ts: "ts = t # ts'" by (cases ts) auto
  have k: "lo \<le> k" "k < lo + 2 ^ 31" "0 \<le> m k" "m k < 256" using Cons.prems(3) by auto
  have c: "dedup_check (word_of_int k) (in_dedup s) =
      (if b < k then (False, (in_dedup s)\<lparr> lastSeq := word_of_int k \<rparr>) else (True, in_dedup s))"
    using Cons.prems(1,2,4,5) k(1,2) by (intro dedup_check_serial) auto
  have u: "decision_of (cpp_decision0\<lparr> dd_magic := kWireMagic, dd_version := kWireVersion, dd_flags := 0,
      dd_sequence := word_of_int k, dd_mcs := word_of_int (m k) \<rparr>) = (k mod 2 ^ 32, m k)"
    using k by (simp add: decision_of_def uint_word_of_int)
  show ?case
  proof (cases "b < k")
    case True
    let ?s = "\<lparr> in_dedup = (in_dedup s)\<lparr> lastSeq := word_of_int k \<rparr>, in_watchdog = notifyDecision t (in_watchdog s) \<rparr>"
    have "?thesis \<longleftrightarrow> map decision_of (fst (snd (intake_run ?s (arrivals m ts' ks)))) =
        map (\<lambda>k. (k mod 2 ^ 32, m k)) (records_above k ks)
      \<and> \<not> snd (snd (intake_run ?s (arrivals m ts' ks)))"
      using True u c by (simp add: ts on_decision_numbered Let_def case_prod_beta)
    then show ?thesis using Cons.IH [of ?s k ts'] Cons.prems k by (simp add: ts)
  next
    case False
    then show ?thesis
      using Cons.IH [of s b ts'] Cons.prems c
      by (simp add: ts on_decision_numbered Let_def case_prod_beta)
  qed
qed simp

lemma records_above_sorted: "sorted_wrt (<) ks \<Longrightarrow> \<forall>k \<in> set ks. b < k \<Longrightarrow> records_above b ks = ks"
  by (induction ks arbitrary: b) auto

lemma records_above_subset: "set (records_above b ks) \<subseteq> set ks"
  by (induction ks arbitrary: b) auto

lemma records_above_none: "\<forall>k \<in> set ks. k \<le> b \<Longrightarrow> records_above b ks = []"
  by (induction ks) auto

lemma accepts_newest:
  assumes "\<forall>x \<in> set (k # ks). lo \<le> x \<and> x < lo + 2 ^ 31 \<and> 0 \<le> m x \<and> m x < 256" "length ts = length ks"
  shows "map decision_of (fst (snd (intake_run (start_intake timeout)
      (Datagram t (numbered m k) # arrivals m ts ks)))) =
    map (\<lambda>x. (x mod 2 ^ 32, m x)) (k # records_above k ks)"
proof -
  let ?d = "cpp_decision0\<lparr> dd_magic := kWireMagic, dd_version := kWireVersion, dd_flags := 0,
      dd_sequence := word_of_int k, dd_mcs := word_of_int (m k) \<rparr>"
  let ?s = "\<lparr> in_dedup = \<lparr> lastSeq = word_of_int k, ever = True \<rparr>, in_watchdog = notifyDecision t (new_watchdog timeout) \<rparr>"
  have "on_decision t (numbered m k) (start_intake timeout) = (?s, Some ?d)"
    by (simp add: on_decision_numbered start_intake_def new_dedup_def dedup_check_def Let_def)
  moreover have "decision_of ?d = (k mod 2 ^ 32, m k)"
    using assms(1) by (simp add: decision_of_def uint_word_of_int)
  ultimately show ?thesis
    using intake_stream [of ?s k ks lo m ts] assms by (simp add: case_prod_beta)
qed

section \<open>Properties\<close>

text \<open>Whatever the network does to a numbered stream of decisions - loss, duplication,
  reordering - a drone that has just started accepts exactly the decisions that are newer than
  every decision that arrived before, with the MCS they carry; the first one is always accepted,
  and the 32-bit sequence number may wrap inside the stream. The stream must span less than
  \<open>2 ^ 31\<close> numbers.\<close>

theorem drone_accepts_newest:
  assumes "\<forall>x \<in> set (k # ks). lo \<le> x \<and> x < lo + 2 ^ 31 \<and> 0 \<le> m x \<and> m x < 256" "length ts = length ks"
  shows "map decision_of (fst (snd (intake_run (start_intake timeout)
      (Datagram t (numbered m k) # arrivals m ts ks)))) =
    map (\<lambda>x. (x mod 2 ^ 32, m x)) (k # records_above k ks)"
  by (rule accepts_newest [OF assms])

theorem drone_accepts_newest_witness:
  "map decision_of (fst (snd (intake_run (start_intake 10000)
      [Datagram 5 (numbered (\<lambda>k. 3) 4294967295), Datagram 6 (numbered (\<lambda>k. 3) 4294967297),
       Datagram 7 (numbered (\<lambda>k. 3) 4294967296)]))) = [(4294967295, 3), (1, 3)]"
  using drone_accepts_newest [of 4294967295 "[4294967297, 4294967296]" 4294967295 "\<lambda>k. 3" "[6, 7]" 10000 5] by simp

end
