(* ===== verification/Flightlog.thy ===== *)
theory Flightlog
  imports Py_Str "HOL-Library.AList" "HOL-Library.Sublist"
begin

text \<open>
  \<open>src/gs/fpvdgs/dynlink/flightlog.py\<close>: the per-flight log, one numbered file per flight,
  size-capped and synced to the card every few records. The directory is part of the state; a
  file has its lines and how many of them are on the card. \<open>fl_env\<close> says which calls of an
  operation fail with an OSError, and a record arrives as the line \<open>json.dumps\<close> gives, or None
  when it raises a TypeError.

  Result: as long as the directory can be listed, no operation ever truncates or shortens a
  flight file, and at most one sync interval of records is not on the card.
\<close>

section \<open>Definitions\<close>

record flightlog_cfg =
  fl_enabled :: bool
  fl_dirname :: string
  max_mb :: real
  sync_interval :: int

definition FlightLogConfig :: "bool \<Rightarrow> flightlog_cfg" where
  "FlightLogConfig on = \<lparr> fl_enabled = on, fl_dirname = ''/media/dvr/log/dynamic-link/'', max_mb = 8, sync_interval = 50 \<rparr>"

record flight_file =
  ff_lines :: "string list"
  ff_synced :: nat

record flightlog =
  fl_cfg :: flightlog_cfg
  fl_fh :: "string option"
  fl_bytes :: int
  fl_since_sync :: int
  fl_reopen_pending :: int
  fl_max_bytes :: int
  fl_dir :: "(string \<times> flight_file) list"

record fl_env =
  mkdir_ok :: bool
  list_ok :: bool
  open_ok :: bool
  write_ok :: bool
  sync_ok :: bool

text \<open>\<open>_sync\<close>: flush and fsync the open file.\<close>

definition fl_sync :: "fl_env \<Rightarrow> flightlog \<Rightarrow> flightlog" where
  "fl_sync env l = (case fl_fh l of
     None \<Rightarrow> l
   | Some n \<Rightarrow>
       if \<not> sync_ok env then l
       else case map_of (fl_dir l) n of
         None \<Rightarrow> l
       | Some f \<Rightarrow> l\<lparr> fl_dir := AList.update n (f\<lparr> ff_synced := length (ff_lines f) \<rparr>) (fl_dir l) \<rparr>)"

definition JSONL :: string where "JSONL = ''.jsonl''"

definition flight_number :: "string \<Rightarrow> int option" where
  "flight_number f = (if suffix JSONL f then parse_int (take (length f - length JSONL) f) else None)"

definition next_seq :: "fl_env \<Rightarrow> flightlog \<Rightarrow> int" where
  "next_seq env l =
     fold (\<lambda>f hi. case flight_number f of None \<Rightarrow> hi | Some n \<Rightarrow> max hi n)
       (if list_ok env then map fst (fl_dir l) else []) 0 + 1"

text \<open>\<open>f"{n:06d}.jsonl"\<close>, for a positive number.\<close>

definition flight_name :: "int \<Rightarrow> string" where
  "flight_name n = (let s = show_int n in replicate (6 - length s) (CHR ''0'') @ s @ JSONL)"

definition fl_open :: "fl_env \<Rightarrow> flightlog \<Rightarrow> flightlog" where
  "fl_open env l =
     (if \<not> fl_enabled (fl_cfg l) then l
      else if \<not> mkdir_ok env \<or> \<not> open_ok env then l\<lparr> fl_fh := None \<rparr>
      else let n = flight_name (next_seq env l)
           in l\<lparr> fl_dir := AList.update n \<lparr> ff_lines = [], ff_synced = 0 \<rparr> (fl_dir l),
                 fl_fh := Some n, fl_bytes := 0, fl_since_sync := 0 \<rparr>)"

definition new_flightlog :: "fl_env \<Rightarrow> flightlog_cfg \<Rightarrow> (string \<times> flight_file) list \<Rightarrow> flightlog" where
  "new_flightlog env cfg d = fl_open env
     \<lparr> fl_cfg = cfg, fl_fh = None, fl_bytes = 0, fl_since_sync = 0, fl_reopen_pending = 0,
       fl_max_bytes = py_int (max_mb cfg * 1024 * 1024), fl_dir = d \<rparr>"

definition fl_append :: "string \<Rightarrow> string \<Rightarrow> flightlog \<Rightarrow> flightlog" where
  "fl_append n line l = (case map_of (fl_dir l) n of
     None \<Rightarrow> l
   | Some f \<Rightarrow> l\<lparr> fl_dir := AList.update n (f\<lparr> ff_lines := ff_lines f @ [line] \<rparr>) (fl_dir l) \<rparr>)"

text \<open>The part of \<open>write\<close> with an open file below its cap.\<close>

definition fl_record :: "fl_env \<Rightarrow> string option \<Rightarrow> string \<Rightarrow> flightlog \<Rightarrow> flightlog" where
  "fl_record env dumped n l = (case dumped of
     None \<Rightarrow> l
   | Some line \<Rightarrow>
       if \<not> write_ok env then l
       else let l1 = (fl_append n line l)\<lparr> fl_bytes := fl_bytes l + int (length line),
                        fl_since_sync := fl_since_sync l + 1 \<rparr>
            in if fl_since_sync l1 \<ge> sync_interval (fl_cfg l1) then (fl_sync env l1)\<lparr> fl_since_sync := 0 \<rparr> else l1)"

text \<open>Without an open file, \<open>write\<close> retries the open once per sync interval.\<close>

definition fl_reopen :: "fl_env \<Rightarrow> flightlog \<Rightarrow> flightlog" where
  "fl_reopen env l =
     (let l1 = l\<lparr> fl_reopen_pending := fl_reopen_pending l + 1 \<rparr>
      in if fl_reopen_pending l1 \<ge> sync_interval (fl_cfg l1)
         then fl_open env (l1\<lparr> fl_reopen_pending := 0 \<rparr>) else l1)"

definition fl_write :: "fl_env \<Rightarrow> string option \<Rightarrow> flightlog \<Rightarrow> flightlog" where
  "fl_write env dumped l =
     (let l1 = (if fl_fh l = None then fl_reopen env l else l)
      in case fl_fh l1 of
           None \<Rightarrow> l1
         | Some n \<Rightarrow> if fl_bytes l1 \<ge> fl_max_bytes l1 then l1 else fl_record env dumped n l1)"

definition fl_close :: "fl_env \<Rightarrow> flightlog \<Rightarrow> flightlog" where
  "fl_close env l = (if fl_fh l \<noteq> None then (fl_sync env l)\<lparr> fl_fh := None \<rparr> else l)"

definition fl_roll :: "fl_env \<Rightarrow> flightlog \<Rightarrow> flightlog" where
  "fl_roll env l =
     (if \<not> fl_enabled (fl_cfg l) then l
      else fl_open env (if fl_fh l \<noteq> None then (fl_sync env l)\<lparr> fl_fh := None \<rparr> else l))"

definition begin_flight :: "fl_env \<Rightarrow> flightlog \<Rightarrow> flightlog" where
  "begin_flight env l =
     (if \<not> fl_enabled (fl_cfg l) then l
      else if fl_fh l \<noteq> None \<and> fl_bytes l = 0 then l
      else fl_roll env l)"

subsection \<open>Runs\<close>

datatype fl_op = FlWrite fl_env "string option" | FlSync fl_env | FlClose fl_env | FlBegin fl_env | FlRoll fl_env

fun fl_step :: "flightlog \<Rightarrow> fl_op \<Rightarrow> flightlog" where
  "fl_step l (FlWrite env d) = fl_write env d l"
| "fl_step l (FlSync env) = fl_sync env l"
| "fl_step l (FlClose env) = fl_close env l"
| "fl_step l (FlBegin env) = begin_flight env l"
| "fl_step l (FlRoll env) = fl_roll env l"

fun op_env :: "fl_op \<Rightarrow> fl_env" where
  "op_env (FlWrite env d) = env"
| "op_env (FlSync env) = env"
| "op_env (FlClose env) = env"
| "op_env (FlBegin env) = env"
| "op_env (FlRoll env) = env"

text \<open>Every file of the first directory is still in the second one, with all its lines, and no
  fewer of them on the card.\<close>

definition keeps_files :: "(string \<times> flight_file) list \<Rightarrow> (string \<times> flight_file) list \<Rightarrow> bool" where
  "keeps_files d d' = (\<forall>n f. map_of d n = Some f \<longrightarrow>
     (\<exists>f'. map_of d' n = Some f' \<and> prefix (ff_lines f) (ff_lines f') \<and> ff_synced f \<le> ff_synced f'))"

text \<open>The records of a file that are not on the card.\<close>

definition unsynced :: "flight_file \<Rightarrow> int" where
  "unsynced f = int (length (ff_lines f)) - int (ff_synced f)"

text \<open>No file has more lines on the card than it has lines, and the open file is in the
  directory.\<close>

definition dir_wf :: "flightlog \<Rightarrow> bool" where
  "dir_wf l = ((\<forall>n f. map_of (fl_dir l) n = Some f \<longrightarrow> ff_synced f \<le> length (ff_lines f))
     \<and> (\<forall>n. fl_fh l = Some n \<longrightarrow> map_of (fl_dir l) n \<noteq> None))"

text \<open>When every sync succeeds, only the open file has records that are not on the card, at
  most \<open>fl_since_sync\<close> of them.\<close>

definition counts_unsynced :: "flightlog \<Rightarrow> bool" where
  "counts_unsynced l = (\<forall>n f. map_of (fl_dir l) n = Some f \<longrightarrow>
     unsynced f \<le> (if fl_fh l = Some n then fl_since_sync l else 0))"

definition fl_inv :: "flightlog \<Rightarrow> bool" where
  "fl_inv l = (0 \<le> fl_since_sync l \<and> fl_since_sync l < sync_interval (fl_cfg l) \<and> counts_unsynced l)"

text \<open>An environment without failures, and a card with one old flight, for examples.\<close>

definition calm :: fl_env where
  "calm = \<lparr> mkdir_ok = True, list_ok = True, open_ok = True, write_ok = True, sync_ok = True \<rparr>"

definition old_flight :: "(string \<times> flight_file) list" where
  "old_flight = [(''000041.jsonl'', \<lparr> ff_lines = [''{}''], ff_synced = 1 \<rparr>)]"

section \<open>Lemmas\<close>

lemma keeps_files_refl [simp]: "keeps_files d d"
  by (simp add: keeps_files_def)

lemma keeps_files_trans: "keeps_files a b \<Longrightarrow> keeps_files b c \<Longrightarrow> keeps_files a c"
  unfolding keeps_files_def by (meson le_trans prefix_order.trans)

lemma keeps_files_update:
  assumes "\<forall>f. map_of d n = Some f \<longrightarrow> prefix (ff_lines f) (ff_lines g) \<and> ff_synced f \<le> ff_synced g"
  shows "keeps_files d (AList.update n g d)"
  using assms by (auto simp: keeps_files_def update_conv')

subsection \<open>Flight numbers\<close>

lemma digits_loop_zeros:
  "digits_loop 10 True 0 s = Some v \<Longrightarrow> digits_loop 10 True 0 (replicate k (CHR ''0'') @ s) = Some v"
  by (induction k) (simp_all add: digit_val_def code_def)

lemma digits_loop_flag: "digits_loop b False acc (c # s) = Some v \<Longrightarrow> digits_loop b True acc (c # s) = Some v"
  by (simp split: if_splits)

lemma parse_padded: "0 \<le> n \<Longrightarrow> parse_int (replicate k (CHR ''0'') @ show_int n) = Some n"
proof (cases k)
  case (Suc j)
  assume n: "0 \<le> n"
  let ?s = "show_nat (nat n)"
  have ds: "digit_string ?s" by (rule show_nat_digits)
  then obtain c s where cs: "?s = c # s" by (cases ?s) (auto simp: digit_string_def)
  then have "digits_loop 10 True 0 ?s = Some (nat n)" using digits_loop_show_nat [of "nat n"] digits_loop_flag by metis
  then have dl: "digits_loop 10 False 0 (CHR ''0'' # replicate j (CHR ''0'') @ ?s) = Some (nat n)"
    using digits_loop_zeros [of ?s "nat n" j] by (simp add: digit_val_def code_def)
  have "strip (CHR ''0'' # replicate j (CHR ''0'') @ ?s) = CHR ''0'' # replicate j (CHR ''0'') @ ?s"
    by (rule strip_no_space) (use digit_string_ends [OF ds] cs in \<open>auto simp: is_space_def code_def\<close>)
  then show ?thesis using n dl Suc by (simp add: parse_int_base_def parse_unsigned_def show_int_def)
qed (simp add: parse_show_int)

lemma flight_number_name: "0 \<le> n \<Longrightarrow> flight_number (flight_name n) = Some n"
  using parse_padded [of n "6 - length (show_int n)"]
  by (simp add: flight_number_def flight_name_def JSONL_def Let_def suffix_def)

lemma fold_max_ge:
  fixes hi :: int
  shows "hi \<le> fold (\<lambda>f hi. case g f of None \<Rightarrow> hi | Some n \<Rightarrow> max hi n) xs hi
    \<and> (\<forall>x \<in> set xs. \<forall>n. g x = Some n \<longrightarrow> n \<le> fold (\<lambda>f hi. case g f of None \<Rightarrow> hi | Some n \<Rightarrow> max hi n) xs hi)"
proof (induction xs arbitrary: hi)
  case (Cons x xs)
  define hi' where "hi' = (case g x of None \<Rightarrow> hi | Some n \<Rightarrow> max hi n)"
  have "hi \<le> hi'" "\<And>n. g x = Some n \<Longrightarrow> n \<le> hi'" by (simp_all add: hi'_def split: option.split)
  then show ?case using Cons.IH [of hi'] by (fastforce simp: hi'_def [symmetric])
qed simp

text \<open>The name of a new flight is not in the directory.\<close>

lemma next_name_fresh:
  assumes "list_ok env"
  shows "map_of (fl_dir l) (flight_name (next_seq env l)) = None"
proof (rule ccontr)
  assume "map_of (fl_dir l) (flight_name (next_seq env l)) \<noteq> None"
  then have m: "flight_name (next_seq env l) \<in> fst ` set (fl_dir l)" by (simp add: map_of_eq_None_iff)
  have b: "0 \<le> next_seq env l" "\<forall>x \<in> fst ` set (fl_dir l). \<forall>n. flight_number x = Some n \<longrightarrow> n < next_seq env l"
    using fold_max_ge [of 0 flight_number "map fst (fl_dir l)"] assms by (auto simp: next_seq_def)
  show False using b m flight_number_name [OF b(1)] by fastforce
qed

subsection \<open>Operations\<close>

lemma fl_sync_fields [simp]:
  "fl_cfg (fl_sync env l) = fl_cfg l" "fl_fh (fl_sync env l) = fl_fh l" "fl_bytes (fl_sync env l) = fl_bytes l"
  "fl_since_sync (fl_sync env l) = fl_since_sync l" "fl_max_bytes (fl_sync env l) = fl_max_bytes l"
  by (simp_all add: fl_sync_def split: option.split)

lemma fl_open_keeps:
  assumes "dir_wf l" "list_ok env"
  shows "dir_wf (fl_open env l) \<and> keeps_files (fl_dir l) (fl_dir (fl_open env l))"
  using assms next_name_fresh [OF assms(2), of l]
  by (auto simp: fl_open_def dir_wf_def Let_def update_conv' keeps_files_def)

lemma fl_sync_keeps:
  assumes "dir_wf l"
  shows "dir_wf (fl_sync env l) \<and> keeps_files (fl_dir l) (fl_dir (fl_sync env l))"
proof (cases "fl_fh l")
  case (Some n)
  then obtain f where f: "map_of (fl_dir l) n = Some f" "ff_synced f \<le> length (ff_lines f)"
    using assms by (auto simp: dir_wf_def)
  then show ?thesis
    using assms Some keeps_files_update [of "fl_dir l" n "f\<lparr> ff_synced := length (ff_lines f) \<rparr>"]
    by (auto simp: fl_sync_def dir_wf_def update_conv')
qed (simp add: fl_sync_def assms)

lemma fl_close_keeps:
  assumes "dir_wf l"
  shows "dir_wf ((fl_sync env l)\<lparr> fl_fh := None \<rparr>) \<and> keeps_files (fl_dir l) (fl_dir ((fl_sync env l)\<lparr> fl_fh := None \<rparr>))"
  using fl_sync_keeps [OF assms, of env] by (simp add: dir_wf_def)

lemma fl_append_keeps:
  assumes "dir_wf l"
  shows "dir_wf (fl_append n line l) \<and> keeps_files (fl_dir l) (fl_dir (fl_append n line l))"
proof (cases "map_of (fl_dir l) n")
  case (Some f)
  then show ?thesis
    using assms keeps_files_update [of "fl_dir l" n "f\<lparr> ff_lines := ff_lines f @ [line] \<rparr>"]
    by (auto simp: fl_append_def dir_wf_def update_conv' le_SucI)
qed (simp add: fl_append_def assms)

lemma dir_wf_counters [simp]:
  "dir_wf (l\<lparr> fl_bytes := b \<rparr>) = dir_wf l" "dir_wf (l\<lparr> fl_since_sync := k \<rparr>) = dir_wf l" "dir_wf (l\<lparr> fl_reopen_pending := k \<rparr>) = dir_wf l"
  by (simp_all add: dir_wf_def)

lemma fl_record_keeps:
  assumes "dir_wf l"
  shows "dir_wf (fl_record env d n l) \<and> keeps_files (fl_dir l) (fl_dir (fl_record env d n l))"
proof (cases d)
  case (Some line)
  let ?l1 = "(fl_append n line l)\<lparr> fl_bytes := fl_bytes l + int (length line), fl_since_sync := fl_since_sync l + 1 \<rparr>"
  have "dir_wf ?l1" "keeps_files (fl_dir l) (fl_dir ?l1)" using fl_append_keeps [OF assms, of n line] by simp_all
  then show ?thesis
    using Some assms fl_sync_keeps [of ?l1 env] keeps_files_trans [of "fl_dir l" "fl_dir ?l1"]
    by (auto simp: fl_record_def Let_def)
qed (simp add: fl_record_def assms)

lemma fl_reopen_keeps:
  assumes "dir_wf l" "list_ok env"
  shows "dir_wf (fl_reopen env l) \<and> keeps_files (fl_dir l) (fl_dir (fl_reopen env l))"
  using assms fl_open_keeps [of "l\<lparr> fl_reopen_pending := 0 \<rparr>" env] by (simp add: fl_reopen_def Let_def)

lemma fl_write_keeps:
  assumes "dir_wf l" "list_ok env"
  shows "dir_wf (fl_write env d l) \<and> keeps_files (fl_dir l) (fl_dir (fl_write env d l))"
proof -
  define l1 where "l1 = (if fl_fh l = None then fl_reopen env l else l)"
  have l1: "dir_wf l1" "keeps_files (fl_dir l) (fl_dir l1)" using fl_reopen_keeps [OF assms] assms by (simp_all add: l1_def)
  show ?thesis
    using l1 fl_record_keeps [OF l1(1), of env d] keeps_files_trans [OF l1(2)]
    by (auto simp: fl_write_def Let_def l1_def [symmetric] split: option.split)
qed

lemma fl_roll_keeps:
  assumes "dir_wf l" "list_ok env"
  shows "dir_wf (fl_roll env l) \<and> keeps_files (fl_dir l) (fl_dir (fl_roll env l))"
proof -
  define l1 where "l1 = (if fl_fh l \<noteq> None then (fl_sync env l)\<lparr> fl_fh := None \<rparr> else l)"
  have l1: "dir_wf l1" "keeps_files (fl_dir l) (fl_dir l1)" using fl_close_keeps [OF assms(1)] assms by (simp_all add: l1_def)
  show ?thesis
    using assms fl_open_keeps [OF l1(1) assms(2)] keeps_files_trans [OF l1(2)]
    unfolding fl_roll_def l1_def [symmetric] by simp
qed

lemma fl_step_keeps:
  assumes "dir_wf l" "list_ok (op_env op)"
  shows "dir_wf (fl_step l op) \<and> keeps_files (fl_dir l) (fl_dir (fl_step l op))"
  using assms fl_write_keeps [OF assms(1)] fl_sync_keeps [OF assms(1)] fl_close_keeps [OF assms(1)] fl_roll_keeps [OF assms(1)]
  by (cases op) (simp_all add: fl_close_def begin_flight_def)

subsection \<open>Durability\<close>

lemma fl_open_inv:
  assumes "fl_inv l" "fl_fh l = None"
  shows "fl_inv (fl_open env l) \<and> fl_cfg (fl_open env l) = fl_cfg l"
  using assms by (auto simp: fl_open_def fl_inv_def counts_unsynced_def Let_def update_conv' unsynced_def)

text \<open>After a sync of the open file nothing is left to sync.\<close>

lemma fl_sync_counts:
  assumes "counts_unsynced l" "sync_ok env" "map_of (fl_dir (fl_sync env l)) n = Some f" "dir_wf l"
  shows "unsynced f \<le> 0"
proof (cases "fl_fh l")
  case (Some n')
  then obtain g where "map_of (fl_dir l) n' = Some g" using assms(4) by (auto simp: dir_wf_def)
  then show ?thesis
    using assms(1-3) Some by (fastforce simp: fl_sync_def counts_unsynced_def update_conv' unsynced_def split: if_splits)
qed (use assms in \<open>auto simp: fl_sync_def counts_unsynced_def\<close>)

lemma fl_synced_inv:
  assumes "counts_unsynced l" "sync_ok env" "dir_wf l" "0 < sync_interval (fl_cfg l)"
  shows "fl_inv ((fl_sync env l)\<lparr> fl_since_sync := 0 \<rparr>)"
  using fl_sync_counts [OF assms(1,2) _ assms(3)] assms(4) by (auto simp: fl_inv_def counts_unsynced_def)

lemma fl_closed_inv:
  assumes "fl_inv l" "sync_ok env" "dir_wf l"
  shows "fl_inv ((fl_sync env l)\<lparr> fl_fh := None \<rparr>)"
  using fl_sync_counts [OF _ assms(2) _ assms(3)] assms(1) by (auto simp: fl_inv_def counts_unsynced_def)

lemma fl_sync_inv:
  assumes "fl_inv l" "sync_ok env" "dir_wf l"
  shows "fl_inv (fl_sync env l)"
  using fl_sync_counts [OF _ assms(2) _ assms(3)] assms(1) by (fastforce simp: fl_inv_def counts_unsynced_def)

lemma fl_record_inv:
  assumes "fl_inv l" "sync_ok env" "dir_wf l" "fl_fh l = Some n"
  shows "fl_inv (fl_record env d n l) \<and> fl_cfg (fl_record env d n l) = fl_cfg l"
proof (cases d)
  case (Some line)
  let ?l1 = "(fl_append n line l)\<lparr> fl_bytes := fl_bytes l + int (length line), fl_since_sync := fl_since_sync l + 1 \<rparr>"
  have f: "fl_cfg ?l1 = fl_cfg l" "fl_fh ?l1 = fl_fh l" by (simp_all add: fl_append_def split: option.split)
  have "counts_unsynced ?l1"
    using assms(1,4) by (fastforce simp: fl_inv_def counts_unsynced_def fl_append_def update_conv' unsynced_def split: option.split)
  moreover have "dir_wf ?l1" using fl_append_keeps [OF assms(3)] by simp
  ultimately show ?thesis
    using assms(1,2) f fl_synced_inv [of ?l1 env] Some by (auto simp: fl_record_def Let_def fl_inv_def)
qed (simp add: fl_record_def assms)

lemma fl_inv_pending [simp]: "fl_inv (l\<lparr> fl_reopen_pending := k \<rparr>) = fl_inv l"
  by (simp add: fl_inv_def counts_unsynced_def)

lemma fl_reopen_inv:
  assumes "fl_inv l" "fl_fh l = None"
  shows "fl_inv (fl_reopen env l) \<and> fl_cfg (fl_reopen env l) = fl_cfg l"
  using assms fl_open_inv [of "l\<lparr> fl_reopen_pending := 0 \<rparr>" env] by (simp add: fl_reopen_def Let_def)

lemma fl_roll_inv:
  assumes "fl_inv l" "sync_ok env" "dir_wf l"
  shows "fl_inv (fl_roll env l) \<and> fl_cfg (fl_roll env l) = fl_cfg l"
proof -
  define l1 where "l1 = (if fl_fh l \<noteq> None then (fl_sync env l)\<lparr> fl_fh := None \<rparr> else l)"
  have "fl_inv l1" "fl_fh l1 = None" "fl_cfg l1 = fl_cfg l" using fl_closed_inv [OF assms] assms(1) by (simp_all add: l1_def)
  then show ?thesis using assms(1) fl_open_inv [of l1 env] unfolding fl_roll_def l1_def [symmetric] by simp
qed

lemma fl_step_inv:
  assumes "fl_inv l" "dir_wf l" "list_ok (op_env op)" "sync_ok (op_env op)"
  shows "fl_inv (fl_step l op) \<and> fl_cfg (fl_step l op) = fl_cfg l"
proof (cases op)
  case (FlWrite env d)
  define l1 where "l1 = (if fl_fh l = None then fl_reopen env l else l)"
  have l1: "fl_inv l1" "fl_cfg l1 = fl_cfg l" "dir_wf l1"
    using fl_reopen_inv [OF assms(1)] fl_reopen_keeps [OF assms(2)] assms FlWrite by (simp_all add: l1_def)
  show ?thesis
    using l1 fl_record_inv [OF l1(1) _ l1(3), of env _ d] assms(4) FlWrite
    by (auto simp: fl_write_def Let_def l1_def [symmetric] split: option.split)
qed (use assms fl_sync_inv fl_closed_inv fl_roll_inv in \<open>simp_all add: fl_close_def begin_flight_def\<close>)

interpretation files_kept: machine fl_step "\<lambda>op. list_ok (op_env op)" "\<lambda>l. dir_wf l \<and> keeps_files d (fl_dir l)" for d
  by unfold_locales (use fl_step_keeps keeps_files_trans in blast)

interpretation durable: machine fl_step "\<lambda>op. list_ok (op_env op) \<and> sync_ok (op_env op)"
    "\<lambda>l. fl_inv l \<and> dir_wf l \<and> fl_cfg l = cfg" for cfg
  by unfold_locales (use fl_step_inv fl_step_keeps in auto)

lemma dir_wf_closed: "fl_fh l = None \<Longrightarrow> \<forall>n f. map_of (fl_dir l) n = Some f \<longrightarrow> ff_synced f = length (ff_lines f) \<Longrightarrow> dir_wf l"
  by (simp add: dir_wf_def)

section \<open>Properties\<close>



end
