(* ===== verification/Controller.thy ===== *)
theory Controller
  imports Dl_Config Tap_Wire Probe Drone_Link Flightlog
begin

text \<open>
  \<open>src/gs/fpvdgs/dynlink/controller.py\<close>, \<open>return_link.py\<close> and the live half of
  \<open>tap_client.py\<close>: the ground station's control loop. It receives tap datagrams, statistics
  records and connection events, folds them into the signals, runs the policy, and sends the
  encoded decisions to the drone.

  A handler runs to completion on the event loop, so it is a function on the loop's state and the
  controller's status; it returns the packets it hands to the socket, in order, or the exception
  that leaves it. \<open>dl_env\<close> holds what the world answers during a handler: the clocks (which do
  not advance within a handler), the probe feed, whether the socket, the flight log's card and
  the capture file work, and the lines \<open>json.dumps\<close> gives. Callbacks that another thread
  schedules on the loop wait in a queue and run at any later point.

  Results: from a validated configuration no handler ever raises, and every packet the drone can
  receive is one it decodes to a rung of the ladder; exactly one of tap and statistics drives the
  policy; a reconfiguration keeps what was learnt; and a reconfiguration makes the drone deaf,
  because it restarts the packet numbering.
\<close>

section \<open>Definitions\<close>

subsection \<open>Tap client and return link\<close>

record tap_protocol =
  tp_malformed :: int
  tp_ignored :: int
  tp_warned :: bool

definition TapProtocol :: tap_protocol where
  "TapProtocol = \<lparr> tp_malformed = 0, tp_ignored = 0, tp_warned = False \<rparr>"

text \<open>Decode and select the record to dispatch.\<close>

definition datagram_received :: "bytes \<Rightarrow> tap_protocol \<Rightarrow> (tap_record option \<times> tap_protocol) res" where
  "datagram_received data t = (case tap_decode data of
     Inl e \<Rightarrow> if e = TapDecodeError then Inr (None, t\<lparr> tp_malformed := tp_malformed t + 1, tp_warned := True \<rparr>) else Inl e
   | Inr None \<Rightarrow> Inr (None, t\<lparr> tp_ignored := tp_ignored t + 1, tp_warned := True \<rparr>)
   | Inr (Some rec) \<Rightarrow> Inr (Some rec, t))"

record tap_capture =
  tc_open :: bool
  tc_bytes :: int
  tc_lines :: "string list"

definition MAX_BYTES :: int where "MAX_BYTES = 32 * 1024 * 1024"

definition TapCapture :: "bool \<Rightarrow> tap_capture" where
  "TapCapture ok = \<lparr> tc_open = ok, tc_bytes = 0, tc_lines = [] \<rparr>"

definition capture_write :: "bool \<Rightarrow> string \<Rightarrow> tap_capture \<Rightarrow> tap_capture" where
  "capture_write ok line c =
     (if \<not> tc_open c \<or> tc_bytes c \<ge> MAX_BYTES then c
      else if ok then c\<lparr> tc_bytes := tc_bytes c + int (length line), tc_lines := tc_lines c @ [line] \<rparr>
      else c\<lparr> tc_open := False \<rparr>)"

definition capture_close :: "tap_capture \<Rightarrow> tap_capture" where
  "capture_close c = c\<lparr> tc_open := False \<rparr>"

record return_link =
  rl_host :: json
  rl_port :: int
  rl_sent :: int
  rl_errors :: int

definition ReturnLink :: "json \<Rightarrow> int \<Rightarrow> return_link" where
  "ReturnLink host port = \<lparr> rl_host = host, rl_port = port, rl_sent = 0, rl_errors = 0 \<rparr>"

definition rl_send :: "bool \<Rightarrow> return_link \<Rightarrow> bool \<times> return_link" where
  "rl_send ok r = (if ok then (True, r\<lparr> rl_sent := rl_sent r + 1 \<rparr>) else (False, r\<lparr> rl_errors := rl_errors r + 1 \<rparr>))"

subsection \<open>State\<close>

record dl_env =
  mono_now :: real
  wall_now :: real
  feed :: "probe_feed option"
  send_ok :: bool
  capture_ok :: bool
  latency_ms :: real
  card_env :: fl_env
  dump_flight :: "flight_record \<Rightarrow> string option"
  dump_tap :: "tap_record \<Rightarrow> string"

datatype dl_callback = ConnectedCb | DisconnectedCb

record dl_loop =
  dl_policy :: policy
  dl_agg :: aggregator
  dl_enc :: encoder
  dl_link :: return_link
  dl_flight :: flightlog
  dl_tap :: tap_protocol
  dl_tap_bound :: bool
  dl_capture :: "tap_capture option"
  dl_stale_s :: real
  dl_last_rx :: "real option"
  dl_micros :: int
  dl_callbacks :: "dl_callback list"

record dl_status =
  ds_running :: bool
  ds_stats_connected :: bool
  ds_decision :: "int option"
  ds_last_emit_ms :: "int option"
  ds_emit_seq :: int
  ds_reason :: "policy_reason list"
  ds_tap_active :: bool

type_synonym dl_state = "dl_loop \<times> dl_status"
type_synonym dl_result = "(dl_state \<times> bytes list) res"

text \<open>Running one handler after another.\<close>

definition dl_then :: "dl_result \<Rightarrow> (dl_state \<Rightarrow> dl_result) \<Rightarrow> dl_result" where
  "dl_then r f = res_bind r (\<lambda>(x, ps). res_bind (f x) (\<lambda>(y, qs). Inr (y, ps @ qs)))"

subsection \<open>The handlers of the loop\<close>

definition is_video :: "string \<Rightarrow> bool" where
  "is_video i = has_substring ''video'' (lower i)"

definition tap_alive :: "dl_env \<Rightarrow> dl_loop \<Rightarrow> bool" where
  "tap_alive env L = (case dl_last_rx L of None \<Rightarrow> False | Some lr \<Rightarrow> mono_now env - lr < dl_stale_s L)"

definition emit :: "dl_env \<Rightarrow> decision \<Rightarrow> dl_state \<Rightarrow> dl_result" where
  "emit env d x = (case x of (L, ds) \<Rightarrow>
     (case wire_encode (d_mcs d) None (dl_enc L) of
       (Inl e, enc) \<Rightarrow> Inl e
     | (Inr packet, enc) \<Rightarrow>
         Inr ((L\<lparr> dl_enc := enc, dl_link := snd (rl_send (send_ok env) (dl_link L)) \<rparr>,
               ds\<lparr> ds_decision := Some (d_mcs d), ds_reason := d_reason d,
                   ds_last_emit_ms := Some (py_int (mono_now env * 1000)), ds_emit_seq := ds_emit_seq ds + 1 \<rparr>), [packet])))"

definition probe_view :: "(int \<times> fresh_per) list \<Rightarrow> int \<rightharpoonup> probe_reading" where
  "probe_view xs = map_of (map (\<lambda>(k, f). (k, \<lparr> pr_per = Some (f_per f), pr_fresh = f_fresh f \<rparr>)) xs)"

definition probe_snapshot :: "dl_env \<Rightarrow> (int \<rightharpoonup> probe_reading) option" where
  "probe_snapshot env = map_option (\<lambda>f. probe_view (snapshot_fresh (mono_now env) f)) (feed env)"

text \<open>\<open>signals.probe = _probe_snapshot(); _emit(policy.tick(signals))\<close>; the tick writes its
  flight record.\<close>

definition tick_and_emit :: "dl_env \<Rightarrow> dl_state \<Rightarrow> dl_result" where
  "tick_and_emit env x = (case x of (L, ds) \<Rightarrow>
     let g = (dl_agg L)\<lparr> sig := (sig (dl_agg L))\<lparr> s_probe := probe_snapshot env \<rparr> \<rparr>
     in (case tick (sig g) (dl_policy L) of
          Inl e \<Rightarrow> Inl e
        | Inr ((d, fr), p) \<Rightarrow>
            emit env d (L\<lparr> dl_agg := g, dl_policy := p,
              dl_flight := fl_write (card_env env) (dump_flight env fr) (dl_flight L) \<rparr>, ds)))"

text \<open>\<open>policy.loss_event\<close> and the emission of its decision, if any.\<close>

definition loss_and_emit :: "dl_env \<Rightarrow> real option \<Rightarrow> dl_state \<Rightarrow> dl_result" where
  "loss_and_emit env latency x = (case x of (L, ds) \<Rightarrow>
     (case loss_event (sig (dl_agg L)) latency (dl_policy L) of
       Inl e \<Rightarrow> Inl e
     | Inr (None, p) \<Rightarrow> Inr ((L\<lparr> dl_policy := p \<rparr>, ds), [])
     | Inr (Some (d, fr), p) \<Rightarrow>
         emit env d (L\<lparr> dl_policy := p, dl_flight := fl_write (card_env env) (dump_flight env fr) (dl_flight L) \<rparr>, ds)))"

definition set_tap_active :: "bool \<Rightarrow> dl_state \<Rightarrow> dl_state" where
  "set_tap_active b x = (case x of (L, ds) \<Rightarrow>
     (L\<lparr> dl_agg := (dl_agg L)\<lparr> sig := (sig (dl_agg L))\<lparr> s_tap_active := b \<rparr> \<rparr> \<rparr>, ds\<lparr> ds_tap_active := b \<rparr>))"

definition mark_tap_rx :: "dl_env \<Rightarrow> dl_state \<Rightarrow> dl_state" where
  "mark_tap_rx env x = (case x of (L, ds) \<Rightarrow>
     let L1 = L\<lparr> dl_last_rx := Some (mono_now env) \<rparr>
     in if tap_alive env L then (L1, ds)
        else set_tap_active True (L1\<lparr> dl_micros := 0, dl_agg := reset_micro_window (dl_agg L1) \<rparr>, ds))"

definition capture_rec :: "dl_env \<Rightarrow> tap_record \<Rightarrow> dl_loop \<Rightarrow> dl_loop" where
  "capture_rec env rec L = L\<lparr> dl_capture := map_option (capture_write (capture_ok env) (dump_tap env rec)) (dl_capture L) \<rparr>"

definition on_micro :: "dl_env \<Rightarrow> tap_micro \<Rightarrow> dl_state \<Rightarrow> dl_result" where
  "on_micro env rec x = (case mark_tap_rx env x of (L, ds) \<Rightarrow>
     let L1 = capture_rec env (Micro rec) L;
         L2 = L1\<lparr> dl_agg := consume_micro rec (wall_now env) (dl_agg L1) \<rparr>
     in dl_then (if m_pkt_lost rec \<noteq> 0 then loss_and_emit env None (L2, ds) else Inr ((L2, ds), []))
         (\<lambda>(L3, ds3). let L4 = L3\<lparr> dl_micros := dl_micros L3 + 1 \<rparr>
           in if dl_micros L4 mod 10 = 0 then tick_and_emit env (L4, ds3) else Inr ((L4, ds3), [])))"

definition on_loss :: "dl_env \<Rightarrow> tap_loss \<Rightarrow> dl_state \<Rightarrow> dl_result" where
  "on_loss env rec x = (case mark_tap_rx env x of (L, ds) \<Rightarrow>
     let L1 = capture_rec env (Loss rec) L;
         L2 = L1\<lparr> dl_agg := consume_loss rec (wall_now env) (dl_agg L1) \<rparr>
     in loss_and_emit env (Some (latency_ms env)) (L2, ds))"

definition on_tap :: "dl_env \<Rightarrow> bytes \<Rightarrow> dl_state \<Rightarrow> dl_result" where
  "on_tap env data x = (case x of (L, ds) \<Rightarrow>
     res_bind (datagram_received data (dl_tap L)) (\<lambda>(r, t).
       let x1 = (L\<lparr> dl_tap := t \<rparr>, ds)
       in case r of None \<Rightarrow> Inr (x1, []) | Some (Micro m) \<Rightarrow> on_micro env m x1 | Some (Loss l) \<Rightarrow> on_loss env l x1))"

definition on_event :: "dl_env \<Rightarrow> event \<Rightarrow> dl_state \<Rightarrow> dl_result" where
  "on_event env ev x = (case x of (L, ds) \<Rightarrow>
     (case ev of
       SessionEvent e \<Rightarrow>
         Inr ((if is_video (n_id e) then L\<lparr> dl_agg := update_session (n_session e) (dl_agg L) \<rparr> else L, ds), [])
     | RxEvent e \<Rightarrow>
         if \<not> is_video (e_id e) then Inr (x, [])
         else let L1 = (case e_session e of None \<Rightarrow> L | Some s \<Rightarrow> L\<lparr> dl_agg := update_session s (dl_agg L) \<rparr>)
              in if tap_alive env L1 then Inr ((L1, ds), [])
                 else (case (if s_tap_active (sig (dl_agg L1)) then set_tap_active False (L1, ds) else (L1, ds)) of (L2, ds2) \<Rightarrow>
                   tick_and_emit env (L2\<lparr> dl_agg := consume e (dl_agg L2) \<rparr>, ds2))
     | _ \<Rightarrow> Inr (x, [])))"

subsection \<open>Connection callbacks\<close>

definition bind_calibration :: "py_builtins \<Rightarrow> dict \<Rightarrow> json \<Rightarrow> dl_loop \<Rightarrow> dl_loop res" where
  "bind_calibration py snapshot radio L =
     res_bind (jget (or_empty radio) ''adapterId'' JNull) (\<lambda>adapter.
       let L1 = L\<lparr> dl_agg := reset_smoothed (dl_agg L) \<rparr>
       in if truthy adapter
          then res_bind (get_int snapshot ''linkWidth'' 20) (\<lambda>width.
               res_bind (bind_learned_prior (to_str py adapter) width (dl_policy L1)) (\<lambda>p. Inr (L1\<lparr> dl_policy := p \<rparr>)))
          else Inr L1)"

definition connected_inloop :: "py_builtins \<Rightarrow> fl_env \<Rightarrow> dict \<Rightarrow> json \<Rightarrow> dl_loop \<Rightarrow> dl_loop res" where
  "connected_inloop py env snapshot radio L =
     res_bind (bind_calibration py snapshot radio L) (\<lambda>L1.
     res_bind (reset_for_new_session (dl_policy L1)) (\<lambda>p.
       Inr (L1\<lparr> dl_policy := p, dl_flight := begin_flight env (dl_flight L1) \<rparr>)))"

definition disconnected_inloop :: "fl_env \<Rightarrow> dl_loop \<Rightarrow> dl_loop" where
  "disconnected_inloop env L =
     L\<lparr> dl_flight := fl_sync env (dl_flight L), dl_policy := (dl_policy L)\<lparr> prior := flush_prior (prior (dl_policy L)) \<rparr> \<rparr>"

text \<open>\<open>((payload or {}).get("drone") or {}).get("radio")\<close>.\<close>

definition payload_radio :: "json \<Rightarrow> json res" where
  "payload_radio payload = res_bind (jget (or_empty payload) ''drone'' JNull) (\<lambda>d. jget (or_empty d) ''radio'' JNull)"

subsection \<open>The controller\<close>

text \<open>\<open>dc_loop\<close> is the running event loop, None while the thread is down. Between loops the
  learned priors and the flight files are on disk.\<close>

record controller =
  dc_snapshot :: dict
  dc_status :: dl_status
  dc_loop :: "dl_loop option"
  dc_pending_cal :: json
  dc_bus :: bus
  dc_prior_disk :: prior_disk
  dc_flight_dir :: "(string \<times> flight_file) list"

definition new_status :: dl_status where
  "new_status = \<lparr> ds_running = False, ds_stats_connected = False, ds_decision = None, ds_last_emit_ms = None,
     ds_emit_seq = 0, ds_reason = [], ds_tap_active = False \<rparr>"

definition new_controller :: "dict \<Rightarrow> bus \<Rightarrow> prior_disk \<Rightarrow> (string \<times> flight_file) list \<Rightarrow> controller" where
  "new_controller snapshot b dsk dir = \<lparr> dc_snapshot = snapshot, dc_status = new_status, dc_loop = None, dc_pending_cal = JNull,
     dc_bus = b, dc_prior_disk = dsk, dc_flight_dir = dir \<rparr>"

text \<open>What \<open>_run\<close> meets while it builds the loop.\<close>

record start_env =
  bind_ok :: bool
  cap_open_ok :: bool
  boot_card :: fl_env

text \<open>The objects \<open>_run\<close> builds from the snapshot, up to the start of the statistics loop.\<close>

definition build_loop :: "start_env \<Rightarrow> dict \<Rightarrow> prior_disk \<Rightarrow> (string \<times> flight_file) list \<Rightarrow> dl_loop res" where
  "build_loop env snapshot dsk dir =
     res_bind (build_policy_config snapshot) (\<lambda>(pc, fl).
     res_bind (new_policy pc UNBOUND_KEY dsk) (\<lambda>p.
     res_bind (build_aggregator snapshot) (\<lambda>g.
     res_bind (jsub (JObj snapshot) ''droneAddr'') (\<lambda>host.
     res_bind (jsub (JObj snapshot) ''dronePort'') (\<lambda>pj.
     res_bind (to_int pj) (\<lambda>port.
     res_bind (jget (or_empty (dget snapshot ''tap'' JNull)) ''enabled'' (JBool True)) (\<lambda>en.
     res_bind (res_bind (jget (or_empty (dget snapshot ''tap'' JNull)) ''port'' (JInt 8110)) to_int) (\<lambda>tap_port.
     res_bind (res_bind (jget (or_empty (dget snapshot ''tap'' JNull)) ''staleMs'' (JInt 500)) to_float) (\<lambda>stale.
     res_bind (jget (or_empty (dget snapshot ''tap'' JNull)) ''captureRaw'' (JBool False)) (\<lambda>raw.
       Inr \<lparr> dl_policy = p, dl_agg = g, dl_enc = \<lparr> enc_seq = 1 \<rparr>, dl_link = ReturnLink host port,
             dl_flight = new_flightlog (boot_card env) (FlightLogConfig fl) dir, dl_tap = TapProtocol,
             dl_tap_bound = (truthy en \<and> bind_ok env),
             dl_capture = (if truthy en \<and> truthy raw then Some (TapCapture (cap_open_ok env)) else None),
             dl_stale_s = stale / 1000, dl_last_rx = None, dl_micros = 0, dl_callbacks = [] \<rparr>))))))))))"

text \<open>\<open>_seed_from_cached_connection\<close>: the radio to bind, if the bus says connected.\<close>

definition seed_from_cached_connection :: "bus \<Rightarrow> json option res" where
  "seed_from_cached_connection b = (case bus_read ''drone'' b of
     None \<Rightarrow> Inr None
   | Some ds \<Rightarrow>
       if py_eq (dget ds ''state'' JNull) (JStr ''connected'')
       then res_bind (jget (or_empty (dget ds ''drone'' JNull)) ''radio'' JNull) (\<lambda>r. Inr (Some r))
       else Inr None)"

text \<open>\<open>start\<close>: nothing if the thread is alive; a loop that fails to build leaves the
  controller stopped (and a new, empty flight file behind, which is not modelled).\<close>

definition dl_start :: "py_builtins \<Rightarrow> start_env \<Rightarrow> controller \<Rightarrow> controller" where
  "dl_start py env c =
     (if dc_loop c \<noteq> None then c
      else case res_bind (build_loop env (dc_snapshot c) (dc_prior_disk c) (dc_flight_dir c)) (\<lambda>L.
             res_bind (seed_from_cached_connection (dc_bus c)) (\<lambda>seed.
               case seed of
                 None \<Rightarrow> Inr (L, dc_pending_cal c)
               | Some radio \<Rightarrow> res_bind (connected_inloop py (boot_card env) (dc_snapshot c) radio L) (\<lambda>L1. Inr (L1, radio)))) of
           Inl e \<Rightarrow> c\<lparr> dc_status := (dc_status c)\<lparr> ds_running := False, ds_stats_connected := False \<rparr> \<rparr>
         | Inr (L, cal) \<Rightarrow> c\<lparr> dc_loop := Some L, dc_pending_cal := cal,
             dc_status := (dc_status c)\<lparr> ds_tap_active := False, ds_running := True, ds_stats_connected := True \<rparr> \<rparr>)"

definition dl_stop :: "fl_env \<Rightarrow> controller \<Rightarrow> controller" where
  "dl_stop env c = (case dc_loop c of
     None \<Rightarrow> c
   | Some L \<Rightarrow> c\<lparr> dc_loop := None, dc_status := (dc_status c)\<lparr> ds_running := False, ds_stats_connected := False \<rparr>,
       dc_prior_disk := disk (prior (close_policy (dl_policy L))), dc_flight_dir := fl_dir (fl_close env (dl_flight L)) \<rparr>)"

definition set_config :: "py_builtins \<Rightarrow> fl_env \<Rightarrow> start_env \<Rightarrow> dict \<Rightarrow> controller \<Rightarrow> controller" where
  "set_config py env senv snapshot c =
     (let running = (dc_loop c \<noteq> None);
          c1 = (if running then dl_stop env c else c);
          c2 = c1\<lparr> dc_snapshot := snapshot \<rparr>
      in if running then dl_start py senv c2 else c2)"

definition marshal :: "dl_callback \<Rightarrow> controller \<Rightarrow> controller" where
  "marshal cb c = c\<lparr> dc_loop := map_option (\<lambda>L. L\<lparr> dl_callbacks := dl_callbacks L @ [cb] \<rparr>) (dc_loop c) \<rparr>"

definition on_drone_connected :: "json \<Rightarrow> controller \<Rightarrow> controller res" where
  "on_drone_connected payload c =
     res_bind (payload_radio payload) (\<lambda>radio. Inr (marshal ConnectedCb (c\<lparr> dc_pending_cal := radio \<rparr>)))"

definition on_drone_disconnected :: "controller \<Rightarrow> controller" where
  "on_drone_disconnected c = marshal DisconnectedCb c"

text \<open>The next scheduled callback runs.\<close>

definition run_callback :: "py_builtins \<Rightarrow> dl_env \<Rightarrow> controller \<Rightarrow> controller res" where
  "run_callback py env c = (case dc_loop c of
     None \<Rightarrow> Inr c
   | Some L \<Rightarrow>
       (case dl_callbacks L of
          [] \<Rightarrow> Inr c
        | cb # cbs \<Rightarrow>
            let L1 = L\<lparr> dl_callbacks := cbs \<rparr>
            in case cb of
                 ConnectedCb \<Rightarrow> res_bind (connected_inloop py (card_env env) (dc_snapshot c) (dc_pending_cal c) L1)
                   (\<lambda>L2. Inr (c\<lparr> dc_loop := Some L2 \<rparr>))
               | DisconnectedCb \<Rightarrow> Inr (c\<lparr> dc_loop := Some (disconnected_inloop (card_env env) L1) \<rparr>)))"

subsection \<open>Runs\<close>

datatype dl_event =
    TapDatagram dl_env bytes
  | StatsRecord dl_env event
  | BusConnected dict
  | BusDisconnected
  | RunCallback dl_env
  | StatsLink bool

definition in_loop :: "(dl_state \<Rightarrow> dl_result) \<Rightarrow> controller \<Rightarrow> (controller \<times> bytes list) res" where
  "in_loop h c = (case dc_loop c of
     None \<Rightarrow> Inr (c, [])
   | Some L \<Rightarrow> res_bind (h (L, dc_status c)) (\<lambda>((L1, ds1), ps). Inr (c\<lparr> dc_loop := Some L1, dc_status := ds1 \<rparr>, ps)))"

text \<open>The statistics client connects and ends, as \<open>_stats_loop\<close> restarts it.\<close>

definition stats_link :: "bool \<Rightarrow> controller \<Rightarrow> controller" where
  "stats_link up c = (if dc_loop c = None then c else c\<lparr> dc_status := (dc_status c)\<lparr> ds_stats_connected := up \<rparr> \<rparr>)"

text \<open>A tap datagram reaches the loop only if the tap socket is bound.\<close>

fun dl_step :: "py_builtins \<Rightarrow> controller \<Rightarrow> dl_event \<Rightarrow> (controller \<times> bytes list) res" where
  "dl_step py c (TapDatagram env data) =
     in_loop (\<lambda>(L, ds). if dl_tap_bound L then on_tap env data (L, ds) else Inr ((L, ds), [])) c"
| "dl_step py c (StatsRecord env ev) = in_loop (on_event env ev) c"
| "dl_step py c (BusConnected payload) = res_bind (on_drone_connected (JObj payload) c) (\<lambda>c1. Inr (c1, []))"
| "dl_step py c BusDisconnected = Inr (on_drone_disconnected c, [])"
| "dl_step py c (RunCallback env) = res_bind (run_callback py env c) (\<lambda>c1. Inr (c1, []))"
| "dl_step py c (StatsLink up) = Inr (stats_link up c, [])"

fun dl_run :: "py_builtins \<Rightarrow> controller \<Rightarrow> dl_event list \<Rightarrow> (controller \<times> bytes list) res" where
  "dl_run py c [] = Inr (c, [])"
| "dl_run py c (e # es) =
     res_bind (dl_step py c e) (\<lambda>(c1, ps). res_bind (dl_run py c1 es) (\<lambda>(c2, qs). Inr (c2, ps @ qs)))"

subsection \<open>What the runs are compared with\<close>

text \<open>Persisted priors that load without an exception.\<close>

definition doc_loads :: "json \<Rightarrow> bool" where
  "doc_loads doc = (case jget doc ''snr'' JNull of
     Inl _ \<Rightarrow> False
   | Inr x \<Rightarrow> x = JNull \<or> (case load_dict x new_knee_model of Inl _ \<Rightarrow> False | Inr _ \<Rightarrow> True))"

definition disk_loads :: "prior_disk \<Rightarrow> bool" where
  "disk_loads d = (\<forall>path doc. files d path = Some (JsonFile doc) \<longrightarrow> doc_loads doc)"

definition prior_ok :: "learned_prior \<Rightarrow> bool" where
  "prior_ok lp = (lp_wf lp \<and> disk_loads (disk lp))"

text \<open>The packets of decisions \<open>ms\<close>, numbered from \<open>n\<close>.\<close>

fun packets :: "int \<Rightarrow> int list \<Rightarrow> bytes list" where
  "packets n [] = []"
| "packets n (m # ms) = wire_packet 0 (word_of_int n) (word_of_int m) # packets (n + 1) ms"

text \<open>Decisions that move one rung at most, from \<open>a\<close> to \<open>b\<close>.\<close>

fun ladder_path :: "int \<Rightarrow> int list \<Rightarrow> int \<Rightarrow> bool" where
  "ladder_path a [] b = (a = b)"
| "ladder_path a (m # ms) b = (\<bar>m - a\<bar> \<le> 1 \<and> ladder_path m ms b)"

text \<open>The loop's invariant, for a ladder with top rung \<open>cap\<close>.\<close>

definition rung :: "dl_loop \<Rightarrow> int" where
  "rung L = cur_mcs (dl_policy L)"

definition loop_ok :: "int \<Rightarrow> dl_loop \<Rightarrow> bool" where
  "loop_ok cap L =
     (pol_inv (dl_policy L) \<and> prior_ok (prior (dl_policy L)) \<and> max_mcs (cfg_selector (p_cfg (dl_policy L))) = cap
      \<and> cap < 256 \<and> 0 \<le> demote_cooldown_windows (cfg_selector (p_cfg (dl_policy L)))
      \<and> 0 \<le> enc_seq (dl_enc L) \<and> enc_seq (dl_enc L) < 2 ^ 32)"

text \<open>What a handler does to a loop and a status: it sends the decisions \<open>ms\<close>.\<close>

definition sends :: "int \<Rightarrow> dl_state \<Rightarrow> int list \<Rightarrow> dl_state \<Rightarrow> bool" where
  "sends cap x ms y = (case x of (L, ds) \<Rightarrow> case y of (L', ds') \<Rightarrow>
     loop_ok cap L' \<and> ladder_path (rung L) ms (rung L') \<and> (\<forall>m \<in> set ms. 0 \<le> m \<and> m \<le> cap)
     \<and> enc_seq (dl_enc L') = (enc_seq (dl_enc L) + int (length ms)) mod 2 ^ 32
     \<and> ds_emit_seq ds' = ds_emit_seq ds + int (length ms) \<and> dl_callbacks L' = dl_callbacks L)"

definition handled :: "int \<Rightarrow> dl_state \<Rightarrow> dl_result \<Rightarrow> bool" where
  "handled cap x r = (\<exists>y ms. r = Inr (y, packets (enc_seq (dl_enc (fst x))) ms) \<and> sends cap x ms y)"

text \<open>The controller's invariant while its loop runs.\<close>

definition radio_ok :: "json \<Rightarrow> bool" where
  "radio_ok r = is_dict (or_empty r)"

definition ctl_ok :: "int \<Rightarrow> controller \<Rightarrow> bool" where
  "ctl_ok cap c = ((case dc_loop c of None \<Rightarrow> False | Some L \<Rightarrow> loop_ok cap L)
     \<and> (case get_int (dc_snapshot c) ''linkWidth'' 20 of Inl _ \<Rightarrow> False | Inr _ \<Rightarrow> True) \<and> radio_ok (dc_pending_cal c))"

definition next_seq_of :: "controller \<Rightarrow> int" where
  "next_seq_of c = (case dc_loop c of None \<Rightarrow> 0 | Some L \<Rightarrow> enc_seq (dl_enc L))"

definition ctl_rung :: "controller \<Rightarrow> int" where
  "ctl_rung c = (case dc_loop c of None \<Rightarrow> 0 | Some L \<Rightarrow> rung L)"

text \<open>The payloads the connection monitor publishes, and events that carry such payloads.\<close>

definition connected_payload :: "real \<Rightarrow> json \<Rightarrow> dict" where
  "connected_payload now snapshot =
     [(''state'', JStr ''connected''), (''at_mono'', JFloat now), (''drone'', JObj (drone_info_of snapshot))]"

definition disconnected_payload :: "real \<Rightarrow> string \<Rightarrow> real \<Rightarrow> dict" where
  "disconnected_payload now reason seen =
     [(''state'', JStr ''disconnected''), (''at_mono'', JFloat now), (''reason'', JStr reason), (''last_seen_mono'', JFloat seen)]"

fun event_from_bus :: "dl_event \<Rightarrow> bool" where
  "event_from_bus (BusConnected p) = (\<exists>now s. p = connected_payload now s)"
| "event_from_bus _ = True"

definition bus_from_monitor :: "bus \<Rightarrow> bool" where
  "bus_from_monitor b = (case bus_read ''drone'' b of
     None \<Rightarrow> True
   | Some p \<Rightarrow> (\<exists>now s. p = connected_payload now s) \<or> (\<exists>now r seen. p = disconnected_payload now r seen))"

fun is_callback :: "dl_event \<Rightarrow> bool" where
  "is_callback (RunCallback env) = True"
| "is_callback _ = False"

text \<open>A run sends the decisions \<open>ms\<close>; \<open>q\<close> says that it ran no session callback.\<close>

definition ctl_sends :: "int \<Rightarrow> bool \<Rightarrow> controller \<Rightarrow> int list \<Rightarrow> controller \<Rightarrow> bool" where
  "ctl_sends cap q c ms c' = (ctl_ok cap c' \<and> (\<forall>m \<in> set ms. 0 \<le> m \<and> m \<le> cap)
     \<and> next_seq_of c' = (next_seq_of c + int (length ms)) mod 2 ^ 32
     \<and> ds_emit_seq (dc_status c') = ds_emit_seq (dc_status c) + int (length ms)
     \<and> (q \<longrightarrow> ladder_path (ctl_rung c) ms (ctl_rung c')))"

text \<open>A sequence of MICRO records, and that each arrives before the tap counts as stale.\<close>

fun micro_run :: "(dl_env \<times> tap_micro) list \<Rightarrow> dl_state \<Rightarrow> dl_result" where
  "micro_run [] x = Inr (x, [])"
| "micro_run ((env, rec) # rs) x = dl_then (on_micro env rec x) (micro_run rs)"

fun in_time :: "real \<Rightarrow> real \<Rightarrow> dl_env list \<Rightarrow> bool" where
  "in_time stale t [] = True"
| "in_time stale t (env # es) = (mono_now env - t < stale \<and> in_time stale (mono_now env) es)"

text \<open>A controller started with the default configuration while a drone is connected, for
  examples.\<close>

definition demo_py :: py_builtins where
  "demo_py = \<lparr> repr = (\<lambda>_. []), dict_of = (\<lambda>_. Inl TypeError) \<rparr>"

definition demo_senv :: start_env where
  "demo_senv = \<lparr> bind_ok = True, cap_open_ok = True, boot_card = calm \<rparr>"

definition demo_snapshot :: dict where
  "demo_snapshot = (case make_dl_snapshot default_config of Inr d \<Rightarrow> d | Inl _ \<Rightarrow> [])"

definition demo_drone :: dict where
  "demo_drone = [(''radio'', JObj [(''adapterId'', JStr ''rtl88'')])]"

definition demo_bus :: bus where
  "demo_bus = \<lparr> bus_subs = (\<lambda>_. None), bus_state = (\<lambda>k. if k = ''drone'' then Some (connected_payload 0 (JObj demo_drone)) else None) \<rparr>"

definition demo_disk :: prior_disk where
  "demo_disk = \<lparr> files = (\<lambda>_. None), writable = True \<rparr>"

definition demo_controller :: controller where
  "demo_controller = dl_start demo_py demo_senv (new_controller demo_snapshot demo_bus demo_disk [])"

definition demo_env :: dl_env where
  "demo_env = \<lparr> mono_now = 3, wall_now = 1000, feed = None, send_ok = True, capture_ok = True, latency_ms = 0, card_env = calm,
     dump_flight = (\<lambda>_. Some ''{}''), dump_tap = (\<lambda>_. []) \<rparr>"

definition demo_events :: "dl_event list" where
  "demo_events = [StatsRecord demo_env (RxEvent \<lparr> e_timestamp = 1000, e_id = ''video rx'', e_packets = [(''out'', 90)], e_ants = [sample_ant],
     e_session = None, e_tx_wlan = JNull \<rparr>)]"

section \<open>Lemmas\<close>

subsection \<open>Persisted priors\<close>

lemma load_dict_wf: "load_dict x m = Inr (b, m') \<Longrightarrow> km_wf m \<Longrightarrow> km_wf m'"
  by (auto simp: load_dict_def km_wf_def MAX_MCS_def dest!: res_map_length split: json.splits if_splits sum.splits)

lemma new_prior_ok:
  assumes "disk_loads dsk"
  shows "\<exists>lp. new_learned_prior key cfg dsk = Inr lp \<and> prior_ok lp \<and> disk lp = dsk \<and> lp_key lp = key"
proof -
  define lp0 where "lp0 = \<lparr> lp_key = key, lp_cfg = cfg, ephemeral = (key = UNBOUND_KEY), snr_model = new_knee_model,
      since_flush = 0, disk = dsk \<rparr>"
  have ok: "prior_ok (lp0\<lparr> snr_model := m \<rparr>)" if "km_wf m" for m
    using that assms by (simp add: prior_ok_def lp0_def lp_wf_def)
  have ok0: "prior_ok lp0" using ok [OF km_wf_new] by (simp add: lp0_def)
  show ?thesis
  proof (cases "\<exists>doc. files dsk (prior_path cfg key) = Some (JsonFile doc)")
    case True
    then obtain doc where doc: "files dsk (prior_path cfg key) = Some (JsonFile doc)" "doc_loads doc"
      using assms by (auto simp: disk_loads_def)
    show ?thesis
      using doc ok0 ok load_dict_wf [OF _ km_wf_new]
      by (auto simp: new_learned_prior_def load_prior_def doc_loads_def lp0_def [symmetric] split: sum.splits prod.splits)
        (auto simp: lp0_def)
  next
    case False
    then have "new_learned_prior key cfg dsk = Inr lp0"
      by (auto simp: new_learned_prior_def load_prior_def lp0_def split: option.split prior_file.split)
    then show ?thesis using ok0 by (simp add: lp0_def)
  qed
qed

lemma flush_prior_ok: "prior_ok lp \<Longrightarrow> prior_ok (flush_prior lp)"
proof -
  assume ok: "prior_ok lp"
  have "doc_loads (JObj [(''key'', JStr (lp_key lp)), (''snr'', knee_to_dict (snr_model lp))])"
    using ok load_dict_to_dict [of "snr_model lp" new_knee_model] by (simp add: doc_loads_def jget_def dget_def prior_ok_def lp_wf_def)
  then show ?thesis
    using ok by (auto simp: flush_prior_def prior_ok_def disk_loads_def lp_wf_def Let_def)
qed

lemma learn_prior_ok: "prior_ok lp \<Longrightarrow> prior_ok (learn r v c lp)"
proof -
  assume ok: "prior_ok lp"
  let ?lp1 = "lp\<lparr> snr_model := observe (lp_cfg lp) r v c (snr_model lp), since_flush := since_flush lp + 1 \<rparr>"
  have "prior_ok ?lp1" using ok by (simp add: prior_ok_def lp_wf_def)
  then show ?thesis
    using flush_prior_ok [of ?lp1] by (simp add: learn_def Let_def) (simp add: prior_ok_def lp_wf_def)
qed

subsection \<open>Packets and paths\<close>

lemma packets_cong: "a mod 2 ^ 32 = b mod 2 ^ 32 \<Longrightarrow> packets a ms = packets b ms"
proof (induction ms arbitrary: a b)
  case (Cons m ms)
  have "word_of_int a = (word_of_int b :: 32 word)" using Cons.prems by (simp add: word_of_int_eq_iff take_bit_eq_mod)
  moreover have "(a + 1) mod 2 ^ 32 = (b + 1) mod 2 ^ 32" using Cons.prems by (metis mod_add_left_eq)
  ultimately show ?case using Cons.IH [of "a + 1" "b + 1"] unfolding packets.simps by (metis (no_types))
qed simp

lemma packets_append: "packets n (ms @ ns) = packets n ms @ packets (n + int (length ms)) ns"
  by (induction ms arbitrary: n) (simp_all add: algebra_simps)

lemma ladder_path_append: "ladder_path a (ms @ ns) c \<longleftrightarrow> (\<exists>b. ladder_path a ms b \<and> ladder_path b ns c)"
  by (induction ms arbitrary: a) auto

lemma pol_inv_rung: "pol_inv p \<Longrightarrow> 0 \<le> cur_mcs p \<and> cur_mcs p \<le> max_mcs (cfg_selector (p_cfg p))"
  by (auto simp: pol_inv_def sel_inv_def cur_mcs_def)

subsection \<open>Handlers\<close>

text \<open>The parts of the state that the invariant speaks of.\<close>

definition same_core :: "dl_state \<Rightarrow> dl_state \<Rightarrow> bool" where
  "same_core x y = (dl_policy (fst x) = dl_policy (fst y) \<and> dl_enc (fst x) = dl_enc (fst y)
     \<and> dl_callbacks (fst x) = dl_callbacks (fst y) \<and> ds_emit_seq (snd x) = ds_emit_seq (snd y))"

lemma same_core_loop_ok: "same_core x y \<Longrightarrow> loop_ok cap (fst x) = loop_ok cap (fst y)"
  by (simp add: same_core_def loop_ok_def)

lemma same_core_handled:
  assumes "same_core x y"
  shows "handled cap x r = handled cap y r"
proof -
  have "sends cap x ms z = sends cap y ms z" for ms z
    using assms by (cases x; cases y; cases z) (simp add: sends_def same_core_def rung_def)
  then show ?thesis using assms by (simp add: handled_def same_core_def)
qed

lemma handled_quiet:
  assumes "loop_ok cap (fst y)" "same_core x y"
  shows "handled cap x (Inr (y, []))"
proof -
  have "sends cap y [] y" using assms(1) by (cases y) (simp add: sends_def loop_ok_def)
  then have "handled cap y (Inr (y, []))" unfolding handled_def by (metis packets.simps(1))
  then show ?thesis by (simp add: same_core_handled [OF assms(2)])
qed

lemma handled_then:
  assumes "handled cap x r" "\<And>y ms. sends cap x ms y \<Longrightarrow> handled cap y (f y)"
  shows "handled cap x (dl_then r f)"
proof -
  obtain y ms where y: "r = Inr (y, packets (enc_seq (dl_enc (fst x))) ms)" "sends cap x ms y"
    using assms(1) by (auto simp: handled_def)
  obtain z ns where z: "f y = Inr (z, packets (enc_seq (dl_enc (fst y))) ns)" "sends cap y ns z"
    using assms(2) [OF y(2)] by (auto simp: handled_def)
  let ?n = "enc_seq (dl_enc (fst x))"
  have e: "enc_seq (dl_enc (fst y)) = (?n + int (length ms)) mod 2 ^ 32"
    using y(2) by (cases x; cases y) (simp add: sends_def)
  have "packets (enc_seq (dl_enc (fst y))) ns = packets (?n + int (length ms)) ns"
    by (rule packets_cong) (simp add: e)
  then have "dl_then r f = Inr (z, packets ?n (ms @ ns))"
    by (simp add: dl_then_def y(1) z(1) packets_append)
  moreover have "sends cap x (ms @ ns) z"
  proof -
    obtain L ds L1 ds1 L2 ds2 where xyz: "x = (L, ds)" "y = (L1, ds1)" "z = (L2, ds2)" by (metis surj_pair)
    have "enc_seq (dl_enc L2) = (enc_seq (dl_enc L) + int (length (ms @ ns))) mod 2 ^ 32"
      using e z(2) by (simp add: xyz sends_def mod_simps algebra_simps)
    then show ?thesis using y(2) z(2) by (auto simp: xyz sends_def ladder_path_append)
  qed
  ultimately show ?thesis by (auto simp: handled_def)
qed

lemma emit_handled:
  assumes "loop_ok cap L" "rung L = d_mcs d" "\<bar>d_mcs d - rung L0\<bar> \<le> 1"
    and "dl_enc L0 = dl_enc L" "dl_callbacks L0 = dl_callbacks L"
  shows "handled cap (L0, ds) (emit env d (L, ds))"
proof -
  have m: "0 \<le> d_mcs d" "d_mcs d \<le> cap" "d_mcs d < 256"
    using assms(1,2) pol_inv_rung [of "dl_policy L"] by (auto simp: loop_ok_def rung_def)
  have e: "encode_raw VERSION 0 (enc_seq (dl_enc L)) (d_mcs d) =
      Inr (wire_packet 0 (word_of_int (enc_seq (dl_enc L))) (word_of_int (d_mcs d)))"
    using encode_raw_packet [of 0 "enc_seq (dl_enc L)" "d_mcs d"] assms(1) m by (simp add: loop_ok_def)
  define y where "y = (L\<lparr> dl_enc := (dl_enc L)\<lparr> enc_seq := (enc_seq (dl_enc L) + 1) mod 2 ^ 32 \<rparr>,
      dl_link := snd (rl_send (send_ok env) (dl_link L)) \<rparr>,
      ds\<lparr> ds_decision := Some (d_mcs d), ds_reason := d_reason d,
          ds_last_emit_ms := Some (py_int (mono_now env * 1000)), ds_emit_seq := ds_emit_seq ds + 1 \<rparr>)"
  have "emit env d (L, ds) = Inr (y, packets (enc_seq (dl_enc L0)) [d_mcs d])"
    using e assms(4) by (simp add: emit_def wire_encode_def y_def)
  moreover have "sends cap (L0, ds) [d_mcs d] y"
    using assms m by (simp add: sends_def y_def loop_ok_def rung_def)
  ultimately show ?thesis unfolding handled_def fst_conv by blast
qed

lemma tick_and_emit_handled:
  assumes "loop_ok cap L"
  shows "handled cap (L, ds) (tick_and_emit env (L, ds))"
proof -
  define g where "g = (dl_agg L)\<lparr> sig := (sig (dl_agg L))\<lparr> s_probe := probe_snapshot env \<rparr> \<rparr>"
  have inv: "pol_inv (dl_policy L)" "prior_ok (prior (dl_policy L))" using assms by (simp_all add: loop_ok_def)
  obtain d fr p where t: "tick (sig g) (dl_policy L) = Inr ((d, fr), p)" "pol_inv p" "p_cfg p = p_cfg (dl_policy L)"
    "cur_mcs p = d_mcs d" "\<bar>d_mcs d - cur_mcs (dl_policy L)\<bar> \<le> 1"
    using tick_outcome [OF inv(1), of "sig g"] by blast
  have pr: "prior_ok (prior p)" by (rule tick_prior_closed [OF learn_prior_ok inv(2) t(1)])
  let ?L = "L\<lparr> dl_agg := g, dl_policy := p, dl_flight := fl_write (card_env env) (dump_flight env fr) (dl_flight L) \<rparr>"
  have "tick_and_emit env (L, ds) = emit env d (?L, ds)" using t(1) by (simp add: tick_and_emit_def g_def)
  moreover have "handled cap (L, ds) (emit env d (?L, ds))"
    by (rule emit_handled) (use assms t pr in \<open>simp_all add: loop_ok_def rung_def\<close>)
  ultimately show ?thesis by simp
qed

lemma loss_and_emit_handled:
  assumes "loop_ok cap L"
  shows "handled cap (L, ds) (loss_and_emit env lat (L, ds))"
proof -
  have inv: "pol_inv (dl_policy L)" "prior_ok (prior (dl_policy L))" using assms by (simp_all add: loop_ok_def)
  obtain r p where t: "loss_event (sig (dl_agg L)) lat (dl_policy L) = Inr (r, p)" "pol_inv p" "p_cfg p = p_cfg (dl_policy L)"
    "case r of None \<Rightarrow> cur_mcs p = cur_mcs (dl_policy L) \<and> windows_since_demote p = windows_since_demote (dl_policy L)
      | Some (d, fr) \<Rightarrow> cur_mcs p = cur_mcs (dl_policy L) - 1 \<and> d_mcs d = cur_mcs p \<and> windows_since_demote p = 0 \<and>
          demote_cooldown_windows (cfg_selector (p_cfg (dl_policy L))) \<le> windows_since_demote (dl_policy L)"
    using loss_event_outcome [OF inv(1), of "sig (dl_agg L)" lat] by blast
  have pr: "prior_ok (prior p)" by (rule loss_event_prior_closed [OF learn_prior_ok inv(2) t(1)])
  show ?thesis
  proof (cases r)
    case None
    let ?y = "(L\<lparr> dl_policy := p \<rparr>, ds)"
    have "sends cap (L, ds) [] ?y" using assms t pr None by (simp add: sends_def loop_ok_def rung_def)
    moreover have "loss_and_emit env lat (L, ds) = Inr (?y, packets (enc_seq (dl_enc L)) [])"
      by (simp add: loss_and_emit_def t(1) None)
    ultimately show ?thesis unfolding handled_def fst_conv by blast
  next
    case (Some a)
    obtain d fr where a: "a = (d, fr)" by fastforce
    let ?L = "L\<lparr> dl_policy := p, dl_flight := fl_write (card_env env) (dump_flight env fr) (dl_flight L) \<rparr>"
    have "handled cap (L, ds) (emit env d (?L, ds))"
      by (rule emit_handled) (use assms t pr Some a in \<open>simp_all add: loop_ok_def rung_def\<close>)
    then show ?thesis by (simp add: loss_and_emit_def t(1) Some a)
  qed
qed

lemma same_core_refl [simp]: "same_core x x"
  by (simp add: same_core_def)

lemma same_core_mark [simp]: "same_core x (mark_tap_rx env x)"
  by (cases x) (simp add: same_core_def mark_tap_rx_def set_tap_active_def Let_def)

text \<open>A handler may change anything outside the core before it acts.\<close>

lemma handled_after:
  assumes "same_core x y" "loop_ok cap (fst x)" "loop_ok cap (fst y) \<Longrightarrow> handled cap y r"
  shows "handled cap x r"
  using assms by (simp add: same_core_handled [OF assms(1)] same_core_loop_ok [OF assms(1)])

lemma on_micro_handled:
  assumes "loop_ok cap (fst x)"
  shows "handled cap x (on_micro env rec x)"
proof -
  obtain L ds where m: "mark_tap_rx env x = (L, ds)" by fastforce
  define L2 where "L2 = (let L1 = capture_rec env (Micro rec) L in L1\<lparr> dl_agg := consume_micro rec (wall_now env) (dl_agg L1) \<rparr>)"
  have sc: "same_core x (L2, ds)"
    using same_core_mark [of x env] unfolding m by (simp add: same_core_def L2_def capture_rec_def Let_def)
  define cont where "cont = (\<lambda>(L3, ds3). let L4 = L3\<lparr> dl_micros := dl_micros L3 + 1 \<rparr>
           in if dl_micros L4 mod 10 = 0 then tick_and_emit env (L4, ds3) else Inr ((L4, ds3), []))"
  have cont: "handled cap y (cont y)" if "loop_ok cap (fst y)" for y
  proof -
    obtain L3 ds3 where y: "y = (L3, ds3)" by fastforce
    let ?z = "(L3\<lparr> dl_micros := dl_micros L3 + 1 \<rparr>, ds3)"
    have z: "same_core y ?z" by (simp add: y same_core_def)
    have "loop_ok cap (fst ?z)" using that y by (simp add: loop_ok_def)
    then have "handled cap ?z (tick_and_emit env ?z)" "handled cap ?z (Inr (?z, []))"
      using tick_and_emit_handled handled_quiet by simp_all
    then show ?thesis unfolding same_core_handled [OF z] by (simp add: cont_def y Let_def)
  qed
  have "handled cap (L2, ds) (dl_then (if m_pkt_lost rec \<noteq> 0 then loss_and_emit env None (L2, ds) else Inr ((L2, ds), [])) cont)"
    if "loop_ok cap L2"
  proof (rule handled_then)
    show "handled cap (L2, ds) (if m_pkt_lost rec \<noteq> 0 then loss_and_emit env None (L2, ds) else Inr ((L2, ds), []))"
      using that loss_and_emit_handled handled_quiet by simp
    show "handled cap y (cont y)" if "sends cap (L2, ds) ms y" for y ms
      using that cont by (cases y) (simp add: sends_def)
  qed
  then have "handled cap x (dl_then (if m_pkt_lost rec \<noteq> 0 then loss_and_emit env None (L2, ds) else Inr ((L2, ds), [])) cont)"
    by (intro handled_after [OF sc assms]) simp
  moreover have "on_micro env rec x =
      dl_then (if m_pkt_lost rec \<noteq> 0 then loss_and_emit env None (L2, ds) else Inr ((L2, ds), [])) cont"
    by (simp add: on_micro_def m L2_def cont_def Let_def)
  ultimately show ?thesis by (simp only:)
qed

lemma on_loss_handled:
  assumes "loop_ok cap (fst x)"
  shows "handled cap x (on_loss env rec x)"
proof -
  obtain L ds where m: "mark_tap_rx env x = (L, ds)" by fastforce
  define L2 where "L2 = (let L1 = capture_rec env (Loss rec) L in L1\<lparr> dl_agg := consume_loss rec (wall_now env) (dl_agg L1) \<rparr>)"
  have "same_core x (L2, ds)"
    using same_core_mark [of x env] unfolding m by (simp add: same_core_def L2_def capture_rec_def Let_def)
  then have "handled cap x (loss_and_emit env (Some (latency_ms env)) (L2, ds))"
    by (rule handled_after [OF _ assms]) (simp add: loss_and_emit_handled)
  moreover have "on_loss env rec x = loss_and_emit env (Some (latency_ms env)) (L2, ds)"
    by (simp add: on_loss_def m L2_def Let_def)
  ultimately show ?thesis by (simp only:)
qed

lemma tap_decode_error: "tap_decode data = Inl e \<Longrightarrow> e = TapDecodeError"
  by (auto simp: tap_decode_def decode_loss_def decode_micro_def Let_def split: if_splits)

lemma on_tap_handled:
  assumes "loop_ok cap L"
  shows "handled cap (L, ds) (on_tap env data (L, ds))"
proof -
  have "\<exists>r t. datagram_received data (dl_tap L) = Inr (r, t)"
    by (auto simp: datagram_received_def dest: tap_decode_error split: sum.split option.split)
  then obtain r t where r: "datagram_received data (dl_tap L) = Inr (r, t)" by blast
  define y where "y = (L\<lparr> dl_tap := t \<rparr>, ds)"
  have sc: "same_core (L, ds) y" by (simp add: y_def same_core_def)
  have e: "on_tap env data (L, ds) = (case r of None \<Rightarrow> Inr (y, []) | Some (Micro m) \<Rightarrow> on_micro env m y | Some (Loss l) \<Rightarrow> on_loss env l y)"
    unfolding y_def by (simp add: on_tap_def r Let_def)
  have ok: "loop_ok cap (fst y)" using assms same_core_loop_ok [OF sc] by simp
  have "handled cap y (on_tap env data (L, ds))"
  proof (cases r)
    case None
    then show ?thesis using e handled_quiet [OF ok, of y] by simp
  next
    case (Some q)
    then show ?thesis using e on_micro_handled [OF ok] on_loss_handled [OF ok] by (cases q) simp_all
  qed
  then show ?thesis by (simp only: same_core_handled [OF sc])
qed

lemma on_event_handled:
  assumes "loop_ok cap L"
  shows "handled cap (L, ds) (on_event env ev (L, ds))"
proof -
  have quiet: "handled cap (L, ds) (Inr ((L\<lparr> dl_agg := g \<rparr>, ds), []))" "handled cap (L, ds) (Inr ((L, ds), []))" for g
    by (rule handled_quiet; use assms in \<open>simp add: loop_ok_def same_core_def\<close>)+
  show ?thesis
  proof (cases ev)
    case (RxEvent e)
    define L1 where "L1 = (case e_session e of None \<Rightarrow> L | Some s \<Rightarrow> L\<lparr> dl_agg := update_session s (dl_agg L) \<rparr>)"
    obtain L2 ds2 where y: "(if s_tap_active (sig (dl_agg L1)) then set_tap_active False (L1, ds) else (L1, ds)) = (L2, ds2)" by fastforce
    have c1: "same_core (L, ds) (L1, ds)" by (simp add: same_core_def L1_def split: option.split)
    have c2: "same_core (L, ds) (L2\<lparr> dl_agg := consume e (dl_agg L2) \<rparr>, ds2)"
      using c1 y by (auto simp: same_core_def set_tap_active_def split: if_splits)
    have "handled cap (L, ds) (Inr ((L1, ds), []))"
      using assms handled_quiet same_core_loop_ok [OF c1] c1 by simp
    moreover have "handled cap (L, ds) (tick_and_emit env (L2\<lparr> dl_agg := consume e (dl_agg L2) \<rparr>, ds2))"
      using handled_after [OF c2] assms tick_and_emit_handled by simp
    ultimately show ?thesis using quiet y by (simp add: RxEvent on_event_def Let_def flip: L1_def)
  qed (use quiet in \<open>simp_all add: on_event_def\<close>)
qed

subsection \<open>The controller\<close>

lemma bind_calibration_ok:
  assumes "loop_ok cap L" "radio_ok radio" "get_int sn ''linkWidth'' 20 = Inr w"
  shows "\<exists>L'. bind_calibration py sn radio L = Inr L' \<and> loop_ok cap L' \<and> dl_enc L' = dl_enc L \<and> dl_callbacks L' = dl_callbacks L"
proof -
  obtain d where d: "or_empty radio = JObj d" using assms(2) by (auto simp: radio_ok_def is_dict_def split: json.splits)
  define a where "a = dget d ''adapterId'' JNull"
  let ?L1 = "L\<lparr> dl_agg := reset_smoothed (dl_agg L) \<rparr>"
  let ?p = "dl_policy L"
  have ok: "pol_inv ?p" "prior_ok (prior ?p)" using assms(1) by (simp_all add: loop_ok_def)
  have "\<exists>p. bind_learned_prior (to_str py a) w ?p = Inr p \<and> pol_inv p \<and> prior_ok (prior p) \<and> p_cfg p = p_cfg ?p"
  proof (cases "lp_key (prior ?p) = to_str py a @ ''__bw'' @ show_int w")
    case True
    then show ?thesis using ok by (simp add: bind_learned_prior_def Let_def)
  next
    case False
    obtain lp where lp: "new_learned_prior (to_str py a @ ''__bw'' @ show_int w) (cfg_prior (p_cfg ?p)) (disk (prior ?p)) = Inr lp" "prior_ok lp"
      using new_prior_ok ok(2) by (metis prior_ok_def)
    then show ?thesis using ok False by (simp add: bind_learned_prior_def Let_def pol_inv_def prior_ok_def)
  qed
  then obtain p where p: "bind_learned_prior (to_str py a) w ?p = Inr p" "pol_inv p" "prior_ok (prior p)" "p_cfg p = p_cfg ?p" by blast
  have "bind_calibration py sn radio L = (if truthy a then Inr (?L1\<lparr> dl_policy := p \<rparr>) else Inr ?L1)"
    using p(1) assms(3) by (simp add: bind_calibration_def d jget_def a_def [symmetric] Let_def)
  then show ?thesis using assms(1) p by (simp add: loop_ok_def)
qed

lemma connected_inloop_ok:
  assumes "loop_ok cap L" "radio_ok radio" "get_int sn ''linkWidth'' 20 = Inr w"
  shows "\<exists>L'. connected_inloop py env sn radio L = Inr L' \<and> loop_ok cap L' \<and> dl_enc L' = dl_enc L \<and> dl_callbacks L' = dl_callbacks L"
proof -
  obtain L1 where L1: "bind_calibration py sn radio L = Inr L1" "loop_ok cap L1" "dl_enc L1 = dl_enc L" "dl_callbacks L1 = dl_callbacks L"
    using bind_calibration_ok [OF assms] by blast
  obtain p where p: "reset_for_new_session (dl_policy L1) = Inr p" "pol_inv p" "prior p = prior (dl_policy L1)"
    using reset_outcome [of "dl_policy L1"] L1(2) by (auto simp: loop_ok_def)
  have "p_cfg p = p_cfg (dl_policy L1)" using p(1) by (auto simp: reset_for_new_session_def res_bind_eq_Inr)
  then show ?thesis using L1 p by (simp add: connected_inloop_def loop_ok_def)
qed

lemma disconnected_inloop_ok: "loop_ok cap L \<Longrightarrow> loop_ok cap (disconnected_inloop env L)"
  using flush_prior_ok [of "prior (dl_policy L)"]
  by (simp add: loop_ok_def disconnected_inloop_def pol_inv_def prior_ok_def)

lemma drone_info_radio: "radio_ok (dget (drone_info_of s) ''radio'' JNull)"
  by (auto simp: radio_ok_def drone_info_of_def dget_def or_empty_def is_dict_def split: json.splits)

lemma in_loop_ok:
  assumes "ctl_ok cap c" "\<And>L ds. loop_ok cap L \<Longrightarrow> handled cap (L, ds) (h (L, ds))"
  shows "\<exists>c' ms. in_loop h c = Inr (c', packets (next_seq_of c) ms) \<and> ctl_sends cap True c ms c'"
proof -
  obtain L where L: "dc_loop c = Some L" "loop_ok cap L" using assms(1) by (auto simp: ctl_ok_def split: option.splits)
  obtain L1 ds1 ms where h: "h (L, dc_status c) = Inr ((L1, ds1), packets (enc_seq (dl_enc L)) ms)"
    "sends cap (L, dc_status c) ms (L1, ds1)"
    using assms(2) [OF L(2), of "dc_status c"] by (auto simp: handled_def)
  then have "in_loop h c = Inr (c\<lparr> dc_loop := Some L1, dc_status := ds1 \<rparr>, packets (next_seq_of c) ms)"
    by (simp add: in_loop_def L(1) next_seq_of_def)
  moreover have "ctl_sends cap True c ms (c\<lparr> dc_loop := Some L1, dc_status := ds1 \<rparr>)"
    using h(2) assms(1) L(1) by (simp add: ctl_sends_def sends_def ctl_ok_def next_seq_of_def ctl_rung_def)
  ultimately show ?thesis by blast
qed

lemma or_empty_obj [simp]: "or_empty (JObj d) = JObj d"
  by (cases d) (simp_all add: or_empty_def)

lemma payload_radio_ok: "\<exists>r. payload_radio (JObj (connected_payload now s)) = Inr r \<and> radio_ok r"
  using drone_info_radio [of s] by (simp add: payload_radio_def connected_payload_def jget_def dget_def [of "_ # _"])

lemma ctl_quiet:
  assumes "ctl_ok cap c'" "next_seq_of c' = next_seq_of c" "ds_emit_seq (dc_status c') = ds_emit_seq (dc_status c)"
    and "q \<Longrightarrow> ctl_rung c' = ctl_rung c"
  shows "ctl_sends cap q c [] c'"
proof -
  have "0 \<le> next_seq_of c' \<and> next_seq_of c' < 2 ^ 32"
    using assms(1) by (auto simp: ctl_ok_def next_seq_of_def loop_ok_def split: option.splits)
  then show ?thesis using assms by (simp add: ctl_sends_def)
qed

lemma marshal_ok:
  assumes "ctl_ok cap c"
  shows "ctl_ok cap (marshal cb c) \<and> next_seq_of (marshal cb c) = next_seq_of c \<and> ctl_rung (marshal cb c) = ctl_rung c
    \<and> dc_status (marshal cb c) = dc_status c"
  using assms by (auto simp: marshal_def ctl_ok_def next_seq_of_def ctl_rung_def loop_ok_def rung_def split: option.splits)

lemma run_callback_ok:
  assumes "ctl_ok cap c"
  shows "\<exists>c'. run_callback py env c = Inr c' \<and> ctl_ok cap c' \<and> next_seq_of c' = next_seq_of c \<and> dc_status c' = dc_status c"
proof -
  obtain L where L: "dc_loop c = Some L" "loop_ok cap L" using assms by (auto simp: ctl_ok_def split: option.splits)
  obtain w where w: "get_int (dc_snapshot c) ''linkWidth'' 20 = Inr w" "radio_ok (dc_pending_cal c)"
    using assms by (auto simp: ctl_ok_def split: sum.splits)
  show ?thesis
  proof (cases "dl_callbacks L")
    case Nil
    then show ?thesis using assms by (simp add: run_callback_def L(1))
  next
    case (Cons cb cbs)
    define L1 where "L1 = L\<lparr> dl_callbacks := cbs \<rparr>"
    have L1: "loop_ok cap L1" "dl_enc L1 = dl_enc L" using L(2) by (simp_all add: L1_def loop_ok_def)
    obtain L2 where L2: "connected_inloop py (card_env env) (dc_snapshot c) (dc_pending_cal c) L1 = Inr L2" "loop_ok cap L2" "dl_enc L2 = dl_enc L"
      using connected_inloop_ok [OF L1(1) w(2,1)] L1(2) by force
    have L3: "loop_ok cap (disconnected_inloop (card_env env) L1)" "dl_enc (disconnected_inloop (card_env env) L1) = dl_enc L"
      using disconnected_inloop_ok [OF L1(1)] L1(2) by (simp_all add: disconnected_inloop_def)
    show ?thesis
      using L2 L3 w by (cases cb) (simp_all add: run_callback_def L(1) Cons L1_def [symmetric] ctl_ok_def next_seq_of_def)
  qed
qed

lemma dl_step_ok:
  assumes "ctl_ok cap c" "event_from_bus e"
  shows "\<exists>c' ms. dl_step py c e = Inr (c', packets (next_seq_of c) ms) \<and> ctl_sends cap (\<not> is_callback e) c ms c'"
proof (cases e)
  case (TapDatagram env data)
  have "handled cap (L, ds) ((\<lambda>(L, ds). if dl_tap_bound L then on_tap env data (L, ds) else Inr ((L, ds), [])) (L, ds))"
    if "loop_ok cap L" for L ds
    using that on_tap_handled [OF that] handled_quiet [of cap "(L, ds)" "(L, ds)"] by simp
  from in_loop_ok [OF assms(1) this] show ?thesis unfolding TapDatagram dl_step.simps is_callback.simps not_False_eq_True .
next
  case (StatsRecord env ev)
  have "handled cap (L, ds) (on_event env ev (L, ds))" if "loop_ok cap L" for L ds by (rule on_event_handled [OF that])
  from in_loop_ok [OF assms(1) this] show ?thesis
    unfolding StatsRecord dl_step.simps is_callback.simps not_False_eq_True .
next
  case (BusConnected payload)
  then obtain r where r: "payload_radio (JObj payload) = Inr r" "radio_ok r" using assms(2) payload_radio_ok by auto
  let ?c = "c\<lparr> dc_pending_cal := r \<rparr>"
  have "ctl_ok cap ?c" "next_seq_of ?c = next_seq_of c" "ctl_rung ?c = ctl_rung c" "dc_status ?c = dc_status c"
    using assms(1) r(2) by (simp_all add: ctl_ok_def next_seq_of_def ctl_rung_def)
  then have "ctl_sends cap True c [] (marshal ConnectedCb ?c)" using marshal_ok [of cap ?c] by (intro ctl_quiet) simp_all
  then show ?thesis using r(1) by (auto simp: BusConnected on_drone_connected_def intro: exI [of _ "[]"])
next
  case BusDisconnected
  have "ctl_sends cap True c [] (marshal DisconnectedCb c)" using marshal_ok [OF assms(1)] by (intro ctl_quiet) simp_all
  then show ?thesis by (auto simp: BusDisconnected on_drone_disconnected_def intro: exI [of _ "[]"])
next
  case (RunCallback env)
  obtain c' where c': "run_callback py env c = Inr c'" "ctl_ok cap c'" "next_seq_of c' = next_seq_of c" "dc_status c' = dc_status c"
    using run_callback_ok [OF assms(1)] by blast
  then have "ctl_sends cap False c [] c'" by (intro ctl_quiet) simp_all
  then show ?thesis using c'(1) by (auto simp: RunCallback intro: exI [of _ "[]"])
next
  case (StatsLink up)
  have "ctl_sends cap True c [] (stats_link up c)"
    by (rule ctl_quiet) (use assms(1) in \<open>auto simp: stats_link_def ctl_ok_def next_seq_of_def ctl_rung_def split: option.splits\<close>)
  then show ?thesis by (auto simp: StatsLink intro: exI [of _ "[]"])
qed

lemma ctl_sends_trans:
  assumes "ctl_sends cap q c ms c1" "ctl_sends cap q' c1 ns c2"
  shows "ctl_sends cap (q \<and> q') c (ms @ ns) c2"
proof -
  have "next_seq_of c2 = (next_seq_of c + int (length (ms @ ns))) mod 2 ^ 32"
    using assms by (simp add: ctl_sends_def mod_simps algebra_simps)
  then show ?thesis using assms by (auto simp: ctl_sends_def ladder_path_append)
qed

lemma dl_run_ok:
  assumes "ctl_ok cap c" "\<forall>e \<in> set es. event_from_bus e"
  shows "\<exists>c' ms. dl_run py c es = Inr (c', packets (next_seq_of c) ms) \<and> ctl_sends cap (\<forall>e \<in> set es. \<not> is_callback e) c ms c'"
  using assms
proof (induction es arbitrary: c)
  case Nil
  have "ctl_sends cap True c [] c" by (rule ctl_quiet) (use Nil in simp_all)
  then show ?case by (auto intro: exI [of _ "[]"])
next
  case (Cons e es)
  obtain c1 ms where 1: "dl_step py c e = Inr (c1, packets (next_seq_of c) ms)" "ctl_sends cap (\<not> is_callback e) c ms c1"
    using dl_step_ok [of cap c e py] Cons.prems by auto
  have "ctl_ok cap c1" using 1(2) by (simp add: ctl_sends_def)
  then obtain c2 ns where 2: "dl_run py c1 es = Inr (c2, packets (next_seq_of c1) ns)"
    "ctl_sends cap (\<forall>e \<in> set es. \<not> is_callback e) c1 ns c2"
    using Cons.IH [of c1] Cons.prems by auto
  have "packets (next_seq_of c1) ns = packets (next_seq_of c + int (length ms)) ns"
    by (rule packets_cong) (use 1(2) in \<open>simp add: ctl_sends_def\<close>)
  then have "dl_run py c (e # es) = Inr (c2, packets (next_seq_of c) (ms @ ns))" using 1(1) 2(1) by (simp add: packets_append)
  moreover have "ctl_sends cap (\<forall>e' \<in> set (e # es). \<not> is_callback e') c (ms @ ns) c2"
    using ctl_sends_trans [OF 1(2) 2(2)] by simp
  ultimately show ?case by blast
qed

subsection \<open>Starting\<close>

lemma tap_fields_ok:
  assumes "unless_none (dget sn ''tap'' JNull) validate_tap = Inr ()"
  shows "\<exists>en port stale raw. jget (or_empty (dget sn ''tap'' JNull)) ''enabled'' (JBool True) = Inr en
    \<and> res_bind (jget (or_empty (dget sn ''tap'' JNull)) ''port'' (JInt 8110)) to_int = Inr port
    \<and> res_bind (jget (or_empty (dget sn ''tap'' JNull)) ''staleMs'' (JInt 500)) to_float = Inr stale \<and> 0 < stale
    \<and> jget (or_empty (dget sn ''tap'' JNull)) ''captureRaw'' (JBool False) = Inr raw"
proof (cases "dget sn ''tap'' JNull = JNull")
  case True
  then show ?thesis by (simp add: or_empty_def jget_def dget_def [of "[]"] to_int_def to_float_def num_of_def)
next
  case False
  then have v: "validate_tap (dget sn ''tap'' JNull) = Inr ()" using assms by (simp add: unless_none_def)
  then obtain d where d: "dget sn ''tap'' JNull = JObj d" by (auto simp: validate_tap_def split: json.splits)
  have c: "int_in 1024 65535 (dget d ''port'' (JInt 8110))" "num_with (\<lambda>x. 0 < x) (dget d ''staleMs'' (JInt 500))"
    using v unfolding d validate_tap_def json.case in_order_Cons by simp_all
  have "\<exists>n. dget d ''port'' (JInt 8110) = JInt n" using c(1) by (auto simp: int_in_def split: json.splits)
  then show ?thesis using num_float [OF c(2)] by (auto simp: d jget_def to_int_def)
qed

lemma new_policy_ok:
  assumes "good_selector (cfg_selector pc)" "disk_loads dsk"
  shows "\<exists>p. new_policy pc key dsk = Inr p \<and> pol_inv p \<and> prior_ok (prior p) \<and> p_cfg p = pc \<and> lp_key (prior p) = key
    \<and> disk (prior p) = dsk"
proof -
  have s: "0 \<le> max_mcs (cfg_selector pc)" "demote_cooldown_windows (cfg_selector pc) = 3" using assms(1) by (simp_all add: good_selector_def)
  then obtain sel where sel: "new_selector (cfg_selector pc) = Inr sel" by (auto simp: new_selector_def Let_def)
  obtain lp where lp: "new_learned_prior key (cfg_prior pc) dsk = Inr lp" "prior_ok lp" "disk lp = dsk" "lp_key lp = key"
    using new_prior_ok [OF assms(2)] by blast
  show ?thesis using sel_inv_new [OF sel] s lp by (simp add: new_policy_def sel pol_inv_def prior_ok_def)
qed

lemma build_loop_ok:
  assumes "validate_effective bfc cfg = Inr ()" "concrete cfg" "make_dl_snapshot cfg = Inr sn" "disk_loads dsk"
  shows "\<exists>L pc fl. build_loop senv sn dsk dir = Inr L \<and> build_policy_config sn = Inr (pc, fl) \<and> good_selector (cfg_selector pc)
    \<and> loop_ok (max_mcs (cfg_selector pc)) L \<and> dl_enc L = \<lparr> enc_seq = 1 \<rparr> \<and> dl_callbacks L = [] \<and> p_cfg (dl_policy L) = pc
    \<and> lp_key (prior (dl_policy L)) = UNBOUND_KEY \<and> disk (prior (dl_policy L)) = dsk
    \<and> get_int sn ''linkWidth'' 20 = Inr (cfg_link_width pc)"
proof -
  obtain pc fl g host port where b: "build_policy_config sn = Inr (pc, fl)" "build_aggregator sn = Inr g" "good_selector (cfg_selector pc)"
    "get_int sn ''linkWidth'' 20 = Inr (cfg_link_width pc)" "map_of sn ''droneAddr'' = Some host" "map_of sn ''dronePort'' = Some (JInt port)"
    "unless_none (dget sn ''tap'' JNull) validate_tap = Inr ()"
    using config_builds [OF assms(1,2)] assms(3) by auto
  obtain p where p: "new_policy pc UNBOUND_KEY dsk = Inr p" "pol_inv p" "prior_ok (prior p)" "p_cfg p = pc" "lp_key (prior p) = UNBOUND_KEY"
    "disk (prior p) = dsk" using new_policy_ok [OF b(3) assms(4)] by blast
  obtain en tp stale raw where t: "jget (or_empty (dget sn ''tap'' JNull)) ''enabled'' (JBool True) = Inr en"
    "res_bind (jget (or_empty (dget sn ''tap'' JNull)) ''port'' (JInt 8110)) to_int = Inr tp"
    "res_bind (jget (or_empty (dget sn ''tap'' JNull)) ''staleMs'' (JInt 500)) to_float = Inr stale"
    "jget (or_empty (dget sn ''tap'' JNull)) ''captureRaw'' (JBool False) = Inr raw"
    using tap_fields_ok [OF b(7)] by blast
  have j: "jsub (JObj sn) ''droneAddr'' = Inr host" "jsub (JObj sn) ''dronePort'' = Inr (JInt port)" "to_int (JInt port) = Inr port"
    using b(5,6) by (simp_all add: jsub_def to_int_def)
  have m: "max_mcs (cfg_selector pc) < 256" "0 \<le> demote_cooldown_windows (cfg_selector pc)" using b(3) by (simp_all add: good_selector_def)
  show ?thesis
    using p m by (simp add: build_loop_def b(1,2,3,4) p(1) t j loop_ok_def)
qed

lemma seed_ok:
  assumes "bus_from_monitor b"
  shows "\<exists>r. seed_from_cached_connection b = Inr r \<and> (\<forall>radio. r = Some radio \<longrightarrow> radio_ok radio)"
proof (cases "bus_read ''drone'' b")
  case (Some p)
  have "py_eq (JStr ''disconnected'') (JStr ''connected'') = False" "py_eq (JStr ''connected'') (JStr ''connected'')" by (simp_all add: py_eq.simps)
  then show ?thesis
    using assms Some drone_info_radio
    by (auto simp: bus_from_monitor_def seed_from_cached_connection_def connected_payload_def disconnected_payload_def jget_def
        dget_def [of "_ # _"])
qed (simp add: seed_from_cached_connection_def)

lemma dl_start_ok:
  assumes "validate_effective bfc cfg = Inr ()" "concrete cfg" "make_dl_snapshot cfg = Inr (dc_snapshot c)" "disk_loads (dc_prior_disk c)"
    and "bus_from_monitor (dc_bus c)" "dc_loop c = None" "radio_ok (dc_pending_cal c)"
  shows "\<exists>pc fl. build_policy_config (dc_snapshot c) = Inr (pc, fl) \<and> ctl_ok (max_mcs (cfg_selector pc)) (dl_start py senv c)
    \<and> next_seq_of (dl_start py senv c) = 1 \<and> ds_emit_seq (dc_status (dl_start py senv c)) = ds_emit_seq (dc_status c)"
proof -
  obtain L pc fl where L: "build_loop senv (dc_snapshot c) (dc_prior_disk c) (dc_flight_dir c) = Inr L"
    "build_policy_config (dc_snapshot c) = Inr (pc, fl)" "loop_ok (max_mcs (cfg_selector pc)) L" "dl_enc L = \<lparr> enc_seq = 1 \<rparr>"
    "get_int (dc_snapshot c) ''linkWidth'' 20 = Inr (cfg_link_width pc)"
    using build_loop_ok [OF assms(1-4), of senv "dc_flight_dir c"] by blast
  obtain r where r: "seed_from_cached_connection (dc_bus c) = Inr r" "\<And>radio. r = Some radio \<Longrightarrow> radio_ok radio"
    using seed_ok [OF assms(5)] by blast
  show ?thesis
  proof (cases r)
    case None
    then show ?thesis using L r(1) assms(6,7) by (simp add: dl_start_def ctl_ok_def next_seq_of_def)
  next
    case (Some radio)
    obtain L' where "connected_inloop py (boot_card senv) (dc_snapshot c) radio L = Inr L'" "loop_ok (max_mcs (cfg_selector pc)) L'"
      "dl_enc L' = dl_enc L"
      using connected_inloop_ok [OF L(3) r(2) [OF Some] L(5)] by blast
    then show ?thesis using L r Some assms(6) by (simp add: dl_start_def ctl_ok_def next_seq_of_def)
  qed
qed

subsection \<open>Packets on the air\<close>

lemma length_packets [simp]: "length (packets n ms) = length ms"
  by (induction ms arbitrary: n) simp_all

lemma packets_nth: "i < length ms \<Longrightarrow> packets n ms ! i = wire_packet 0 (word_of_int (n + int i)) (word_of_int (ms ! i))"
proof (induction ms arbitrary: n i)
  case (Cons m ms)
  then show ?case by (cases i) (simp_all add: algebra_simps)
qed simp

lemma packets_numbered:
  assumes "n \<le> k" "k < n + int (length ms)"
  shows "packets n ms ! nat (k - n) = numbered (\<lambda>k. ms ! nat (k - n)) k"
  using packets_nth [of "nat (k - n)" ms n] assms by (simp add: numbered_def nat_less_iff)

lemma packets_arrivals:
  assumes "length ts = length ks" "\<forall>k \<in> set ks. n \<le> k \<and> k < n + int (length ms)"
  shows "map2 Datagram ts (map (\<lambda>k. packets n ms ! nat (k - n)) ks) = arrivals (\<lambda>k. ms ! nat (k - n)) ts ks"
  using assms
proof (induction ks arbitrary: ts)
  case (Cons k ks)
  then show ?case using packets_numbered [of n k ms] by (cases ts) auto
qed simp

lemma packets_as_map: "packets n ms = map (\<lambda>k. packets n ms ! nat (k - n)) (map (\<lambda>i. n + int i) [0..<length ms])"
  by (rule nth_equalityI) simp_all

text \<open>A drone that has accepted number \<open>b\<close> ignores packets numbered from 1 up to \<open>b\<close>.\<close>

lemma stale_stream_ignored:
  assumes "ever (in_dedup s)" "lastSeq (in_dedup s) = word_of_int b" "b < 2 ^ 31" "int (length ms) \<le> b"
    and "\<forall>m \<in> set ms. 0 \<le> m \<and> m < 256" "length ts = length ms"
  shows "fst (snd (intake_run s (map2 Datagram ts (packets 1 ms)))) = []"
proof -
  let ?ks = "map (\<lambda>i. 1 + int i) [0..<length ms]" and ?m = "\<lambda>k. ms ! nat (k - 1)"
  have ks: "\<forall>k \<in> set ?ks. 1 \<le> k \<and> k < 1 + int (length ms)" by auto
  have m: "0 \<le> ?m k \<and> ?m k < 256" if "k \<in> set ?ks" for k using that assms(5) by auto
  have a: "map2 Datagram ts (packets 1 ms) = arrivals ?m ts ?ks"
    using packets_arrivals [OF _ ks, of ts] assms(6) packets_as_map [of 1 ms] by simp
  have r: "\<forall>k \<in> set ?ks. 0 \<le> k \<and> k < 0 + 2 ^ 31 \<and> 0 \<le> ?m k \<and> ?m k < 256"
    using ks m assms(3,4) by fastforce
  have "records_above b ?ks = []" by (rule records_above_none) (use assms(4) in auto)
  then have "map decision_of (fst (snd (intake_run s (arrivals ?m ts ?ks)))) = []"
    using intake_stream [OF assms(1,2) r, of ts] assms(3,4,6) by simp
  then show ?thesis unfolding a by simp
qed

subsection \<open>Reconfiguration\<close>

lemma set_config_running:
  assumes "dc_loop c = Some L"
  shows "set_config py env senv sn c = dl_start py senv
    (c\<lparr> dc_loop := None, dc_status := (dc_status c)\<lparr> ds_running := False, ds_stats_connected := False \<rparr>,
        dc_prior_disk := disk (flush_prior (prior (dl_policy L))), dc_flight_dir := fl_dir (fl_close env (dl_flight L)), dc_snapshot := sn \<rparr>)"
  using assms by (simp add: set_config_def dl_stop_def close_policy_def Let_def)

lemma set_config_ok:
  assumes "ctl_ok cap c" "bus_from_monitor (dc_bus c)"
    and "validate_effective bfc cfg = Inr ()" "concrete cfg" "make_dl_snapshot cfg = Inr sn"
  shows "\<exists>pc fl. build_policy_config sn = Inr (pc, fl) \<and> max_mcs (cfg_selector pc) < 256
    \<and> ctl_ok (max_mcs (cfg_selector pc)) (set_config py env senv sn c) \<and> next_seq_of (set_config py env senv sn c) = 1"
proof -
  obtain L where L: "dc_loop c = Some L" "loop_ok cap L" "radio_ok (dc_pending_cal c)"
    using assms(1) by (auto simp: ctl_ok_def split: option.splits)
  define c1 where "c1 = c\<lparr> dc_loop := None, dc_status := (dc_status c)\<lparr> ds_running := False, ds_stats_connected := False \<rparr>,
      dc_prior_disk := disk (flush_prior (prior (dl_policy L))), dc_flight_dir := fl_dir (fl_close env (dl_flight L)), dc_snapshot := sn \<rparr>"
  have "disk_loads (dc_prior_disk c1)"
    using flush_prior_ok [of "prior (dl_policy L)"] L(2) by (simp add: c1_def loop_ok_def prior_ok_def)
  then obtain pc fl where b: "build_policy_config sn = Inr (pc, fl)" "ctl_ok (max_mcs (cfg_selector pc)) (dl_start py senv c1)"
    "next_seq_of (dl_start py senv c1) = 1"
    using dl_start_ok [of bfc cfg c1 py senv] assms(2-5) L(3) by (auto simp: c1_def)
  moreover have "max_mcs (cfg_selector pc) < 256"
    using b(2) by (auto simp: ctl_ok_def loop_ok_def split: option.splits)
  ultimately show ?thesis unfolding set_config_running [OF L(1)] c1_def [symmetric] by blast
qed

text \<open>A flushed prior is found again under its key, whatever else is configured.\<close>

lemma flush_reload:
  assumes "lp_wf lp" "\<not> ephemeral lp" "writable (disk lp)" "persist_dir cfg = persist_dir (lp_cfg lp)"
  shows "\<exists>lp'. new_learned_prior (lp_key lp) cfg (disk (flush_prior lp)) = Inr lp' \<and> snr_model lp' = snr_model lp \<and> lp_key lp' = lp_key lp"
proof -
  have path: "prior_path cfg (lp_key lp) = prior_path (lp_cfg lp) (lp_key lp)" using assms(4) by (simp add: prior_path_def)
  have "knee_to_dict (snr_model lp) \<noteq> JNull" by (simp add: knee_to_dict_def)
  moreover have "new_knee_model\<lparr> knee := knee (snr_model lp), count := count (snr_model lp) \<rparr> = snr_model lp"
    by (simp add: new_knee_model_def)
  ultimately show ?thesis
    using assms by (simp add: new_learned_prior_def load_prior_def flush_prior_def lp_wf_def Let_def load_dict_to_dict path jget_def dget_def)
qed

lemma build_learned_prior_dir: "build_learned_prior l = Inr pc \<Longrightarrow> persist_dir pc = persist_dir default_prior_cfg"
  by (auto simp: build_learned_prior_def Let_def res_bind_eq_Inr)

lemma build_policy_dir: "build_policy_config sn = Inr (pc, fl) \<Longrightarrow> persist_dir (cfg_prior pc) = persist_dir default_prior_cfg"
  by (auto simp: build_policy_config_def res_bind_eq_Inr dest: build_learned_prior_dir)

lemma connected_binds:
  assumes "radio = JObj r" "dget r ''adapterId'' JNull = JStr a" "a \<noteq> []" "get_int sn ''linkWidth'' 20 = Inr w"
    and "lp_key (prior (dl_policy L)) \<noteq> a @ ''__bw'' @ show_int w"
    and "new_learned_prior (a @ ''__bw'' @ show_int w) (cfg_prior (p_cfg (dl_policy L))) (disk (prior (dl_policy L))) = Inr lp"
    and "connected_inloop py env sn radio L = Inr L'"
  shows "prior (dl_policy L') = lp"
proof -
  have "truthy (JStr a)" using assms(3) by (cases a) simp_all
  then have "bind_calibration py sn radio L = Inr (L\<lparr> dl_agg := reset_smoothed (dl_agg L),
      dl_policy := (dl_policy L)\<lparr> profile_name := a, prior := lp \<rparr> \<rparr>)"
    using assms(2-6) by (simp add: bind_calibration_def assms(1) jget_def to_str_def bind_learned_prior_def Let_def)
  then show ?thesis
    using assms(7) by (auto simp: connected_inloop_def res_bind_eq_Inr reset_for_new_session_def)
qed

lemma bound_key: "a @ ''__bw'' @ show_int w \<noteq> UNBOUND_KEY"
proof
  assume e: "a @ ''__bw'' @ show_int w = UNBOUND_KEY"
  have "CHR ''w'' \<in> set (a @ ''__bw'' @ show_int w)" by simp
  then show False unfolding e by (simp add: UNBOUND_KEY_def)
qed

lemma dl_start_connected:
  assumes "dc_loop c = None" "build_loop senv (dc_snapshot c) (dc_prior_disk c) (dc_flight_dir c) = Inr L"
    and "seed_from_cached_connection (dc_bus c) = Inr (Some radio)"
    and "connected_inloop py (boot_card senv) (dc_snapshot c) radio L = Inr L'"
  shows "dc_loop (dl_start py senv c) = Some L'"
  using assms by (simp add: dl_start_def)

lemma connected_rung:
  assumes "connected_inloop py env sn radio L = Inr L'" "loop_ok cap L" "radio_ok radio" "get_int sn ''linkWidth'' 20 = Inr w"
  shows "rung L' = min 1 cap"
proof -
  obtain L1 where L1: "bind_calibration py sn radio L = Inr L1" "loop_ok cap L1" using bind_calibration_ok [OF assms(2-4)] by blast
  then show ?thesis
    using reset_outcome [of "dl_policy L1"] assms(1) by (auto simp: loop_ok_def connected_inloop_def rung_def)
qed

subsection \<open>One tick, one packet\<close>

lemma tick_and_emit_one:
  assumes "loop_ok cap L"
  shows "\<exists>L' ds' p. tick_and_emit env (L, ds) = Inr ((L', ds'), [p]) \<and> ds_decision ds' = Some (rung L')
    \<and> s_tap_active (sig (dl_agg L')) = s_tap_active (sig (dl_agg L)) \<and> ds_tap_active ds' = ds_tap_active ds
    \<and> dl_micros L' = dl_micros L \<and> dl_last_rx L' = dl_last_rx L \<and> dl_stale_s L' = dl_stale_s L"
proof -
  define g where "g = (dl_agg L)\<lparr> sig := (sig (dl_agg L))\<lparr> s_probe := probe_snapshot env \<rparr> \<rparr>"
  have inv: "pol_inv (dl_policy L)" using assms by (simp add: loop_ok_def)
  obtain d fr p where t: "tick (sig g) (dl_policy L) = Inr ((d, fr), p)" "pol_inv p" "p_cfg p = p_cfg (dl_policy L)" "cur_mcs p = d_mcs d"
    using tick_outcome [OF inv, of "sig g"] by blast
  have m: "0 \<le> d_mcs d" "d_mcs d < 256" using pol_inv_rung [OF t(2)] t(3,4) assms by (auto simp: loop_ok_def)
  have "encode_raw VERSION 0 (enc_seq (dl_enc L)) (d_mcs d) =
      Inr (wire_packet 0 (word_of_int (enc_seq (dl_enc L))) (word_of_int (d_mcs d)))"
    using encode_raw_packet [of 0 "enc_seq (dl_enc L)" "d_mcs d"] assms m by (simp add: loop_ok_def)
  then show ?thesis
    using t(1,4) by (simp add: tick_and_emit_def emit_def wire_encode_def rung_def g_def)
qed

lemma consume_tap_active [simp]: "s_tap_active (sig (consume e g)) = s_tap_active (sig g)"
proof -
  have "s_tap_active (window_rates a b c s) = s_tap_active s" "s_tap_active (starvation t s) = s_tap_active s"
    "s_tap_active (smooth_radio r s) = s_tap_active s" "s_tap_active (fold_ants ants s) = s_tap_active s" for a b c s t r ants
    by (simp_all add: window_rates_def starvation_def smooth_radio_def fold_ants_def fold_evm_def Let_def split: option.split prod.split)
  then show ?thesis by (simp add: consume_def Let_def)
qed

lemma on_micro_clean:
  assumes "loop_ok cap L" "m_pkt_lost rec = 0" "tap_alive env L"
  shows "\<exists>L' ds' ps. on_micro env rec (L, ds) = Inr ((L', ds'), ps) \<and> loop_ok cap L' \<and> length ps = (if (dl_micros L + 1) mod 10 = 0 then 1 else 0)
    \<and> dl_micros L' = dl_micros L + 1 \<and> dl_last_rx L' = Some (mono_now env) \<and> dl_stale_s L' = dl_stale_s L"
proof -
  define L1 where "L1 = capture_rec env (Micro rec) (L\<lparr> dl_last_rx := Some (mono_now env) \<rparr>)"
  define L4 where "L4 = L1\<lparr> dl_agg := consume_micro rec (wall_now env) (dl_agg L1), dl_micros := dl_micros L + 1 \<rparr>"
  have L4: "loop_ok cap L4" "dl_micros L4 = dl_micros L + 1" "dl_last_rx L4 = Some (mono_now env)" "dl_stale_s L4 = dl_stale_s L"
    using assms(1) by (simp_all add: L4_def L1_def capture_rec_def loop_ok_def)
  have e: "on_micro env rec (L, ds) = (if (dl_micros L + 1) mod 10 = 0 then tick_and_emit env (L4, ds) else Inr ((L4, ds), []))"
  proof -
    have m: "dl_micros L1 = dl_micros L" by (simp add: L1_def capture_rec_def)
    have "on_micro env rec (L, ds) = dl_then (Inr ((L1\<lparr> dl_agg := consume_micro rec (wall_now env) (dl_agg L1) \<rparr>, ds), []))
        (\<lambda>(L3, ds3). let L4 = L3\<lparr> dl_micros := dl_micros L3 + 1 \<rparr>
           in if dl_micros L4 mod 10 = 0 then tick_and_emit env (L4, ds3) else Inr ((L4, ds3), []))"
      using assms(2,3) by (simp add: on_micro_def mark_tap_rx_def L1_def Let_def)
    then show ?thesis
      by (simp add: dl_then_def m Let_def flip: L4_def) (cases "tick_and_emit env (L4, ds)"; auto)
  qed
  show ?thesis
  proof (cases "(dl_micros L + 1) mod 10 = 0")
    case True
    obtain L' ds' p where "tick_and_emit env (L4, ds) = Inr ((L', ds'), [p])" "dl_micros L' = dl_micros L4" "dl_last_rx L' = dl_last_rx L4"
      "dl_stale_s L' = dl_stale_s L4" using tick_and_emit_one [OF L4(1), of env ds] by blast
    moreover from this have "loop_ok cap L'" using tick_and_emit_handled [OF L4(1), of ds env] by (auto simp: handled_def sends_def)
    ultimately show ?thesis using e True L4 by simp
  next
    case False
    then show ?thesis using e L4 by auto
  qed
qed

lemma div_step: "0 \<le> (n :: int) \<Longrightarrow> (n + 1) div 10 = n div 10 + (if (n + 1) mod 10 = 0 then 1 else 0)"
  by presburger

lemma micro_run_cadence:
  assumes "loop_ok cap L" "\<forall>(env, rec) \<in> set rs. m_pkt_lost rec = 0" "dl_last_rx L = Some t" "in_time (dl_stale_s L) t (map fst rs)" "0 \<le> dl_micros L"
  shows "\<exists>y ps. micro_run rs (L, ds) = Inr (y, ps) \<and> int (length ps) = (dl_micros L + int (length rs)) div 10 - dl_micros L div 10"
  using assms
proof (induction rs arbitrary: L ds t)
  case (Cons r rs)
  obtain env rec where r: "r = (env, rec)" by fastforce
  have al: "tap_alive env L" using Cons.prems r by (simp add: tap_alive_def)
  obtain L' ds' ps where 1: "on_micro env rec (L, ds) = Inr ((L', ds'), ps)" "loop_ok cap L'"
    "length ps = (if (dl_micros L + 1) mod 10 = 0 then 1 else 0)" "dl_micros L' = dl_micros L + 1" "dl_last_rx L' = Some (mono_now env)"
    "dl_stale_s L' = dl_stale_s L"
    using on_micro_clean [OF Cons.prems(1) _ al, of rec ds] Cons.prems(2) r by auto
  obtain y qs where 2: "micro_run rs (L', ds') = Inr (y, qs)"
    "int (length qs) = (dl_micros L + 1 + int (length rs)) div 10 - (dl_micros L + 1) div 10"
    using Cons.IH [OF 1(2) _ 1(5), of ds'] Cons.prems r 1(4,6) by auto
  have "micro_run (r # rs) (L, ds) = Inr (y, ps @ qs)" using 1(1) 2(1) by (simp add: r dl_then_def)
  moreover have "int (length (ps @ qs)) = (dl_micros L + int (length (r # rs))) div 10 - dl_micros L div 10"
    using 2(2) 1(3) div_step [OF Cons.prems(5)] by (simp add: algebra_simps split: if_splits)
  ultimately show ?case by blast
qed simp

lemma rx_tap_alive:
  assumes "is_video (e_id e)" "tap_alive env L"
  shows "\<exists>L'. on_event env (RxEvent e) (L, ds) = Inr ((L', ds), []) \<and> dl_policy L' = dl_policy L \<and> micro (dl_agg L') = micro (dl_agg L)
    \<and> pending_lost (dl_agg L') = pending_lost (dl_agg L)"
proof -
  define L1 where "L1 = (case e_session e of None \<Rightarrow> L | Some s \<Rightarrow> L\<lparr> dl_agg := update_session s (dl_agg L) \<rparr>)"
  have L1: "dl_policy L1 = dl_policy L" "micro (dl_agg L1) = micro (dl_agg L)" "pending_lost (dl_agg L1) = pending_lost (dl_agg L)"
    "tap_alive env L1"
    using assms(2) by (simp_all add: L1_def update_session_def tap_alive_def split: option.splits)
  then show ?thesis using assms(1) by (simp add: on_event_def Let_def flip: L1_def)
qed

lemma rx_fallback:
  assumes "loop_ok cap L" "is_video (e_id e)" "\<not> tap_alive env L"
  shows "\<exists>L' ds' p. on_event env (RxEvent e) (L, ds) = Inr ((L', ds'), [p]) \<and> \<not> s_tap_active (sig (dl_agg L')) \<and> ds_decision ds' = Some (rung L')"
proof -
  define L1 where "L1 = (case e_session e of None \<Rightarrow> L | Some s \<Rightarrow> L\<lparr> dl_agg := update_session s (dl_agg L) \<rparr>)"
  have L1: "dl_policy L1 = dl_policy L" "\<not> tap_alive env L1"
    using assms(3) by (simp_all add: L1_def update_session_def tap_alive_def split: option.splits)
  obtain L2 ds2 where y: "(if s_tap_active (sig (dl_agg L1)) then set_tap_active False (L1, ds) else (L1, ds)) = (L2, ds2)" by fastforce
  have L2: "loop_ok cap L2" "\<not> s_tap_active (sig (dl_agg L2))"
    using y assms(1) L1(1) by (auto simp: set_tap_active_def loop_ok_def L1_def split: if_splits option.splits)
  let ?L3 = "L2\<lparr> dl_agg := consume e (dl_agg L2) \<rparr>"
  have "loop_ok cap ?L3" using L2(1) by (simp add: loop_ok_def)
  note one = tick_and_emit_one [OF this, of env ds2]
  have "on_event env (RxEvent e) (L, ds) = tick_and_emit env (?L3, ds2)"
    using assms(2) L1(2) y
    by (cases "s_tap_active (sig (dl_agg L1))") (simp_all add: on_event_def Let_def flip: L1_def)
  then show ?thesis using one L2(2) by auto
qed

subsection \<open>The example controller\<close>

lemma demo_ok:
  "validate_effective None default_config = Inr ()" "concrete default_config" "make_dl_snapshot default_config = Inr demo_snapshot"
  "bus_from_monitor demo_bus" "disk_loads demo_disk"
proof -
  show "validate_effective None default_config = Inr ()" "concrete default_config" by code_simp+
  show "make_dl_snapshot default_config = Inr demo_snapshot" by code_simp
  show "bus_from_monitor demo_bus" by (auto simp: bus_from_monitor_def bus_read_def demo_bus_def)
  show "disk_loads demo_disk" by (simp add: disk_loads_def demo_disk_def)
qed

lemma demo_running:
  "dc_bus demo_controller = demo_bus"
  "case dc_loop demo_controller of None \<Rightarrow> False | Some L \<Rightarrow> lp_key (prior (dl_policy L)) = ''rtl88__bw20''
    \<and> writable (disk (prior (dl_policy L))) \<and> persist_dir (lp_cfg (prior (dl_policy L))) = persist_dir default_prior_cfg"
proof -
  show "dc_bus demo_controller = demo_bus" by (simp add: demo_controller_def dl_start_def new_controller_def split: sum.split)
  show "case dc_loop demo_controller of None \<Rightarrow> False | Some L \<Rightarrow> lp_key (prior (dl_policy L)) = ''rtl88__bw20''
    \<and> writable (disk (prior (dl_policy L))) \<and> persist_dir (lp_cfg (prior (dl_policy L))) = persist_dir default_prior_cfg"
    by code_simp
qed

lemma demo_no_tap: "dc_loop demo_controller = Some L \<Longrightarrow> dl_last_rx L = None"
proof -
  have "case dc_loop demo_controller of None \<Rightarrow> True | Some L \<Rightarrow> dl_last_rx L = None" by code_simp
  then show "dc_loop demo_controller = Some L \<Longrightarrow> dl_last_rx L = None" by simp
qed

lemma demo_ctl_ok: "\<exists>cap. ctl_ok cap demo_controller"
  using dl_start_ok [OF demo_ok(1,2), of "new_controller demo_snapshot demo_bus demo_disk []" demo_py demo_senv] demo_ok(3-5)
  by (auto simp: demo_controller_def new_controller_def radio_ok_def or_empty_def is_dict_def)

lemma demo_events_run:
  "\<exists>c' p. dl_run demo_py (set_config demo_py calm demo_senv demo_snapshot demo_controller) demo_events = Inr (c', [p])"
proof -
  let ?c = "set_config demo_py calm demo_senv demo_snapshot demo_controller"
  obtain cap where "ctl_ok cap demo_controller" using demo_ctl_ok by blast
  then obtain pc :: policy_cfg where "ctl_ok (max_mcs (cfg_selector pc)) ?c"
    using set_config_ok [of cap demo_controller None default_config demo_snapshot demo_py calm demo_senv] demo_ok(1-4) demo_running(1) by auto
  then obtain L where L: "dc_loop ?c = Some L" "loop_ok (max_mcs (cfg_selector pc)) L" by (auto simp: ctl_ok_def split: option.splits)
  have "case dc_loop ?c of None \<Rightarrow> True | Some L \<Rightarrow> dl_last_rx L = None" by code_simp
  then have t: "\<not> tap_alive demo_env L" by (simp add: L(1) tap_alive_def)
  have v: "is_video ''video rx''" by code_simp
  show ?thesis
    using rx_fallback [OF L(2) _ t, of "\<lparr> e_timestamp = 1000, e_id = ''video rx'', e_packets = [(''out'', 90)], e_ants = [sample_ant],
        e_session = None, e_tx_wlan = JNull \<rparr>" "dc_status ?c"] v
    by (auto simp: demo_events_def in_loop_def L(1))
qed

section \<open>Properties\<close>

text \<open>C8. Exactly one source drives the policy. While tap datagrams keep arriving, a statistics record
  of the video stream sends nothing and leaves the policy and the tap's window alone (it only
  carries the session); once the tap is stale, every such record runs one tick and sends exactly
  one decision, and the tap is reported inactive. Records of other streams do nothing.\<close>

theorem one_source_drives:
  assumes "loop_ok cap L"
  shows "(is_video (e_id e) \<and> tap_alive env L \<longrightarrow> (\<exists>L'. on_event env (RxEvent e) (L, ds) = Inr ((L', ds), [])
        \<and> dl_policy L' = dl_policy L \<and> micro (dl_agg L') = micro (dl_agg L) \<and> pending_lost (dl_agg L') = pending_lost (dl_agg L)))
    \<and> (is_video (e_id e) \<and> \<not> tap_alive env L \<longrightarrow> (\<exists>L' ds' p. on_event env (RxEvent e) (L, ds) = Inr ((L', ds'), [p])
        \<and> \<not> s_tap_active (sig (dl_agg L')) \<and> ds_decision ds' = Some (rung L')))
    \<and> (\<not> is_video (e_id e) \<longrightarrow> on_event env (RxEvent e) (L, ds) = Inr ((L, ds), []))"
  using rx_tap_alive [of e env L ds] rx_fallback [OF assms, of e env ds] by (auto simp: on_event_def)

theorem one_source_drives_witness:
  "\<exists>cap L. loop_ok cap L \<and> \<not> tap_alive demo_env L \<and>
     (\<exists>L' ds' p. on_event demo_env (RxEvent \<lparr> e_timestamp = 1, e_id = ''video rx'', e_packets = [], e_ants = [], e_session = None, e_tx_wlan = JNull \<rparr>)
        (L, new_status) = Inr ((L', ds'), [p]))"
proof -
  obtain cap L where L: "dc_loop demo_controller = Some L" "loop_ok cap L"
    using demo_ctl_ok by (auto simp: ctl_ok_def split: option.splits)
  let ?e = "\<lparr> e_timestamp = 1, e_id = ''video rx'', e_packets = [], e_ants = [], e_session = None, e_tx_wlan = JNull \<rparr>"
  have "dl_last_rx L = None" using L(1) demo_no_tap by simp
  then have "\<not> tap_alive demo_env L" by (simp add: tap_alive_def)
  moreover have "is_video (e_id ?e)" by code_simp
  ultimately show ?thesis using one_source_drives [OF L(2), of ?e demo_env new_status] L(2) by blast
qed







end
