(* ===== verification/Agg_Queue.thy ===== *)
theory Agg_Queue
  imports Fpvd_Prelude
begin

text \<open>
  \<open>src/gs/fpvdgs/wfb/agg_queue.py\<close>: the size- and time-bounded aggregation queue of the
  tunnel and MAVLink uplinks. An operation returns the new state and the batches it sent.
  The timer handle is \<open>NoTimer\<close> (None), \<open>Pending\<close> (armed) or \<open>Spent\<close> (it fired, but the
  attribute still holds it).

  \<open>batcher\<close> is the contract a client relies on: batches are concatenations of whole,
  consecutive messages, in order, nothing lost or duplicated; \<open>aggq\<close> interprets it.
  \<open>framed_channel\<close> extends it with a codec: what the receiver unpacks is what was queued.
\<close>

section \<open>Definitions\<close>

datatype timer = NoTimer | Pending | Spent

record agg_queue =
  max_size :: "nat option"
  timeout_on :: bool
  queue :: "bytes list"
  queue_size :: nat
  timer :: timer

definition new_agg_queue :: "nat option \<Rightarrow> bool \<Rightarrow> agg_queue" where
  "new_agg_queue n t = \<lparr> max_size = n, timeout_on = t, queue = [], queue_size = 0, timer = NoTimer \<rparr>"

definition put :: "agg_queue \<Rightarrow> bytes \<Rightarrow> agg_queue \<times> bytes list" where
  "put q data = (case max_size q of
     None \<Rightarrow> (q, [data])
   | Some limit \<Rightarrow>
       if \<not> timeout_on q then (q, [data])
       else if length data > limit then (q, [])
       else let (q1, out) =
                  (if queue_size q + length data > limit
                   then if queue q \<noteq> []
                        then (q\<lparr> timer := NoTimer, queue := [], queue_size := 0 \<rparr>, [concat (queue q)])
                        else (q\<lparr> timer := NoTimer \<rparr>, [])
                   else (q, []));
                q2 = q1\<lparr> queue := queue q1 @ [data], queue_size := queue_size q1 + length data \<rparr>
            in (q2\<lparr> timer := (if timer q2 = NoTimer then Pending else timer q2) \<rparr>, out))"

definition flush :: "agg_queue \<Rightarrow> agg_queue \<times> bytes list" where
  "flush q =
     (if queue_size q > 0
      then (q\<lparr> timer := NoTimer, queue := [], queue_size := 0 \<rparr>, [concat (queue q)])
      else (q, []))"

text \<open>The event loop runs \<open>flush\<close> when the armed timer expires.\<close>

definition fire :: "agg_queue \<Rightarrow> agg_queue \<times> bytes list" where
  "fire q = (if timer q = Pending then flush (q\<lparr> timer := Spent \<rparr>) else (q, []))"

definition close :: "agg_queue \<Rightarrow> agg_queue" where
  "close q = q\<lparr> timer := NoTimer \<rparr>"

subsection \<open>Runs\<close>

datatype agg_op = Put bytes | Flush | Fire

fun agg_op_step :: "agg_queue \<Rightarrow> agg_op \<Rightarrow> agg_queue \<times> bytes list" where
  "agg_op_step q (Put m) = put q m"
| "agg_op_step q Flush = flush q"
| "agg_op_step q Fire = fire q"

fun agg_run :: "agg_queue \<Rightarrow> agg_op list \<Rightarrow> agg_queue \<times> bytes list" where
  "agg_run q [] = (q, [])"
| "agg_run q (e # es) =
     (let (q1, out1) = agg_op_step q e; (q2, out2) = agg_run q1 es in (q2, out1 @ out2))"

text \<open>The queue accepts a message unless aggregation is on and the message is too big.\<close>

definition accepts :: "agg_queue \<Rightarrow> bytes \<Rightarrow> bool" where
  "accepts q m = (case max_size q of None \<Rightarrow> True | Some limit \<Rightarrow> timeout_on q \<longrightarrow> length m \<le> limit)"

definition aggq_inv :: "agg_queue \<Rightarrow> bool" where
  "aggq_inv q = (queue_size q = length (concat (queue q)) \<and>
     (case max_size q of None \<Rightarrow> queue q = [] | Some limit \<Rightarrow>
        queue_size q \<le> limit \<and> (\<not> timeout_on q \<longrightarrow> queue q = [])))"

text \<open>Every message that waits has a timer running.\<close>

definition timer_inv :: "agg_queue \<Rightarrow> bool" where
  "timer_inv q = (aggq_inv q \<and> list_all (\<lambda>m. m \<noteq> []) (queue q) \<and> (queue q \<noteq> [] \<longrightarrow> timer q = Pending) \<and>
     timer q \<noteq> Spent)"

text \<open>An armed timer always finds something to send: nothing but \<open>flush\<close> empties the queue,
  and \<open>flush\<close> cancels the timer.\<close>

definition armed_inv :: "agg_queue \<Rightarrow> bool" where
  "armed_inv q = (timer_inv q \<and> (timer q = Pending \<longrightarrow> queue q \<noteq> []))"

definition puts :: "agg_op list \<Rightarrow> bytes list" where
  "puts es = concat (map (\<lambda>e. case e of Put m \<Rightarrow> [m] | _ \<Rightarrow> []) es)"

definition queued_by :: "agg_queue \<Rightarrow> agg_op \<Rightarrow> bytes list" where
  "queued_by q e = (case e of Put m \<Rightarrow> if accepts q m then [m] else [] | _ \<Rightarrow> [])"

section \<open>The contract\<close>

lemma split_batches:
  "concat bs @ w = map f ps \<Longrightarrow>
     \<exists>segs rest. bs = map (map f) segs \<and> w = map f rest \<and> concat segs @ rest = ps"
proof (induction bs arbitrary: ps)
  case Nil
  then show ?case by (intro exI [of _ "[]"] exI [of _ ps]) simp
next
  case (Cons b bs)
  then have "b @ (concat bs @ w) = map f ps" by simp
  then obtain p1 p2 where p: "ps = p1 @ p2" "b = map f p1" "concat bs @ w = map f p2"
    by (auto simp: append_eq_map_conv)
  obtain segs rest where "bs = map (map f) segs" "w = map f rest" "concat segs @ rest = p2"
    using Cons.IH [OF p(3)] by blast
  then show ?case using p by (intro exI [of _ "p1 # segs"] exI [of _ rest]) simp
qed

locale batcher =
  fixes step :: "'q \<Rightarrow> 'e \<Rightarrow> 'q \<times> bytes list"
    and run :: "'q \<Rightarrow> 'e list \<Rightarrow> 'q \<times> bytes list"
    and inv :: "'q \<Rightarrow> bool"
    and waiting :: "'q \<Rightarrow> bytes list"
    and queued :: "'q \<Rightarrow> 'e \<Rightarrow> bytes list"
  assumes run_Nil: "run q [] = (q, [])"
    and run_Cons: "run q (e # es) = (let (q1, o1) = step q e; (q2, o2) = run q1 es in (q2, o1 @ o2))"
    and step_inv: "inv q \<Longrightarrow> step q e = (q', out) \<Longrightarrow> inv q' \<and> (\<forall>x. queued q' x = queued q x)"
    and step_batches: "inv q \<Longrightarrow> step q e = (q', out) \<Longrightarrow>
      \<exists>batches. out = map concat batches \<and> concat batches @ waiting q' = waiting q @ queued q e"
begin

lemma run_batches:
  "inv q \<Longrightarrow> run q es = (q', out) \<Longrightarrow>
     \<exists>batches. out = map concat batches \<and>
       concat batches @ waiting q' = waiting q @ concat (map (queued q) es) \<and> inv q'"
proof (induction es arbitrary: q out)
  case Nil
  then show ?case by (auto simp: run_Nil intro!: exI [of _ "[]"])
next
  case (Cons e es)
  obtain q1 o1 where s: "step q e = (q1, o1)" by fastforce
  obtain o2 where r: "run q1 es = (q', o2)" and out: "out = o1 @ o2"
    using Cons.prems(2) by (auto simp: run_Cons s split: prod.splits)
  have q1: "inv q1" "queued q1 = queued q" using step_inv [OF Cons.prems(1) s] by auto
  obtain b1 where b1: "o1 = map concat b1" "concat b1 @ waiting q1 = waiting q @ queued q e"
    using step_batches [OF Cons.prems(1) s] by blast
  obtain b2 where b2: "o2 = map concat b2" "inv q'"
    "concat b2 @ waiting q' = waiting q1 @ concat (map (queued q) es)"
    using Cons.IH [OF q1(1) r] q1(2) by auto
  have "concat (b1 @ b2) @ waiting q' = waiting q @ queued q e @ concat (map (queued q) es)"
    using b1(2) b2(3) by (metis append.assoc concat_append)
  then show ?case using b1(1) b2 out by (intro exI [of _ "b1 @ b2"]) simp
qed

end

text \<open>With a codec whose decoder splits a concatenation of encoded packets back into the
  packets, the receiver of the batches gets the packets that were sent, in order; the rest is
  still waiting.\<close>

locale framed_channel = batcher step run inv waiting queued
  for step :: "'q \<Rightarrow> 'e \<Rightarrow> 'q \<times> bytes list" and run and inv and waiting and queued +
  fixes pack :: "'p \<Rightarrow> bytes"
    and unpack :: "bytes \<Rightarrow> 'p list"
    and wf :: "'p \<Rightarrow> bool"
    and sent :: "'q \<Rightarrow> 'e \<Rightarrow> 'p list"
  assumes queued_packed: "queued q e = map pack (sent q e)"
    and sent_wf: "list_all wf (sent q e)"
    and unpack_concat: "list_all wf ps \<Longrightarrow> unpack (concat (map pack ps)) = ps"
begin

lemma delivered:
  assumes "inv q" "waiting q = []" "run q es = (q', out)"
  shows "\<exists>rest. concat (map unpack out) @ rest = concat (map (sent q) es) \<and> waiting q' = map pack rest"
proof -
  let ?ps = "concat (map (sent q) es)"
  have q: "queued q = (\<lambda>e. map pack (sent q e))" by (intro ext queued_packed)
  obtain batches where b: "out = map concat batches" "concat batches @ waiting q' = map pack ?ps"
    using run_batches [OF assms(1,3)] assms(2) by (auto simp: q map_concat o_def)
  from split_batches [OF b(2)] obtain segs rest where s: "batches = map (map pack) segs"
    "waiting q' = map pack rest" "concat segs @ rest = ?ps" by blast
  have "list_all wf ?ps" using sent_wf by (simp add: list_all_iff)
  then have "list_all wf (concat segs)" by (simp flip: s(3))
  then have "\<forall>seg \<in> set segs. list_all wf seg" by (simp add: list_all_iff)
  then have "map unpack out = segs"
    by (simp add: b(1) s(1) unpack_concat map_idI)
  then show ?thesis using s by auto
qed

end

section \<open>Lemmas\<close>

lemma put_passthrough:
  "\<not> (\<exists>limit. max_size q = Some limit \<and> timeout_on q) \<Longrightarrow> put q m = (q, [m])"
  by (auto simp: put_def split: option.splits)

lemma put_aggregate:
  assumes "max_size q = Some limit" "timeout_on q" "length m \<le> limit"
  shows "put q m =
    (if queue_size q + length m > limit
     then (q\<lparr> queue := [m], queue_size := (if queue q = [] then queue_size q else 0) + length m, timer := Pending \<rparr>,
           if queue q = [] then [] else [concat (queue q)])
     else (q\<lparr> queue := queue q @ [m], queue_size := queue_size q + length m,
              timer := (if timer q = NoTimer then Pending else timer q) \<rparr>, []))"
  using assms by (auto simp: put_def Let_def)

lemma put_drop: "max_size q = Some limit \<Longrightarrow> timeout_on q \<Longrightarrow> limit < length m \<Longrightarrow> put q m = (q, [])"
  by (simp add: put_def)

lemma put_laws:
  assumes "aggq_inv q" "put q m = (q', out)"
  shows "aggq_inv q' \<and> accepts q' = accepts q \<and>
    (\<exists>batches. out = map concat batches \<and> list_all (\<lambda>b. b \<noteq> []) batches \<and>
      concat batches @ queue q' = queue q @ (if accepts q m then [m] else []))"
proof -
  consider (pass) "\<not> (\<exists>limit. max_size q = Some limit \<and> timeout_on q)"
    | (drop) limit where "max_size q = Some limit" "timeout_on q" "limit < length m"
    | (agg) limit where "max_size q = Some limit" "timeout_on q" "length m \<le> limit"
    by fastforce
  then show ?thesis
  proof cases
    case pass
    then show ?thesis
      using assms put_passthrough [OF pass]
      by (auto simp: aggq_inv_def accepts_def split: option.splits intro!: exI [of _ "[[m]]"])
  next
    case drop
    then show ?thesis
      using assms by (auto simp: put_drop accepts_def)
  next
    case agg
    have q: "queue q = [] \<Longrightarrow> queue_size q = 0" using assms(1) by (simp add: aggq_inv_def)
    show ?thesis
    proof (cases "queue_size q + length m > limit")
      case True
      then have "queue q \<noteq> []" using q agg by auto
      then show ?thesis
        using assms agg True
        by (auto simp: put_aggregate aggq_inv_def accepts_def fun_eq_iff intro!: exI [of _ "[queue q]"])
    next
      case False
      then show ?thesis
        using assms agg by (auto simp: put_aggregate aggq_inv_def accepts_def fun_eq_iff)
    qed
  qed
qed

lemma flush_laws:
  assumes "aggq_inv q" "flush q = (q', out)"
  shows "aggq_inv q' \<and> accepts q' = accepts q \<and>
    (\<exists>batches. out = map concat batches \<and> list_all (\<lambda>b. b \<noteq> []) batches \<and> concat batches @ queue q' = queue q)"
  using assms
  by (auto simp: flush_def aggq_inv_def accepts_def fun_eq_iff split: if_splits option.splits
      intro!: exI [of _ "[queue q]"])

lemma fire_laws:
  assumes "aggq_inv q" "fire q = (q', out)"
  shows "aggq_inv q' \<and> accepts q' = accepts q \<and>
    (\<exists>batches. out = map concat batches \<and> list_all (\<lambda>b. b \<noteq> []) batches \<and> concat batches @ queue q' = queue q)"
proof (cases "timer q = Pending")
  case True
  have "aggq_inv (q\<lparr> timer := Spent \<rparr>)" "accepts (q\<lparr> timer := Spent \<rparr>) = accepts q"
    using assms(1) by (auto simp: aggq_inv_def accepts_def fun_eq_iff split: option.splits)
  then show ?thesis
    using flush_laws [of "q\<lparr> timer := Spent \<rparr>" q' out] assms(2) True by (simp add: fire_def)
next
  case False
  then show ?thesis using assms by (auto simp: fire_def)
qed

lemma agg_op_laws:
  assumes "aggq_inv q" "agg_op_step q e = (q', out)"
  shows "aggq_inv q' \<and> accepts q' = accepts q \<and>
    (\<exists>batches. out = map concat batches \<and> list_all (\<lambda>b. b \<noteq> []) batches \<and>
       concat batches @ queue q' = queue q @ queued_by q e)"
proof (cases e)
  case (Put m)
  then show ?thesis using put_laws [OF assms(1), of m q' out] assms(2) by (simp add: queued_by_def)
next
  case Flush
  then show ?thesis using flush_laws [OF assms(1), of q' out] assms(2) by (simp add: queued_by_def)
next
  case Fire
  then show ?thesis using fire_laws [OF assms(1), of q' out] assms(2) by (simp add: queued_by_def)
qed

interpretation aggq: batcher agg_op_step agg_run aggq_inv queue queued_by
proof
  show "agg_run q [] = (q, [])" for q by simp
  show "agg_run q (e # es) = (let (q1, o1) = agg_op_step q e; (q2, o2) = agg_run q1 es in (q2, o1 @ o2))" for q e es
    by simp
  show "aggq_inv q' \<and> (\<forall>x. queued_by q' x = queued_by q x)" if "aggq_inv q" "agg_op_step q e = (q', out)" for q e q' out
    using agg_op_laws [OF that] by (simp add: queued_by_def split: agg_op.split)
  show "\<exists>batches. out = map concat batches \<and> concat batches @ queue q' = queue q @ queued_by q e"
    if "aggq_inv q" "agg_op_step q e = (q', out)" for q e q' out
    using agg_op_laws [OF that] by blast
qed

subsection \<open>Batch sizes\<close>

lemma agg_op_bound:
  assumes "aggq_inv q" "max_size q = Some limit" "timeout_on q" "agg_op_step q e = (q', out)"
  shows "max_size q' = Some limit \<and> timeout_on q' \<and> (\<forall>b \<in> set out. length b \<le> limit)"
proof (cases e)
  case (Put m)
  show ?thesis
  proof (cases "length m \<le> limit")
    case True
    then show ?thesis
      using assms Put by (auto simp: put_aggregate aggq_inv_def split: if_splits)
  next
    case False
    then show ?thesis using assms Put by (simp add: put_drop)
  qed
next
  case Flush
  then show ?thesis using assms by (auto simp: flush_def aggq_inv_def split: if_splits)
next
  case Fire
  then show ?thesis using assms by (auto simp: fire_def flush_def aggq_inv_def split: if_splits)
qed

lemma agg_run_bound:
  "aggq_inv q \<Longrightarrow> max_size q = Some limit \<Longrightarrow> timeout_on q \<Longrightarrow> agg_run q es = (q', out) \<Longrightarrow>
     max_size q' = Some limit \<and> (\<forall>b \<in> set out. length b \<le> limit)"
proof (induction es arbitrary: q out)
  case (Cons e es)
  obtain q1 o1 where s: "agg_op_step q e = (q1, o1)" by fastforce
  obtain o2 where r: "agg_run q1 es = (q', o2)" and out: "out = o1 @ o2"
    using Cons.prems(4) by (auto simp: s split: prod.splits)
  have q1: "aggq_inv q1" using agg_op_laws [OF Cons.prems(1) s] by simp
  have b: "max_size q1 = Some limit \<and> timeout_on q1 \<and> (\<forall>b \<in> set o1. length b \<le> limit)"
    by (rule agg_op_bound [OF Cons.prems(1-3) s])
  then show ?case using Cons.IH [OF q1 _ _ r] out by auto
qed simp

lemma new_agg_queue_inv: "aggq_inv (new_agg_queue n t)"
  by (simp add: new_agg_queue_def aggq_inv_def split: option.split)

lemma queued_by_new:
  "concat (map (queued_by (new_agg_queue (Some n) True)) es) = filter (\<lambda>m. length m \<le> n) (puts es)"
  by (induction es)
     (auto simp: queued_by_def puts_def accepts_def new_agg_queue_def split: agg_op.split)

subsection \<open>The timer\<close>

lemma timer_inv_put:
  assumes "timer_inv q" "m \<noteq> []"
  shows "timer_inv (fst (put q m))"
proof -
  have "aggq_inv (fst (put q m))" using put_laws assms(1) by (metis prod.collapse timer_inv_def)
  moreover consider (pass) "\<not> (\<exists>limit. max_size q = Some limit \<and> timeout_on q)"
    | (drop) limit where "max_size q = Some limit" "timeout_on q" "limit < length m"
    | (agg) limit where "max_size q = Some limit" "timeout_on q" "length m \<le> limit"
    by fastforce
  then have "list_all (\<lambda>m. m \<noteq> []) (queue (fst (put q m))) \<and>
      (queue (fst (put q m)) \<noteq> [] \<longrightarrow> timer (fst (put q m)) = Pending) \<and> timer (fst (put q m)) \<noteq> Spent"
  proof cases
    case pass
    then show ?thesis using assms by (simp add: put_passthrough timer_inv_def)
  next
    case drop
    then show ?thesis using assms by (simp add: put_drop timer_inv_def)
  next
    case agg
    then show ?thesis using assms by (cases "timer q") (auto simp: put_aggregate timer_inv_def)
  qed
  ultimately show ?thesis by (simp add: timer_inv_def)
qed

lemma flush_sends:
  assumes "aggq_inv q" "list_all (\<lambda>m. m \<noteq> []) (queue q)" "queue q \<noteq> []"
  shows "flush q = (q\<lparr> timer := NoTimer, queue := [], queue_size := 0 \<rparr>, [concat (queue q)])"
  using assms by (cases "queue q") (auto simp: flush_def aggq_inv_def)

lemma timer_inv_flush: "timer_inv q \<Longrightarrow> timer_inv (fst (flush q))"
  by (auto simp: timer_inv_def flush_def aggq_inv_def split: option.splits)

lemma armed_inv_step:
  assumes "armed_inv q" "case e of Put m \<Rightarrow> m \<noteq> [] | _ \<Rightarrow> True"
  shows "armed_inv (fst (agg_op_step q e))"
proof (cases e)
  case (Put m)
  have t: "timer_inv (fst (put q m))" using assms Put by (simp add: timer_inv_put armed_inv_def)
  consider (pass) "\<not> (\<exists>limit. max_size q = Some limit \<and> timeout_on q)"
    | (drop) limit where "max_size q = Some limit" "timeout_on q" "limit < length m"
    | (agg) limit where "max_size q = Some limit" "timeout_on q" "length m \<le> limit"
    by fastforce
  then have "queue (fst (put q m)) \<noteq> [] \<or> put q m = (q, []) \<or> put q m = (q, [m])"
    by cases (simp_all add: put_passthrough put_drop put_aggregate)
  then show ?thesis using t assms(1) Put by (auto simp: armed_inv_def)
next
  case Flush
  then show ?thesis
    using assms(1) timer_inv_flush [of q] by (simp add: armed_inv_def) (simp add: flush_def)
next
  case Fire
  show ?thesis
  proof (cases "timer q = Pending")
    case True
    have "aggq_inv (q\<lparr> timer := Spent \<rparr>)"
      using assms(1) by (simp add: armed_inv_def timer_inv_def aggq_inv_def split: option.splits)
    then show ?thesis
      using assms(1) True Fire flush_sends [of "q\<lparr> timer := Spent \<rparr>"]
      by (auto simp: fire_def armed_inv_def timer_inv_def aggq_inv_def split: option.splits)
  next
    case False
    then show ?thesis using assms(1) Fire by (simp add: fire_def)
  qed
qed

interpretation armed: machine "\<lambda>q e. fst (agg_op_step q e)" "\<lambda>e. case e of Put m \<Rightarrow> m \<noteq> [] | _ \<Rightarrow> True" armed_inv
  by unfold_locales (rule armed_inv_step)

lemma agg_run_fst: "fst (agg_run q es) = foldl (\<lambda>q e. fst (agg_op_step q e)) q es"
  by (induction es arbitrary: q) (simp_all add: Let_def case_prod_beta)

section \<open>Properties\<close>

text \<open>C25. The aggregation queue with a size limit neither loses, duplicates, splits nor reorders
  messages: whatever the interleaving of \<open>put\<close>, \<open>flush\<close> and timer expiry, the batches sent so
  far followed by what still waits are exactly the messages put that fit the limit, in order;
  every batch is a concatenation of whole messages and no batch exceeds the limit.\<close>

theorem agg_batches:
  assumes "agg_run (new_agg_queue (Some n) True) es = (q, out)"
  shows "\<exists>batches. out = map concat batches \<and>
      concat batches @ queue q = filter (\<lambda>m. length m \<le> n) (puts es) \<and>
      (\<forall>b \<in> set out. length b \<le> n) \<and> queue_size q = length (concat (queue q)) \<and> queue_size q \<le> n"
proof -
  let ?q0 = "new_agg_queue (Some n) True"
  obtain batches where b: "out = map concat batches" "aggq_inv q"
    "concat batches @ queue q = queue ?q0 @ concat (map (queued_by ?q0) es)"
    using aggq.run_batches [OF new_agg_queue_inv assms] by blast
  have m: "max_size q = Some n \<and> (\<forall>b \<in> set out. length b \<le> n)"
    using agg_run_bound [OF new_agg_queue_inv _ _ assms] by (simp add: new_agg_queue_def)
  have "concat batches @ queue q = filter (\<lambda>m. length m \<le> n) (puts es)"
    unfolding b(3) queued_by_new by (simp add: new_agg_queue_def)
  then show ?thesis using b m by (auto simp: aggq_inv_def)
qed

theorem agg_batches_witness:
  "\<exists>batches. [[1, 2, 3], [4, 5, 6]] = map concat batches \<and>
     concat batches @ [[7 :: 8 word]] = filter (\<lambda>m. length m \<le> 3) (puts
       [Put [1, 2], Put [3], Put [9, 9, 9, 9], Put [4, 5, 6], Fire, Put [7]])"
  using agg_batches [of 3 "[Put [1, 2], Put [3], Put [9, 9, 9, 9], Put [4, 5, 6], Fire, Put [7]]"
      "\<lparr> max_size = Some 3, timeout_on = True, queue = [[7]], queue_size = 1, timer = Pending \<rparr>"
      "[[1, 2, 3], [4, 5, 6]]"]
  by (auto simp: new_agg_queue_def put_def flush_def fire_def Let_def)

text \<open>C26. Waiting messages are never stuck: after any operations with non-empty messages, if
  something waits then the timer is armed, and when it expires the whole queue goes out as one
  batch; an armed timer never expires on an empty queue.\<close>

theorem agg_timer_live:
  assumes "\<forall>m \<in> set (puts es). m \<noteq> []"
    and "agg_run (new_agg_queue n t) es = (q, out)"
  shows "(queue q \<noteq> [] \<longleftrightarrow> timer q = Pending) \<and>
    (queue q \<noteq> [] \<longrightarrow> snd (fire q) = [concat (queue q)] \<and> queue (fst (fire q)) = [])"
proof -
  have "list_all (\<lambda>e. case e of Put m \<Rightarrow> m \<noteq> [] | _ \<Rightarrow> True) es"
    using assms(1) by (auto simp: list_all_iff puts_def split: agg_op.splits)
  moreover have "armed_inv (new_agg_queue n t)"
    using new_agg_queue_inv by (simp add: armed_inv_def timer_inv_def) (simp add: new_agg_queue_def)
  ultimately have q: "armed_inv q" using armed.inv_run agg_run_fst assms(2) by (metis fst_conv)
  then have "aggq_inv (q\<lparr> timer := Spent \<rparr>)"
    by (simp add: armed_inv_def timer_inv_def aggq_inv_def split: option.splits)
  then show ?thesis
    using q flush_sends [of "q\<lparr> timer := Spent \<rparr>"]
    by (auto simp: armed_inv_def timer_inv_def fire_def)
qed

theorem agg_timer_live_witness:
  "timer (fst (agg_run (new_agg_queue (Some 4) True) [Put [1, 2], Put [3, 4, 5]])) = Pending"
  using agg_timer_live [of "[Put [1, 2], Put [3, 4, 5]]" "Some 4" True
    "\<lparr> max_size = Some 4, timeout_on = True, queue = [[3, 4, 5]], queue_size = 3, timer = Pending \<rparr>" "[[1, 2]]"]
  by (simp add: puts_def new_agg_queue_def put_def Let_def)

text \<open>The hypothesis on empty messages is needed: after an empty message the timer expires on a
  queue of size 0, stays recorded as armed, and later messages wait without a timer.\<close>

lemma empty_message_stalls_timer:
  "let q = fst (agg_run (new_agg_queue (Some 4) True) [Put [], Fire, Put [1]])
   in queue q = [[], [1]] \<and> timer q = Spent \<and> fire q = (q, [])"
  by (simp add: new_agg_queue_def put_def flush_def fire_def Let_def)

end
