(* ===== verification/Mavlink.thy ===== *)
theory Mavlink
  imports Agg_Queue Byte_Codec Py_Str
begin

text \<open>
  \<open>src/gs/fpvdgs/wfb/mavproxy.py\<close>: MAVLink framing, the hand-packed RADIO_STATUS frame and the
  proxy between the radio's unix sockets and the local UDP peer. The parser generator is a
  state (\<open>parser\<close>) with one \<open>feed\<close> per \<open>send\<close>; its inner loop is a function that terminates
  because every iteration consumes bytes.

  Results: feeding a stream in chunks finds the frames that one feed of the whole finds, with
  a bounded buffer; a batch of whole frames is split into those frames; frames put on the
  uplink queue come out of the batches in order; an injected RADIO_STATUS is one well-formed
  frame whose checksum the receiver accepts.
\<close>

unbundle bit_operations_syntax

section \<open>Definitions\<close>

subsection \<open>RADIO_STATUS\<close>

definition x25_byte :: "int \<Rightarrow> 8 word \<Rightarrow> int" where
  "x25_byte crc b =
     (let tmp = (uint b XOR (crc AND 0xFF)) AND 0xFF;
          tmp = (tmp XOR push_bit 4 tmp) AND 0xFF
      in (drop_bit 8 crc XOR push_bit 8 tmp XOR push_bit 3 tmp XOR drop_bit 4 tmp) AND 0xFFFF)"

definition x25crc :: "bytes \<Rightarrow> int" where
  "x25crc data = foldl x25_byte 0xFFFF data"

definition RADIO_STATUS_ID :: int where "RADIO_STATUS_ID = 109"
definition RADIO_STATUS_CRC_EXTRA :: "8 word" where "RADIO_STATUS_CRC_EXTRA = 185"

text \<open>\<open>struct.pack\<close> of several fields, each a width and a value.\<close>

fun pack_les :: "(nat \<times> int) list \<Rightarrow> bytes res" where
  "pack_les [] = Inr []"
| "pack_les ((k, n) # fs) = res_bind (pack_le k n) (\<lambda>b. res_bind (pack_les fs) (\<lambda>bs. Inr (b @ bs)))"

definition pack_radio_status ::
  "int \<Rightarrow> int \<Rightarrow> int \<Rightarrow> int \<Rightarrow> int \<Rightarrow> int \<Rightarrow> int \<Rightarrow> int \<Rightarrow> int \<Rightarrow> int \<Rightarrow> bytes res" where
  "pack_radio_status sq sys_id comp_id rssi remrssi txbuf noise remnoise rxerrors fixed =
     res_bind (pack_les [(2, rxerrors mod 65536), (2, fixed mod 65536), (1, rssi mod 256), (1, remrssi mod 256),
         (1, txbuf mod 256), (1, noise mod 256), (1, remnoise mod 256)]) (\<lambda>payload.
     res_bind (pack_les [(1, 0xFE), (1, int (length payload)), (1, sq mod 256), (1, sys_id), (1, comp_id),
         (1, RADIO_STATUS_ID)]) (\<lambda>hdr.
     let crc = x25crc (drop 1 hdr @ payload @ [RADIO_STATUS_CRC_EXTRA])
     in res_bind (pack_le 2 crc) (\<lambda>c. Inr (hdr @ payload @ c))))"

subsection \<open>The parser\<close>

definition GC_THRESHOLD :: nat where "GC_THRESHOLD = 4096"

text \<open>The length a frame claims in its first bytes; None when the first byte is not a start
  of frame.\<close>

definition frame_len :: "bytes \<Rightarrow> nat option" where
  "frame_len b =
     (if b ! 0 = 0xFE then Some (8 + unat (b ! 1))
      else if b ! 0 = 0xFD then Some (unat (b ! 1) + (if odd (unat (b ! 2)) then 25 else 12))
      else None)"

function parse_loop :: "bytes \<Rightarrow> nat \<Rightarrow> nat \<Rightarrow> (nat \<times> nat) \<times> bytes list" where
  "parse_loop buffer skip bad =
     (if length buffer < skip + 8 then ((skip, bad), [])
      else case frame_len (drop skip buffer) of
        None \<Rightarrow> parse_loop buffer (Suc skip) (Suc bad)
      | Some mlen \<Rightarrow>
          if length buffer - skip < mlen then ((skip, 0), [])
          else let (p, ms) = parse_loop buffer (skip + mlen) 0 in (p, take mlen (drop skip buffer) # ms))"
  by pat_completeness auto
termination
  by (relation "measure (\<lambda>(b, s, _). length b - s)")
     (auto simp: frame_len_def split: if_splits)

declare parse_loop.simps [simp del]

record parser =
  buffer :: bytes
  skip :: nat
  bad :: nat

definition new_parser :: parser where
  "new_parser = \<lparr> buffer = [], skip = 0, bad = 0 \<rparr>"

definition gc :: "parser \<Rightarrow> parser" where
  "gc p = (if skip p > GC_THRESHOLD then p\<lparr> buffer := drop (skip p) (buffer p), skip := 0 \<rparr> else p)"

text \<open>\<open>gen.send(data)\<close>.\<close>

definition feed :: "parser \<Rightarrow> bytes \<Rightarrow> parser \<times> bytes list" where
  "feed p data =
     (if data = [] then (gc p, [])
      else let buf = buffer p @ data; ((s, b), ms) = parse_loop buf (skip p) (bad p)
           in (gc (p\<lparr> buffer := buf, skip := s, bad := b \<rparr>), ms))"

definition split_frames :: "bytes \<Rightarrow> bytes list" where
  "split_frames data = snd (feed new_parser data)"

fun feed_all :: "parser \<Rightarrow> bytes list \<Rightarrow> parser \<times> bytes list" where
  "feed_all p [] = (p, [])"
| "feed_all p (c # cs) = (let (p1, m1) = feed p c; (p2, m2) = feed_all p1 cs in (p2, m1 @ m2))"

text \<open>What the loop computes, on the unread suffix: the frames and the bytes left over.\<close>

function scan :: "bytes \<Rightarrow> bytes list \<times> bytes" where
  "scan xs =
     (if length xs < 8 then ([], xs)
      else case frame_len xs of
        None \<Rightarrow> scan (tl xs)
      | Some mlen \<Rightarrow>
          if length xs < mlen then ([], xs)
          else let (ms, r) = scan (drop mlen xs) in (take mlen xs # ms, r))"
  by pat_completeness auto
termination
  by (relation "measure length") (auto simp: frame_len_def split: if_splits)

declare scan.simps [simp del]

definition wf_frame :: "bytes \<Rightarrow> bool" where
  "wf_frame f = (8 \<le> length f \<and> frame_len f = Some (length f))"

text \<open>One feed scans the unread bytes followed by the new ones; the invariant bounds the buffer.\<close>

definition unread :: "parser \<Rightarrow> bytes" where
  "unread p = drop (skip p) (buffer p)"

definition parser_inv :: "parser \<Rightarrow> bool" where
  "parser_inv p = (skip p \<le> length (buffer p) \<and> skip p \<le> GC_THRESHOLD \<and> length (unread p) < 280 \<and>
     scan (unread p) = ([], unread p))"

subsection \<open>The service\<close>

record mav_config =
  peer :: string
  inject_rssi :: bool
  sys_id :: int
  comp_id :: int
  agg_max_size :: nat
  mav_agg_timeout :: real

definition MavlinkConfig :: "string \<Rightarrow> mav_config" where
  "MavlinkConfig p = \<lparr> peer = p, inject_rssi = True, sys_id = 3, comp_id = 68, agg_max_size = 1445,
     mav_agg_timeout = 1 / 10 \<rparr>"

type_synonym addr = "string \<times> nat"

record mavlink =
  mcfg :: mav_config
  udp_transport :: bool
  mav_rx_transport :: bool
  reply_addr :: "addr option"
  fixed_addr :: bool
  mav_tx_sock :: "nat option"
  uplink_agg :: "agg_queue option"
  mav_seq :: int
  mav_opened :: "nat list"
  mav_next_sock :: nat

definition new_mavlink :: "mav_config \<Rightarrow> mavlink" where
  "new_mavlink c = \<lparr> mcfg = c, udp_transport = False, mav_rx_transport = False, reply_addr = None,
     fixed_addr = False, mav_tx_sock = None, uplink_agg = None, mav_seq = 0, mav_opened = [], mav_next_sock = 0 \<rparr>"

text \<open>\<open>_PEER_RE\<close>: scheme, host and port (\<open>$\<close> also matches before a final newline).\<close>

definition is_ascii_digit :: "char \<Rightarrow> bool" where
  "is_ascii_digit c = (48 \<le> code c \<and> code c \<le> 57)"

definition parse_peer :: "string \<Rightarrow> (bool \<times> addr) option" where
  "parse_peer s =
     (let c = starts_with ''connect://'' s; l = starts_with ''listen://'' s in
      if \<not> c \<and> \<not> l then None
      else let rest = drop (if c then 10 else 9) s;
               host = takeWhile (\<lambda>x. x \<noteq> CHR '':'' \<and> x \<noteq> CHR ''/'') rest;
               more = drop (length host) rest;
               port = (if more \<noteq> [] \<and> last more = CHR 0x0A then butlast (tl more) else tl more)
           in if host = [] \<or> more = [] \<or> hd more \<noteq> CHR '':'' \<or> port = [] \<or> \<not> list_all is_ascii_digit port then None
              else Some (c, (host, the (digits_loop 10 False 0 port))))"

definition mav_start :: "mavlink \<Rightarrow> mavlink res" where
  "mav_start m = (case parse_peer (peer (mcfg m)) of
     None \<Rightarrow> Inl ValueError
   | Some (connect, addr) \<Rightarrow> Inr (m\<lparr> udp_transport := True, mav_rx_transport := True,
       reply_addr := (if connect then Some addr else None), fixed_addr := connect,
       uplink_agg := Some (new_agg_queue (Some (agg_max_size (mcfg m))) (mav_agg_timeout (mcfg m) \<noteq> 0)) \<rparr>))"

definition mav_set_tx_socket :: "(string \<Rightarrow> bool) \<Rightarrow> string option \<Rightarrow> mavlink \<Rightarrow> mavlink" where
  "mav_set_tx_socket conn nm m =
     (let m1 = (case mav_tx_sock m of None \<Rightarrow> m | Some s \<Rightarrow> m\<lparr> mav_tx_sock := None, mav_opened := removeAll s (mav_opened m) \<rparr>)
      in case nm of None \<Rightarrow> m1
         | Some name \<Rightarrow>
             let s = mav_next_sock m1; m2 = m1\<lparr> mav_next_sock := Suc s \<rparr>
             in if conn name then m2\<lparr> mav_tx_sock := Some s, mav_opened := mav_opened m2 @ [s] \<rparr> else m2)"

text \<open>What is sent: frames to the UDP peer, batches to a transmit socket.\<close>

datatype mav_out = ToPeer addr bytes | ToTx nat bytes

definition write_to_peer :: "mavlink \<Rightarrow> bytes \<Rightarrow> mav_out list" where
  "write_to_peer m data = (case reply_addr m of
     None \<Rightarrow> []
   | Some a \<Rightarrow> if \<not> udp_transport m then [] else map (ToPeer a) (split_frames data))"

definition on_downlink :: "mavlink \<Rightarrow> bytes \<Rightarrow> mav_out list" where
  "on_downlink m data = write_to_peer m data"

definition send_to_tx_socket :: "mavlink \<Rightarrow> bytes \<Rightarrow> mav_out list" where
  "send_to_tx_socket m data = (case mav_tx_sock m of None \<Rightarrow> []
     | Some s \<Rightarrow> if s \<in> set (mav_opened m) then [ToTx s data] else [])"

definition on_uplink :: "bytes \<Rightarrow> addr \<Rightarrow> mavlink \<Rightarrow> mavlink \<times> mav_out list" where
  "on_uplink data a m =
     (let m1 = (if fixed_addr m then m else m\<lparr> reply_addr := Some a \<rparr>)
      in case uplink_agg m1 of None \<Rightarrow> (m1, [])
         | Some q \<Rightarrow> let (q', out) = put q data
                     in (m1\<lparr> uplink_agg := Some q' \<rparr>, concat (map (send_to_tx_socket m1) out)))"

definition rssi_cb :: "int \<Rightarrow> int \<Rightarrow> int \<Rightarrow> int \<Rightarrow> int \<Rightarrow> mavlink \<Rightarrow> (mavlink \<times> mav_out list) res" where
  "rssi_cb rssi noise rx_errors rx_fec flags m =
     (if \<not> inject_rssi (mcfg m) then Inr (m, [])
      else let sq = mav_seq m; m1 = m\<lparr> mav_seq := (mav_seq m + 1) mod 256 \<rparr>
           in res_bind (pack_radio_status sq (sys_id (mcfg m)) (comp_id (mcfg m)) (rssi mod 256) (rssi mod 256) 100
                (noise mod 256) flags rx_errors rx_fec) (\<lambda>fr. Inr (m1, write_to_peer m1 fr)))"

definition mav_stop :: "mavlink \<Rightarrow> mavlink \<times> mav_out list" where
  "mav_stop m =
     (let out = (case uplink_agg m of None \<Rightarrow> [] | Some q \<Rightarrow> concat (map (send_to_tx_socket m) (snd (flush q))))
      in (m\<lparr> mav_rx_transport := False, udp_transport := False, uplink_agg := None, mav_tx_sock := None,
            mav_opened := (case mav_tx_sock m of None \<Rightarrow> mav_opened m | Some s \<Rightarrow> removeAll s (mav_opened m)) \<rparr>, out))"

section \<open>Lemmas\<close>

lemma frame_len_bounds: "frame_len b = Some n \<Longrightarrow> 8 \<le> n \<and> n \<le> 280"
proof -
  have "unat (b ! 1) < 2 ^ LENGTH(8)" by (rule unsigned_less)
  then have "unat (b ! 1) \<le> 255" by simp
  then show "frame_len b = Some n \<Longrightarrow> 8 \<le> n \<and> n \<le> 280"
    by (auto simp: frame_len_def split: if_splits)
qed

lemma frame_len_append:
  assumes "8 \<le> length xs"
  shows "frame_len (xs @ ys) = frame_len xs"
proof -
  have "(xs @ ys) ! i = xs ! i" if "i < 3" for i
    by (rule nth_append_left) (use that assms in linarith)
  then show ?thesis by (simp add: frame_len_def)
qed

text \<open>The index loop computes \<open>scan\<close> of the unread suffix.\<close>

lemma parse_loop_scan:
  "sk \<le> length buf \<Longrightarrow> parse_loop buf sk bd = ((s, b), ms) \<Longrightarrow>
     scan (drop sk buf) = (ms, drop s buf) \<and> sk \<le> s \<and> s \<le> length buf"
proof (induction buf sk bd arbitrary: s b ms rule: parse_loop.induct)
  case (1 buf sk bd)
  show ?case
  proof (cases "length buf < sk + 8")
    case True
    then show ?thesis using 1(3,4) by (subst scan.simps) (auto simp: parse_loop.simps)
  next
    case False
    show ?thesis
    proof (cases "frame_len (drop sk buf)")
      case None
      then have "parse_loop buf (Suc sk) (Suc bd) = ((s, b), ms)"
        using 1(4) False by (subst (asm) parse_loop.simps) simp
      then show ?thesis
        using 1(1) [OF False None, of s b ms] False None
        by (subst scan.simps) (auto simp: tl_drop drop_Suc)
    next
      case (Some mlen)
      show ?thesis
      proof (cases "length buf - sk < mlen")
        case True
        then show ?thesis
          using 1(3,4) False Some by (subst scan.simps) (auto simp: parse_loop.simps)
      next
        case ge: False
        obtain p ms' where r: "parse_loop buf (sk + mlen) 0 = (p, ms')" by fastforce
        have "p = (s, b)" "ms = take mlen (drop sk buf) # ms'"
          using 1(4) False Some ge r by (auto simp: parse_loop.simps [of buf sk bd])
        moreover have "sk + mlen \<le> length buf" using ge False by simp
        ultimately show ?thesis
          using 1(2) [OF False Some ge, of s b ms'] r ge False Some
          by (subst scan.simps) (auto simp: add.commute)
      qed
    qed
  qed
qed

lemma scan_append:
  "scan xs = (ms, r) \<Longrightarrow> scan (xs @ ys) = (let (ms', r') = scan (r @ ys) in (ms @ ms', r'))"
proof (induction xs arbitrary: ms r rule: scan.induct)
  case (1 xs)
  show ?case
  proof (cases "length xs < 8")
    case True
    then show ?thesis using 1(3) by (auto simp: scan.simps [of xs])
  next
    case False
    then have l: "frame_len (xs @ ys) = frame_len xs" by (simp add: frame_len_append)
    show ?thesis
    proof (cases "frame_len xs")
      case None
      then have "scan (tl xs) = (ms, r)" using 1(3) False by (auto simp: scan.simps [of xs])
      moreover have "tl (xs @ ys) = tl xs @ ys" using False by (cases xs) auto
      ultimately show ?thesis using 1(1) [OF False None, of ms r] None False l by (simp add: scan.simps [of "xs @ ys"])
    next
      case (Some mlen)
      show ?thesis
      proof (cases "length xs < mlen")
        case True
        then show ?thesis using 1(3) False Some by (auto simp: scan.simps [of xs])
      next
        case ge: False
        obtain ms' r' where r: "scan (drop mlen xs) = (ms', r')" by fastforce
        have "ms = take mlen xs # ms'" "r' = r" using 1(3) False Some ge r by (auto simp: scan.simps [of xs])
        then show ?thesis
          using 1(2) [OF False Some ge r] False Some ge l
          by (simp add: scan.simps [of "xs @ ys"] case_prod_beta Let_def)
      qed
    qed
  qed
qed

lemma scan_rest_short: "scan xs = (ms, r) \<Longrightarrow> length r < 280"
proof (induction xs arbitrary: ms r rule: scan.induct)
  case (1 xs)
  show ?case
  proof (cases "length xs < 8")
    case False
    show ?thesis
    proof (cases "frame_len xs")
      case None
      then have "scan (tl xs) = (ms, r)" using 1(3) False by (auto simp: scan.simps [of xs])
      then show ?thesis using 1(1) [OF False None] by blast
    next
      case (Some mlen)
      show ?thesis
      proof (cases "length xs < mlen")
        case True
        then show ?thesis using 1(3) False Some frame_len_bounds [OF Some] by (auto simp: scan.simps [of xs])
      next
        case ge: False
        obtain ms' r' where r: "scan (drop mlen xs) = (ms', r')" by fastforce
        then have "r' = r" using 1(3) False Some ge by (auto simp: scan.simps [of xs])
        then show ?thesis using 1(2) [OF False Some ge r] by simp
      qed
    qed
  qed (use 1(3) in \<open>auto simp: scan.simps [of xs]\<close>)
qed

lemma unread_gc [simp]: "unread (gc p) = unread p"
  by (simp add: gc_def unread_def)

lemma scan_rest_fix: "scan xs = (ms, r) \<Longrightarrow> scan r = ([], r)"
  using scan_append [of xs ms r "[]"] by (simp add: case_prod_beta Let_def prod_eq_iff)

lemma feed_scan:
  assumes "parser_inv p" "feed p data = (p', ms)"
  shows "parser_inv p' \<and> scan (unread p @ data) = (ms, unread p')"
proof (cases "data = []")
  case True
  then have "p' = p" "ms = []" using assms by (auto simp: feed_def gc_def parser_inv_def)
  then show ?thesis using assms True by (simp add: parser_inv_def)
next
  case False
  let ?buf = "buffer p @ data"
  obtain s b where l: "parse_loop ?buf (skip p) (bad p) = ((s, b), ms)"
    and p': "p' = gc (p\<lparr> buffer := ?buf, skip := s, bad := b \<rparr>)"
    using assms(2) False by (auto simp: feed_def Let_def split: prod.splits)
  have sk: "skip p \<le> length (buffer p)" using assms(1) by (simp add: parser_inv_def)
  have u: "scan (drop (skip p) ?buf) = (ms, drop s ?buf)" "s \<le> length ?buf"
    using parse_loop_scan [OF _ l] sk by auto
  have un: "unread p' = drop s ?buf" by (simp add: p' unread_gc) (simp add: unread_def)
  have "skip p' \<le> length (buffer p') \<and> skip p' \<le> GC_THRESHOLD"
    using u(2) by (auto simp: p' gc_def)
  then show ?thesis
    using u sk un scan_rest_short [OF u(1)] scan_rest_fix [OF u(1)]
    by (simp add: parser_inv_def unread_def [of p])
qed

lemma new_parser_inv: "parser_inv new_parser" "unread new_parser = []"
  by (simp_all add: parser_inv_def new_parser_def unread_def scan.simps)

lemma feed_all_scan:
  "parser_inv p \<Longrightarrow> feed_all p cs = (p', ms) \<Longrightarrow> parser_inv p' \<and> scan (unread p @ concat cs) = (ms, unread p')"
proof (induction cs arbitrary: p ms)
  case Nil
  then show ?case by (simp add: parser_inv_def)
next
  case (Cons c cs)
  obtain p1 m1 where f: "feed p c = (p1, m1)" by fastforce
  obtain m2 where g: "feed_all p1 cs = (p', m2)" "ms = m1 @ m2"
    using Cons.prems(2) f by (auto split: prod.splits)
  have a: "parser_inv p1" "scan (unread p @ c) = (m1, unread p1)" using feed_scan [OF Cons.prems(1) f] by auto
  have "scan ((unread p @ c) @ concat cs) = (m1 @ m2, unread p')"
    using scan_append [OF a(2), of "concat cs"] Cons.IH [OF a(1) g(1)] by simp
  then show ?case using Cons.IH [OF a(1) g(1)] g(2) by simp
qed

lemma split_frames_scan: "split_frames data = fst (scan data)"
  using feed_scan [OF new_parser_inv(1), of data "fst (feed new_parser data)" "snd (feed new_parser data)"] new_parser_inv(2)
  by (simp add: split_frames_def)

lemma scan_frame:
  assumes "wf_frame f"
  shows "scan (f @ rest) = (let (ms, r) = scan rest in (f # ms, r))"
  using assms by (subst scan.simps) (simp add: wf_frame_def frame_len_append)

lemma split_frames_concat: "list_all wf_frame fs \<Longrightarrow> split_frames (concat fs) = fs"
proof -
  have "list_all wf_frame fs \<Longrightarrow> scan (concat fs) = (fs, [])"
    by (induction fs) (simp_all add: scan_frame scan.simps [of "[]"])
  then show "list_all wf_frame fs \<Longrightarrow> split_frames (concat fs) = fs" by (simp add: split_frames_scan)
qed

subsection \<open>RADIO_STATUS\<close>

lemma x25crc_range: "0 \<le> x25crc data \<and> x25crc data < 65536"
proof -
  have m: "x AND 0xFFFF = x mod 65536" for x :: int
    using take_bit_eq_mask [of 16 x] by (simp add: take_bit_eq_mod mask_eq_exp_minus_1)
  have "0 \<le> foldl x25_byte c data \<and> foldl x25_byte c data < 65536" if "0 \<le> c \<and> c < 65536" for c
    using that by (induction data arbitrary: c) (simp_all add: x25_byte_def Let_def m)
  then show ?thesis by (simp add: x25crc_def)
qed

lemma byte_mod: "(word_of_int (x mod 256) :: 8 word) = word_of_int x"
  by (simp add: word_uint_eq_iff uint_word_of_int)

lemma pack_le_mod:
  "pack_le (Suc 0) (x mod 256) = Inr [word_of_int x]"
  "pack_le 2 (x mod 65536) = Inr [word_of_int x, word_of_int (x div 256)]"
proof -
  have "(word_of_int (x mod 65536) :: 8 word) = word_of_int x"
    by (simp add: word_uint_eq_iff uint_word_of_int mod_mod_cancel)
  moreover have "(word_of_int (x mod 65536 div 256) :: 8 word) = word_of_int (x div 256)"
  proof -
    have "x mod 65536 = x mod 256 + 256 * (x div 256 mod 256)" using mod_256_step [of 256 x] by simp
    then have "x mod 65536 div 256 = x div 256 mod 256" by simp
    then show ?thesis by (simp add: byte_mod)
  qed
  ultimately show "pack_le 2 (x mod 65536) = Inr [word_of_int x, word_of_int (x div 256)]"
    by (simp add: pack_le_def eval_nat_numeral)
qed (simp add: pack_le_def byte_mod)

lemma pack_le_byte: "0 \<le> x \<Longrightarrow> x < 256 \<Longrightarrow> pack_le (Suc 0) x = Inr [word_of_int x]"
  by (simp add: pack_le_def)

lemma pack_radio_status_bytes:
  fixes sq sys cid rssi remrssi txbuf noise remnoise rxerrors fixed :: int
  assumes "0 \<le> sys \<and> sys < 256" "0 \<le> cid \<and> cid < 256"
  defines "payload \<equiv> map word_of_int [rxerrors, rxerrors div 256, fixed, fixed div 256, rssi, remrssi, txbuf, noise, remnoise]"
    and "hdr \<equiv> [0xFE, 9, word_of_int sq, word_of_int sys, word_of_int cid, 109]"
  shows "pack_radio_status sq sys cid rssi remrssi txbuf noise remnoise rxerrors fixed =
    Inr (hdr @ payload @ le_bytes 2 (x25crc (tl hdr @ payload @ [185])))"
proof -
  have p: "pack_les [(2, rxerrors mod 65536), (2, fixed mod 65536), (1, rssi mod 256), (1, remrssi mod 256),
      (1, txbuf mod 256), (1, noise mod 256), (1, remnoise mod 256)] = Inr payload"
    by (simp add: pack_le_mod payload_def)
  have h: "pack_les [(1, 0xFE), (1, int (length payload)), (1, sq mod 256), (1, sys), (1, cid), (1, RADIO_STATUS_ID)] = Inr hdr"
    using assms(1,2) by (simp add: pack_le_mod pack_le_byte payload_def hdr_def RADIO_STATUS_ID_def)
  have c: "pack_le 2 (x25crc xs) = Inr (le_bytes 2 (x25crc xs))" for xs
    using x25crc_range [of xs] by (simp add: pack_le_def del: le_bytes.simps)
  have d: "drop 1 hdr = tl hdr" by (simp add: hdr_def)
  show ?thesis
    unfolding pack_radio_status_def p res_bind_simps h Let_def c d RADIO_STATUS_CRC_EXTRA_def by (rule refl)
qed

section \<open>Properties\<close>

text \<open>C29. The MAVLink framer does not depend on how the stream is cut: feeding chunks one by one
  finds, in order, the frames that one feed of the whole stream finds, and the parser never
  holds more than 4375 bytes.\<close>

theorem mav_parser_incremental:
  assumes "feed_all new_parser chunks = (p, frames)"
  shows "frames = split_frames (concat chunks) \<and> length (buffer p) \<le> 4375"
proof -
  have "parser_inv p \<and> scan (concat chunks) = (frames, unread p)"
    using feed_all_scan [OF new_parser_inv(1) assms] new_parser_inv(2) by simp
  then show ?thesis by (auto simp: split_frames_scan parser_inv_def unread_def GC_THRESHOLD_def)
qed

theorem mav_parser_incremental_witness:
  "snd (feed_all new_parser [[0, 0xFE, 1], [3, 4, 5, 6, 7], [8, 9, 10]]) =
     split_frames [0, 0xFE, 1, 3, 4, 5, 6, 7, 8, 9, 10]"
  using mav_parser_incremental [of "[[0, 0xFE, 1], [3, 4, 5, 6, 7], [8, 9, 10]]"
      "fst (feed_all new_parser [[0, 0xFE, 1], [3, 4, 5, 6, 7], [8, 9, 10]])"
      "snd (feed_all new_parser [[0, 0xFE, 1], [3, 4, 5, 6, 7], [8, 9, 10]])"]
  by (simp only: prod.collapse simp_thms concat.simps append.simps)

text \<open>C28. MAVLink frames survive aggregation: when every uplink datagram is one whole frame,
  splitting the batches the queue sends gives back the frames that fit the batch limit, in
  order, and what still waits is the rest of them.\<close>

theorem mav_uplink_frames:
  assumes "\<forall>f \<in> set (puts es). wf_frame f"
    and "agg_run (new_agg_queue (Some n) True) es = (q, batches)"
  shows "concat (map split_frames batches) @ queue q = filter (\<lambda>f. length f \<le> n) (puts es)"
proof -
  obtain bs where b: "batches = map concat bs"
    "concat bs @ queue q = concat (map (queued_by (new_agg_queue (Some n) True)) es)"
    using aggq.run_batches [OF new_agg_queue_inv assms(2)] by (auto simp: new_agg_queue_def)
  then have c: "concat bs @ queue q = filter (\<lambda>f. length f \<le> n) (puts es)" by (simp only: queued_by_new)
  have "list_all wf_frame (concat bs @ queue q)" unfolding c using assms(1) by (simp add: list_all_iff)
  then have "\<forall>fs \<in> set bs. list_all wf_frame fs" by (auto simp: list_all_iff)
  then have "\<forall>fs \<in> set bs. split_frames (concat fs) = fs" using split_frames_concat by blast
  then have "map split_frames batches = bs" by (simp add: b(1) map_idI)
  then show ?thesis using c by simp
qed

theorem mav_uplink_frames_witness:
  "concat (map split_frames [[0xFE, 0, 1, 2, 3, 4, 5, 6, 0xFE, 1, 1, 2, 3, 4, 5, 6, 7]]) @ [] =
    [[0xFE, 0, 1, 2, 3, 4, 5, 6], [0xFE, 1, 1, 2, 3, 4, 5, 6, 7]]"
  using mav_uplink_frames [of "[Put [0xFE, 0, 1, 2, 3, 4, 5, 6], Put [0xFE, 1, 1, 2, 3, 4, 5, 6, 7], Fire]" 20
      "\<lparr> max_size = Some 20, timeout_on = True, queue = [], queue_size = 0, timer = NoTimer \<rparr>"
      "[[0xFE, 0, 1, 2, 3, 4, 5, 6, 0xFE, 1, 1, 2, 3, 4, 5, 6, 7]]"]
  by (simp add: puts_def wf_frame_def frame_len_def new_agg_queue_def put_def fire_def flush_def Let_def)

text \<open>Every RSSI report injected for the local peer is exactly one well-formed MAVLink 1
  frame: the framer passes it through whole, its checksum is the one a receiver computes, the
  fields carry the reported values modulo their width, and the sequence number advances
  modulo 256.\<close>

theorem rssi_frame_valid:
  assumes "inject_rssi (mcfg m)" "udp_transport m" "reply_addr m = Some a"
    and "0 \<le> sys_id (mcfg m) \<and> sys_id (mcfg m) < 256" "0 \<le> comp_id (mcfg m) \<and> comp_id (mcfg m) < 256"
  shows "\<exists>m' f. rssi_cb rssi noise rx_errors rx_fec flags m = Inr (m', [ToPeer a f]) \<and>
    mav_seq m' = (mav_seq m + 1) mod 256 \<and> wf_frame f \<and> length f = 17 \<and>
    le_val (drop 15 f) = x25crc (slice 1 14 f @ [185]) \<and>
    uint (f ! 2) = mav_seq m mod 256 \<and> le_val (slice 6 2 f) = rx_errors mod 65536 \<and>
    le_val (slice 8 2 f) = rx_fec mod 65536 \<and> uint (f ! 10) = rssi mod 256 \<and> uint (f ! 13) = noise mod 256 \<and>
    uint (f ! 14) = flags mod 256"
proof -
  let ?pl = "map word_of_int [rx_errors, rx_errors div 256, rx_fec, rx_fec div 256, rssi mod 256, rssi mod 256,
    100, noise mod 256, flags] :: bytes"
  let ?hdr = "[0xFE, 9, word_of_int (mav_seq m), word_of_int (sys_id (mcfg m)), word_of_int (comp_id (mcfg m)), 109] :: bytes"
  let ?crc = "x25crc (tl ?hdr @ ?pl @ [185])"
  let ?f = "?hdr @ ?pl @ le_bytes 2 ?crc"
  let ?m = "m\<lparr> mav_seq := (mav_seq m + 1) mod 256 \<rparr>"
  have w: "wf_frame ?f" by (simp add: wf_frame_def frame_len_def)
  then have "split_frames ?f = [?f]" using split_frames_concat [of "[?f]"] by simp
  then have r: "rssi_cb rssi noise rx_errors rx_fec flags m = Inr (?m, [ToPeer a ?f])"
    using assms pack_radio_status_bytes [OF assms(4,5)]
    by (simp add: rssi_cb_def Let_def write_to_peer_def del: le_bytes.simps)
  have two: "le_val [word_of_int x, word_of_int (x div 256)] = x mod 65536" for x
    using le_val_le_bytes [of 2 x] by (simp add: eval_nat_numeral)
  have c: "le_val (le_bytes 2 ?crc) = ?crc" using x25crc_range by (intro le_val_le_bytes_id) auto
  have crc: "le_val (drop 15 ?f) = x25crc (slice 1 14 ?f @ [185])"
    using c by (simp add: slice_def eval_nat_numeral del: le_bytes.simps le_val.simps)
  have f: "length ?f = 17" "uint (?f ! 2) = mav_seq m mod 256" "le_val (slice 6 2 ?f) = rx_errors mod 65536"
    "le_val (slice 8 2 ?f) = rx_fec mod 65536" "uint (?f ! 10) = rssi mod 256" "uint (?f ! 13) = noise mod 256"
    "uint (?f ! 14) = flags mod 256"
    by (simp_all add: slice_def two uint_byte eval_nat_numeral del: le_val.simps le_bytes.simps)
  show ?thesis
    by (rule exI [of _ ?m], rule exI [of _ ?f], intro conjI)
       (rule r, simp, rule w, rule f(1), rule crc, rule f(2), rule f(3), rule f(4), rule f(5), rule f(6), rule f(7))
qed

theorem rssi_frame_valid_witness:
  "\<exists>m' f. rssi_cb (- 60) (- 95) 3 7 1
      ((new_mavlink (MavlinkConfig ''connect://127.0.0.1:14550''))\<lparr> udp_transport := True,
         reply_addr := Some (''127.0.0.1'', 14550) \<rparr>) = Inr (m', [ToPeer (''127.0.0.1'', 14550) f]) \<and> wf_frame f"
  using rssi_frame_valid [of "(new_mavlink (MavlinkConfig ''connect://127.0.0.1:14550''))\<lparr> udp_transport := True,
         reply_addr := Some (''127.0.0.1'', 14550) \<rparr>" "(''127.0.0.1'', 14550)" "- 60" "- 95" 3 7 1]
  by (auto simp: new_mavlink_def MavlinkConfig_def)

end
