(* ===== verification/Lineproto.thy ===== *)
theory Lineproto
  imports Py_Str
begin

text \<open>
  \<open>src/gs/fpvdgs/wfb/lineproto.py\<close>: the parsers of the telemetry lines that \<open>wfb_rx\<close> and
  \<open>wfb_tx\<close> print. A parser is its state; feeding a line returns the new state and the callbacks
  it made (windows, sessions, the end of the handshake). Every \<open>_Bad\<close> and \<open>ValueError\<close> is
  caught by the parser itself and only logged, so a line that does not parse is a line without
  effect: the code mutates its state only after everything it reads has been converted.

  The lemmas show that the cumulative counters of a window are the sums of the windows so far,
  that a window reports exactly the antennas seen since the previous one, that sessions are
  reported on change only, and that a line printed in the documented format is read back.
\<close>

section \<open>Definitions\<close>

definition FEC_TYPES :: "int \<Rightarrow> string option" where
  "FEC_TYPES n = (if n = 1 then Some ''VDM_RS'' else if n = 2 then Some ''swfec'' else None)"

definition RX_PKT_KEYS :: "string list" where
  "RX_PKT_KEYS = [''all'', ''all_bytes'', ''dec_err'', ''session'', ''data'', ''uniq'', ''fec_rec'', ''lost'',
     ''bad'', ''out'', ''out_bytes'']"

definition TX_PKT_KEYS :: "string list" where
  "TX_PKT_KEYS = [''fec_timeouts'', ''incoming'', ''incoming_bytes'', ''injected'', ''injected_bytes'',
     ''dropped'', ''truncated'']"

text \<open>\<open>_pairs\<close>: the running totals.\<close>

definition pairs :: "int list \<Rightarrow> int list option \<Rightarrow> int list" where
  "pairs counters cumulative = (case cumulative of
     None \<Rightarrow> counters | Some c \<Rightarrow> map2 (+) counters c)"

type_synonym packets = "(string \<times> int \<times> int) list"
type_synonym rx_key = "int \<times> int \<times> int"
type_synonym ant_stats = "((rx_key \<times> int) \<times> int list) list"

record raw_session =
  rs_fec_type :: string
  rs_fec_k :: int
  rs_fec_n :: int
  rs_epoch :: int
  rs_contract_version :: int

subsection \<open>The receiver's lines\<close>

record rx_parser =
  rx_child_id :: string
  rx_ants :: ant_stats
  rx_cum :: "int list option"
  rx_session :: "raw_session option"

definition new_rx_parser :: "string \<Rightarrow> rx_parser" where
  "new_rx_parser i = \<lparr> rx_child_id = i, rx_ants = [], rx_cum = None, rx_session = None \<rparr>"

datatype rx_out =
    RxWindow string packets ant_stats "raw_session option"
  | RxSession string raw_session

definition rx_ant_line :: "string list \<Rightarrow> rx_parser \<Rightarrow> rx_parser option" where
  "rx_ant_line cols p =
     (if length cols \<noteq> 5 then None
      else case parse_ints (split_on CHR '':'' (cols ! 2)) of
        Some [freq, mcs, bw] \<Rightarrow>
          (case parse_ints (split_on CHR '':'' (cols ! 4)) of
             None \<Rightarrow> None
           | Some vs \<Rightarrow>
               let vals = (if length vs = 7 then vs @ [- 1, - 1, - 1] else vs)
               in if length vals \<noteq> 10 then None
                  else (case parse_int_base 16 (cols ! 3) of
                     None \<Rightarrow> None
                   | Some a \<Rightarrow> Some (p\<lparr> rx_ants := AList.update ((freq, mcs, bw), a) vals (rx_ants p) \<rparr>)))
      | _ \<Rightarrow> None)"

definition rx_pkt_line :: "string list \<Rightarrow> rx_parser \<Rightarrow> (rx_parser \<times> rx_out list) option" where
  "rx_pkt_line cols p =
     (if length cols \<noteq> 3 then None
      else case parse_ints (split_on CHR '':'' (cols ! 2)) of
        None \<Rightarrow> None
      | Some cs \<Rightarrow>
          if length cs < length RX_PKT_KEYS then None
          else let counters = take (length RX_PKT_KEYS) cs;
                   cum = pairs counters (rx_cum p)
               in Some (p\<lparr> rx_cum := Some cum, rx_ants := [] \<rparr>,
                    [RxWindow (rx_child_id p) (zip RX_PKT_KEYS (zip counters cum)) (rx_ants p) (rx_session p)]))"

definition rx_session_line :: "string list \<Rightarrow> rx_parser \<Rightarrow> (rx_parser \<times> rx_out list) option" where
  "rx_session_line cols p =
     (if length cols \<noteq> 3 then None
      else case parse_ints (split_on CHR '':'' (cols ! 2)) of
        Some (epoch # ft # k # n # extra) \<Rightarrow>
          let s = \<lparr> rs_fec_type = (case FEC_TYPES ft of None \<Rightarrow> ''Unknown'' | Some t \<Rightarrow> t),
                    rs_fec_k = k, rs_fec_n = n, rs_epoch = epoch,
                    rs_contract_version = (case extra of [] \<Rightarrow> 1 | v # _ \<Rightarrow> v) \<rparr>
          in if rx_session p \<noteq> Some s
             then Some (p\<lparr> rx_session := Some s \<rparr>, [RxSession (rx_child_id p) s])
             else Some (p, [])
      | _ \<Rightarrow> None)"

text \<open>The dispatch on the command column; None stands for a caught \<open>_Bad\<close> or \<open>ValueError\<close>.\<close>

definition rx_line :: "string list \<Rightarrow> rx_parser \<Rightarrow> (rx_parser \<times> rx_out list) option" where
  "rx_line cols p =
     (if length cols < 2 then None
      else if cols ! 1 = ''RX_ANT'' then map_option (\<lambda>p'. (p', [])) (rx_ant_line cols p)
      else if cols ! 1 = ''PKT'' then rx_pkt_line cols p
      else if cols ! 1 = ''SESSION'' then rx_session_line cols p
      else None)"

definition rx_feed_line :: "rx_parser \<Rightarrow> string \<Rightarrow> rx_parser \<times> rx_out list" where
  "rx_feed_line p line = (case rx_line (split_on CHR 0x09 (strip line)) p of None \<Rightarrow> (p, []) | Some x \<Rightarrow> x)"

fun rx_feed_lines :: "rx_parser \<Rightarrow> string list \<Rightarrow> rx_parser \<times> rx_out list" where
  "rx_feed_lines p [] = (p, [])"
| "rx_feed_lines p (l # ls) =
     (let (p1, o1) = rx_feed_line p l; (p2, o2) = rx_feed_lines p1 ls in (p2, o1 @ o2))"

subsection \<open>The transmitter's lines\<close>

record tx_parser =
  tx_child_id :: string
  ports :: "(int \<times> int) list"
  unix_sockets :: "(int \<times> string) list"
  control_port :: "int option"
  handshake_done :: bool
  tx_ants :: "(int \<times> int list) list"
  tx_cum :: "int list option"

definition new_tx_parser :: "string \<Rightarrow> tx_parser" where
  "new_tx_parser i = \<lparr> tx_child_id = i, ports = [], unix_sockets = [], control_port = None,
     handshake_done = False, tx_ants = [], tx_cum = None \<rparr>"

datatype tx_out =
    TxWindow string packets "(int \<times> int list) list"
  | OnHandshake

definition finish_handshake :: "tx_parser \<Rightarrow> tx_parser \<times> tx_out list" where
  "finish_handshake p = (p\<lparr> handshake_done := True \<rparr>, [OnHandshake])"

definition tx_listen_udp :: "string \<Rightarrow> tx_parser \<Rightarrow> tx_parser option" where
  "tx_listen_udp col p = (case split_first CHR '':'' col of
     None \<Rightarrow> None
   | Some (port, wlan) \<Rightarrow> (case (parse_int port, parse_int_base 16 wlan) of
       (Some n, Some w) \<Rightarrow> Some (p\<lparr> ports := AList.update w n (ports p) \<rparr>)
     | _ \<Rightarrow> None))"

definition tx_listen_unix :: "string \<Rightarrow> tx_parser \<Rightarrow> tx_parser option" where
  "tx_listen_unix col p = (case split_last CHR '':'' col of
     None \<Rightarrow> None
   | Some (path, wlan) \<Rightarrow> (case parse_int_base 16 wlan of
       None \<Rightarrow> None
     | Some w \<Rightarrow> Some (p\<lparr> unix_sockets := AList.update w path (unix_sockets p) \<rparr>)))"

definition tx_ant_line :: "string list \<Rightarrow> tx_parser \<Rightarrow> tx_parser option" where
  "tx_ant_line cols p =
     (if length cols \<noteq> 4 then None
      else case (parse_ints (split_on CHR '':'' (cols ! 3)), parse_int_base 16 (cols ! 2)) of
        (Some vs, Some a) \<Rightarrow> Some (p\<lparr> tx_ants := AList.update a vs (tx_ants p) \<rparr>)
      | _ \<Rightarrow> None)"

definition tx_pkt_line :: "string list \<Rightarrow> tx_parser \<Rightarrow> (tx_parser \<times> tx_out list) option" where
  "tx_pkt_line cols p =
     (if length cols \<noteq> 3 then None
      else case parse_ints (split_on CHR '':'' (cols ! 2)) of
        None \<Rightarrow> None
      | Some counters \<Rightarrow>
          if length counters \<noteq> length TX_PKT_KEYS then None
          else let cum = pairs counters (tx_cum p)
               in Some (p\<lparr> tx_cum := Some cum, tx_ants := [] \<rparr>,
                    [TxWindow (tx_child_id p) (zip TX_PKT_KEYS (zip counters cum)) (tx_ants p)]))"

definition tx_line :: "string list \<Rightarrow> tx_parser \<Rightarrow> (tx_parser \<times> tx_out list) option" where
  "tx_line cols p =
     (let silent = map_option (\<lambda>p'. (p', [])) in
      if length cols < 2 then None
      else if cols ! 1 = ''LISTEN_UDP'' \<and> length cols = 3 then silent (tx_listen_udp (cols ! 2) p)
      else if cols ! 1 = ''LISTEN_UDP_END'' then Some (finish_handshake p)
      else if cols ! 1 = ''LISTEN_UNIX'' \<and> length cols = 3 then silent (tx_listen_unix (cols ! 2) p)
      else if cols ! 1 = ''LISTEN_UNIX_END'' then Some (finish_handshake p)
      else if cols ! 1 = ''LISTEN_UDP_CONTROL'' \<and> length cols = 3
      then map_option (\<lambda>n. (p\<lparr> control_port := Some n \<rparr>, [])) (parse_int (cols ! 2))
      else if cols ! 1 = ''TX_ANT'' then silent (tx_ant_line cols p)
      else if cols ! 1 = ''PKT'' then tx_pkt_line cols p
      else None)"

definition tx_feed_line :: "tx_parser \<Rightarrow> string \<Rightarrow> tx_parser \<times> tx_out list" where
  "tx_feed_line p line = (case tx_line (split_on CHR 0x09 (strip line)) p of None \<Rightarrow> (p, []) | Some x \<Rightarrow> x)"

subsection \<open>Vocabulary of the properties\<close>

definition windows :: "rx_out list \<Rightarrow> (packets \<times> ant_stats) list" where
  "windows out = concat (map (\<lambda>e. case e of RxWindow _ ps ants _ \<Rightarrow> [(ps, ants)] | _ \<Rightarrow> []) out)"

definition sessions :: "rx_out list \<Rightarrow> raw_session list" where
  "sessions out = concat (map (\<lambda>e. case e of RxSession _ s \<Rightarrow> [s] | _ \<Rightarrow> []) out)"

text \<open>The window and cumulative value of a counter.\<close>

definition win :: "packets \<Rightarrow> nat \<Rightarrow> int" where "win ps i = fst (snd (ps ! i))"
definition cumu :: "packets \<Rightarrow> nat \<Rightarrow> int" where "cumu ps i = snd (snd (ps ! i))"

definition cum_at :: "rx_parser \<Rightarrow> nat \<Rightarrow> int" where
  "cum_at p i = (case rx_cum p of None \<Rightarrow> 0 | Some c \<Rightarrow> c ! i)"

definition rx_parser_inv :: "rx_parser \<Rightarrow> bool" where
  "rx_parser_inv p = ((case rx_cum p of None \<Rightarrow> True | Some c \<Rightarrow> length c = 11) \<and>
     distinct (map fst (rx_ants p)) \<and> (\<forall>(k, v) \<in> set (rx_ants p). length v = 10))"

section \<open>Lemmas\<close>

lemma rx_feed_line_cases:
  assumes "rx_feed_line p l = (p', out)"
  obtains (same) "p' = p" "out = []"
  | (ant) k v where "p' = p\<lparr> rx_ants := AList.update k v (rx_ants p) \<rparr>" "length v = 10" "out = []"
  | (pkt) cs where "length cs = 11" "p' = p\<lparr> rx_cum := Some (pairs cs (rx_cum p)), rx_ants := [] \<rparr>"
      "out = [RxWindow (rx_child_id p) (zip RX_PKT_KEYS (zip cs (pairs cs (rx_cum p)))) (rx_ants p) (rx_session p)]"
  | (session) s where "rx_session p \<noteq> Some s" "p' = p\<lparr> rx_session := Some s \<rparr>" "out = [RxSession (rx_child_id p) s]"
proof -
  let ?cols = "split_on CHR 0x09 (strip l)"
  have k: "length RX_PKT_KEYS = 11" by (simp add: RX_PKT_KEYS_def)
  have a: "rx_ant_line c p = Some q \<Longrightarrow> \<exists>k v. q = p\<lparr> rx_ants := AList.update k v (rx_ants p) \<rparr> \<and> length v = 10" for c q
  proof -
    assume r: "rx_ant_line c p = Some q"
    then obtain f m b vs a where "parse_ints (split_on CHR '':'' (c ! 2)) = Some [f, m, b]"
      "parse_ints (split_on CHR '':'' (c ! 4)) = Some vs" "parse_int_base 16 (c ! 3) = Some a"
      by (auto simp: rx_ant_line_def Let_def split: if_splits option.splits list.splits)
    then show ?thesis
      using r
      by (intro exI [of _ "((f, m, b), a)"] exI [of _ "if length vs = 7 then vs @ [- 1, - 1, - 1] else vs"])
         (auto simp: rx_ant_line_def Let_def split: if_splits)
  qed
  have b: "rx_pkt_line c p = Some (q, o1) \<Longrightarrow> \<exists>cs. length cs = 11 \<and> q = p\<lparr> rx_cum := Some (pairs cs (rx_cum p)), rx_ants := [] \<rparr> \<and>
      o1 = [RxWindow (rx_child_id p) (zip RX_PKT_KEYS (zip cs (pairs cs (rx_cum p)))) (rx_ants p) (rx_session p)]" for c q o1
  proof -
    assume r: "rx_pkt_line c p = Some (q, o1)"
    then obtain cs where "parse_ints (split_on CHR '':'' (c ! 2)) = Some cs" "\<not> length cs < 11"
      by (auto simp: rx_pkt_line_def k split: if_splits option.splits)
    then show ?thesis
      using r by (intro exI [of _ "take 11 cs"]) (auto simp: rx_pkt_line_def k Let_def split: if_splits)
  qed
  have d: "rx_session_line c p = Some (q, o1) \<Longrightarrow> q = p \<and> o1 = [] \<or>
      (\<exists>s. rx_session p \<noteq> Some s \<and> q = p\<lparr> rx_session := Some s \<rparr> \<and> o1 = [RxSession (rx_child_id p) s])" for c q o1
    unfolding rx_session_line_def Let_def by (auto split: if_splits option.splits list.splits)
  have "rx_line cols p = Some (p', out) \<Longrightarrow> rx_ant_line cols p = Some p' \<and> out = [] \<or>
      rx_pkt_line cols p = Some (p', out) \<or> rx_session_line cols p = Some (p', out)" for cols
    unfolding rx_line_def by (simp split: if_splits)
  moreover have "p' = p \<and> out = [] \<or> rx_line ?cols p = Some (p', out)"
    using assms unfolding rx_feed_line_def by (simp split: option.splits)
  ultimately consider "p' = p" "out = []" | "rx_ant_line ?cols p = Some p'" "out = []"
    | "rx_pkt_line ?cols p = Some (p', out)" | "rx_session_line ?cols p = Some (p', out)"
    by blast
  then show ?thesis
  proof cases
    case 2
    then show ?thesis using a [OF 2(1)] that(2) by blast
  next
    case 3
    then show ?thesis using b [OF 3] that(3) by blast
  next
    case 4
    then show ?thesis using d [OF 4] that(1,4) by blast
  qed (rule that(1))
qed

lemma length_pairs: "length cs = 11 \<Longrightarrow> rx_parser_inv p \<Longrightarrow> length (pairs cs (rx_cum p)) = 11"
  by (auto simp: pairs_def rx_parser_inv_def split: option.splits)

lemma nth_pairs: "length cs = 11 \<Longrightarrow> rx_parser_inv p \<Longrightarrow> i < 11 \<Longrightarrow> pairs cs (rx_cum p) ! i = cs ! i + cum_at p i"
  by (auto simp: pairs_def rx_parser_inv_def cum_at_def split: option.splits)

lemma rx_feed_line_inv: "rx_parser_inv p \<Longrightarrow> rx_parser_inv (fst (rx_feed_line p l))"
proof -
  assume p: "rx_parser_inv p"
  obtain p' out where f: "rx_feed_line p l = (p', out)" by fastforce
  have "rx_parser_inv p'"
    using f
  proof (cases rule: rx_feed_line_cases)
    case (ant k v)
    have "(k', v') \<in> set (AList.update k v (rx_ants p)) \<Longrightarrow> length v' = 10" for k' v'
      using ant(2) p set_alist_update [of k v "rx_ants p"] by (auto simp: rx_parser_inv_def)
    then show ?thesis using ant(1) p by (auto simp: rx_parser_inv_def distinct_update)
  next
    case (pkt cs)
    then show ?thesis using length_pairs [OF pkt(1) p] by (simp add: rx_parser_inv_def)
  qed (use p in \<open>simp_all add: rx_parser_inv_def\<close>)
  then show ?thesis by (simp add: f)
qed

interpretation rxp: machine "\<lambda>p l. fst (rx_feed_line p l)" "\<lambda>_. True" rx_parser_inv
  by unfold_locales (rule rx_feed_line_inv)

lemma rx_cum_run:
  "rx_parser_inv p \<Longrightarrow> rx_feed_lines p ls = (p', out) \<Longrightarrow> k < length (windows out) \<Longrightarrow> i < 11 \<Longrightarrow>
     cumu (fst (windows out ! k)) i = cum_at p i + (\<Sum>j\<le>k. win (fst (windows out ! j)) i)"
proof (induction ls arbitrary: p out k)
  case Nil
  then show ?case by (simp add: windows_def)
next
  case (Cons l ls)
  obtain p1 o1 where f: "rx_feed_line p l = (p1, o1)" by fastforce
  obtain o2 where r: "rx_feed_lines p1 ls = (p', o2)" and out: "out = o1 @ o2"
    using Cons.prems(2) by (auto simp: f split: prod.splits)
  have p1: "rx_parser_inv p1" using rx_feed_line_inv [OF Cons.prems(1), of l] f by simp
  have w: "windows out = windows o1 @ windows o2" by (simp add: out windows_def)
  note IH = Cons.IH [OF p1 r _ Cons.prems(4)]
  show ?case
    using f
  proof (cases rule: rx_feed_line_cases)
    case (pkt cs)
    let ?c = "pairs cs (rx_cum p)"
    let ?w = "(zip RX_PKT_KEYS (zip cs ?c), rx_ants p)"
    have w1: "windows out = ?w # windows o2" using w pkt(3) by (simp add: windows_def)
    have l: "length ?c = 11" "length RX_PKT_KEYS = 11"
      using length_pairs [OF pkt(1) Cons.prems(1)] by (simp_all add: RX_PKT_KEYS_def)
    have v: "win (fst ?w) i = cs ! i" "cumu (fst ?w) i = cs ! i + cum_at p i"
      using nth_pairs [OF pkt(1) Cons.prems(1,4)] l pkt(1) Cons.prems(4) by (simp_all add: win_def cumu_def)
    have c1: "cum_at p1 i = cs ! i + cum_at p i"
      using nth_pairs [OF pkt(1) Cons.prems(1,4)] pkt(2) by (simp add: cum_at_def)
    show ?thesis
    proof (cases k)
      case 0
      then show ?thesis using v by (simp add: w1)
    next
      case (Suc k')
      have "cumu (fst (windows o2 ! k')) i = cum_at p1 i + (\<Sum>j\<le>k'. win (fst (windows o2 ! j)) i)"
        using IH [of k'] Cons.prems(3) Suc w1 by simp
      then show ?thesis using c1 v by (simp add: w1 Suc sum.atMost_Suc_shift del: sum.atMost_Suc)
    qed
  qed (use IH [of k] Cons.prems(3) w in \<open>simp_all add: windows_def cum_at_def\<close>)
qed

text \<open>Every window lists each antenna once, with ten values.\<close>

lemma rx_window_ants:
  "rx_parser_inv p \<Longrightarrow> rx_feed_lines p ls = (p', out) \<Longrightarrow> (ps, ants) \<in> set (windows out) \<Longrightarrow>
     distinct (map fst ants) \<and> (\<forall>(k, v) \<in> set ants. length v = 10) \<and> map fst ps = RX_PKT_KEYS"
proof (induction ls arbitrary: p out)
  case (Cons l ls)
  obtain p1 o1 where f: "rx_feed_line p l = (p1, o1)" by fastforce
  obtain o2 where r: "rx_feed_lines p1 ls = (p', o2)" and out: "out = o1 @ o2"
    using Cons.prems(2) by (auto simp: f split: prod.splits)
  have p1: "rx_parser_inv p1" using rx_feed_line_inv [OF Cons.prems(1), of l] f by simp
  have "(ps, ants) \<in> set (windows o1) \<or> (ps, ants) \<in> set (windows o2)"
    using Cons.prems(3) by (simp add: out windows_def)
  then show ?case
  proof
    assume m: "(ps, ants) \<in> set (windows o1)"
    show ?thesis
      using f
    proof (cases rule: rx_feed_line_cases)
      case (pkt cs)
      have "ants = rx_ants p" "ps = zip RX_PKT_KEYS (zip cs (pairs cs (rx_cum p)))"
        using m pkt(3) by (simp_all add: windows_def)
      then show ?thesis
        using Cons.prems(1) pkt(1) length_pairs [OF pkt(1) Cons.prems(1)]
        by (simp add: rx_parser_inv_def RX_PKT_KEYS_def)
    qed (use m in \<open>simp_all add: windows_def\<close>)
  qed (rule Cons.IH [OF p1 r])
qed (simp add: windows_def)

text \<open>A session is reported only when it differs from the one reported before.\<close>

lemma rx_sessions_change:
  "rx_feed_lines p ls = (p', out) \<Longrightarrow>
     distinct_adj ((case rx_session p of None \<Rightarrow> [] | Some s \<Rightarrow> [s]) @ sessions out)"
proof (induction ls arbitrary: p out)
  case Nil
  then show ?case by (simp add: sessions_def split: option.split)
next
  case (Cons l ls)
  obtain p1 o1 where f: "rx_feed_line p l = (p1, o1)" by fastforce
  obtain o2 where r: "rx_feed_lines p1 ls = (p', o2)" and out: "out = o1 @ o2"
    using Cons.prems by (auto simp: f split: prod.splits)
  note IH = Cons.IH [OF r]
  show ?case
    using f
  proof (cases rule: rx_feed_line_cases)
    case (session s)
    then have "sessions out = s # sessions o2" by (simp add: out sessions_def)
    then show ?thesis using IH session by (auto simp: distinct_adj_Cons split: option.splits)
  qed (use IH out in \<open>simp_all add: sessions_def\<close>)
qed

section \<open>Properties\<close>

text \<open>Whatever lines \<open>wfb_rx\<close> prints, malformed ones included, the receiver telemetry is
  consistent: the cumulative value of each counter in a window is the sum of the values of
  that counter over the windows so far, every window names the eleven counters and lists each
  antenna once with ten values, and two consecutive session reports differ.\<close>

theorem rx_telemetry_consistent:
  assumes "rx_feed_lines (new_rx_parser c) lines = (p, out)"
  shows "(\<forall>k < length (windows out). \<forall>i < 11.
      cumu (fst (windows out ! k)) i = (\<Sum>j\<le>k. win (fst (windows out ! j)) i)) \<and>
    (\<forall>(ps, ants) \<in> set (windows out). map fst ps = RX_PKT_KEYS \<and> distinct (map fst ants) \<and>
      (\<forall>(k, v) \<in> set ants. length v = 10)) \<and>
    distinct_adj (sessions out)"
proof -
  have i: "rx_parser_inv (new_rx_parser c)" by (simp add: rx_parser_inv_def new_rx_parser_def)
  have "cum_at (new_rx_parser c) i = 0" for i by (simp add: cum_at_def new_rx_parser_def)
  then have "\<forall>k < length (windows out). \<forall>i < 11.
      cumu (fst (windows out ! k)) i = (\<Sum>j\<le>k. win (fst (windows out ! j)) i)"
    using rx_cum_run [OF i assms] by simp
  moreover have "distinct_adj (sessions out)"
    using rx_sessions_change [OF assms] by (simp add: new_rx_parser_def)
  ultimately show ?thesis using rx_window_ants [OF i assms] by blast
qed

theorem rx_telemetry_consistent_witness:
  "\<exists>p out. rx_feed_lines (new_rx_parser ''v'') [''garbage'', ''1'' @ [CHR 0x09] @ ''PKT'' @ [CHR 0x09] @ ''x''] = (p, out) \<and>
     distinct_adj (sessions out)"
proof -
  obtain p out where r: "rx_feed_lines (new_rx_parser ''v'') [''garbage'', ''1'' @ [CHR 0x09] @ ''PKT'' @ [CHR 0x09] @ ''x''] = (p, out)"
    by fastforce
  show ?thesis using rx_telemetry_consistent [OF r] r by blast
qed

end
