(* ===== verification/Stats_Hub.thy ===== *)
theory Stats_Hub
  imports Lineproto Stats_Events "HOL-Library.Product_Lexorder"
begin

text \<open>
  \<open>src/gs/fpvdgs/wfb/txsel.py\<close> and \<open>src/gs/fpvdgs/wfb/aggregator.py\<close>: the choice of the
  transmit card and the statistics hub. The hub's state holds its subscribers with their bounded
  queues; every operation returns the new state and the effects on the outside (events handed to
  a subscriber's loop, callbacks, raw listeners), in order. Callbacks and listeners are
  identified by numbers; that one raises is caught and logged by the code, so it has no effect
  on the hub.

  Results: the selector picks a card that may transmit, whose packet count is near the best and
  whose signal is the strongest of those, and a second pass over the same window changes
  nothing; the merge over receivers is the packet-weighted mean; the MAVLink summary is bounded.
\<close>

section \<open>Definitions\<close>

subsection \<open>Transmit card selection\<close>

record txsel_config =
  rssi_delta_db :: int
  counter_rel_delta :: real
  counter_abs_delta :: int

definition TxSelectorConfig :: txsel_config where
  "TxSelectorConfig = \<lparr> rssi_delta_db = 3, counter_rel_delta = 1 / 10, counter_abs_delta = 3 \<rparr>"

record txsel =
  sel_cfg :: txsel_config
  rx_only_wlan_ids :: "int list"
  current :: "int option"

text \<open>An aggregated antenna: packets, then minimum, average and maximum of RSSI and SNR.\<close>

record agg_row =
  g_pkt :: int
  g_rssi_min :: int
  g_rssi_avg :: int
  g_rssi_max :: int
  g_snr_min :: int
  g_snr_avg :: int
  g_snr_max :: int

type_synonym stats_agg = "(int \<times> agg_row) list"

text \<open>\<open>itertools.groupby\<close> with the first component as key.\<close>

fun groupby :: "('k \<times> 'v) list \<Rightarrow> ('k \<times> ('k \<times> 'v) list) list" where
  "groupby [] = []"
| "groupby (r # rs) = (case groupby rs of
     (k, grp) # gs \<Rightarrow> if k = fst r then (k, r # grp) # gs else (fst r, [r]) # (k, grp) # gs
   | [] \<Rightarrow> [(fst r, [r])])"

text \<open>\<open>max\<close> of a non-empty list.\<close>

definition max_list :: "'a::linorder list \<Rightarrow> 'a" where
  "max_list xs = fold max (tl xs) (hd xs)"

definition sel_rows :: "stats_agg \<Rightarrow> (int \<times> int \<times> int) list" where
  "sel_rows st = sort (map (\<lambda>(a, v). (a div 256, g_pkt v, g_rssi_avg v)) st)"

text \<open>\<open>wlan_rssi_and_pkts\<close>: the best RSSI and packet count of each card that may transmit.\<close>

definition wlan_rssi_and_pkts :: "int list \<Rightarrow> stats_agg \<Rightarrow> (int \<times> int \<times> int) list" where
  "wlan_rssi_and_pkts rx_only st =
     map (\<lambda>(w, grp). (w, max_list (map (snd \<circ> snd) grp), max_list (map (fst \<circ> snd) grp)))
       (filter (\<lambda>(w, _). w \<notin> set rx_only) (groupby (sel_rows st)))"

definition max_pkts :: "(int \<times> int \<times> int) list \<Rightarrow> int" where
  "max_pkts ws = fold (\<lambda>(_, _, p) m. max p m) ws 0"

definition near_max :: "txsel_config \<Rightarrow> (int \<times> int \<times> int) list \<Rightarrow> int list" where
  "near_max c ws =
     (let m = max_pkts ws;
          thr = real_of_int m - max (real_of_int (counter_abs_delta c)) (real_of_int m * counter_rel_delta c)
      in map fst (filter (\<lambda>(_, _, p). real_of_int p \<ge> thr) ws))"

definition tx_select :: "txsel \<Rightarrow> stats_agg \<Rightarrow> txsel \<times> int option" where
  "tx_select s st =
     (let ws = wlan_rssi_and_pkts (rx_only_wlan_ids s) st; near = near_max (sel_cfg s) ws in
      if ws = [] then (s, None)
      else if near = [] then (s, None)
      else let (new_rssi, new_wlan) = max_list (map (\<lambda>(w, r, _). (r, w)) (filter (\<lambda>(w, _, _). w \<in> set near) ws));
               cur_rssi = (case current s of None \<Rightarrow> - 1000
                           | Some c \<Rightarrow> (case map_of ws c of None \<Rightarrow> - 1000 | Some (r, _) \<Rightarrow> r))
           in if Some new_wlan = current s then (s, None)
              else if (case current s of None \<Rightarrow> False | Some c \<Rightarrow> c \<in> set near) \<and> new_rssi - cur_rssi < rssi_delta_db (sel_cfg s)
              then (s, None)
              else (s\<lparr> current := Some new_wlan \<rparr>, Some new_wlan))"

subsection \<open>Events\<close>

definition to_session_info :: "raw_session \<Rightarrow> session_info" where
  "to_session_info s = \<lparr> fec_type = rs_fec_type s, fec_k = rs_fec_k s, fec_n = rs_fec_n s, epoch = rs_epoch s,
     interleave_depth = 1, contract_version = rs_contract_version s \<rparr>"

definition to_rx_ant :: "(rx_key \<times> int) \<times> int list \<Rightarrow> rx_ant" where
  "to_rx_ant e = (case e of (((freq, mcs, bw), ant_id), v) \<Rightarrow>
     \<lparr> a_ant = ant_id, a_freq = freq, a_mcs = mcs, a_bw = bw, a_pkt_recv = v ! 0,
       a_rssi_min = v ! 1, a_rssi_avg = v ! 2, a_rssi_max = v ! 3,
       a_snr_min = v ! 4, a_snr_avg = v ! 5, a_snr_max = v ! 6,
       a_evm_min = v ! 7, a_evm_avg = v ! 8, a_evm_max = v ! 9 \<rparr>)"

definition wlan_json :: "int option \<Rightarrow> json" where
  "wlan_json w = (case w of None \<Rightarrow> JNull | Some n \<Rightarrow> JInt n)"

definition window_of :: "packets \<Rightarrow> (string \<times> int) list" where
  "window_of ps = map (\<lambda>(k, w, _). (k, w)) ps"

definition to_rx_event :: "real \<Rightarrow> string \<Rightarrow> packets \<Rightarrow> ant_stats \<Rightarrow> raw_session option \<Rightarrow> int option \<Rightarrow> rx_event" where
  "to_rx_event ts child_id ps ant session tx_wlan =
     \<lparr> e_timestamp = ts, e_id = child_id, e_packets = window_of ps, e_ants = map to_rx_ant ant,
       e_session = map_option to_session_info session, e_tx_wlan = wlan_json tx_wlan \<rparr>"

subsection \<open>The hub\<close>

record subscription =
  sub_id :: nat
  sub_queue :: "event list"
  closed_event :: bool

text \<open>What raw listeners are called with.\<close>

datatype raw_payload =
    RawRx packets ant_stats "raw_session option" "int option"
  | RawTx packets "(int \<times> int list) list"
  | RawSession raw_session

type_synonym rssi_tuple = "int \<times> int \<times> int \<times> int \<times> int"

datatype hub_effect =
    Raw nat string raw_payload
  | AntSel nat "int option"
  | Rssi nat rssi_tuple
  | Wake nat

record hub =
  h_txsel :: txsel
  h_closed :: bool
  subs :: "subscription list"
  rssi_cbs :: "nat list"
  ant_sel_cbs :: "nat list"
  h_cur :: "(string \<times> ant_stats \<times> packets) list"
  h_sessions :: "(string \<times> raw_session) list"
  last_rx_raw :: "(string \<times> packets \<times> ant_stats \<times> raw_session option) list"
  last_tx_raw :: "(string \<times> packets \<times> (int \<times> int list) list) list"
  raw_listeners :: "nat list"

definition new_hub :: "txsel \<Rightarrow> hub" where
  "new_hub s = \<lparr> h_txsel = s, h_closed = False, subs = [], rssi_cbs = [], ant_sel_cbs = [], h_cur = [],
     h_sessions = [], last_rx_raw = [], last_tx_raw = [], raw_listeners = [] \<rparr>"

definition SUB_QUEUE :: nat where "SUB_QUEUE = 256"

definition unsubscribe :: "nat \<Rightarrow> hub \<Rightarrow> hub" where
  "unsubscribe i h = h\<lparr> subs := filter (\<lambda>s. sub_id s \<noteq> i) (subs h) \<rparr>"

text \<open>\<open>_push\<close> to every subscriber; one whose loop is gone (\<open>alive\<close> is False) is unsubscribed.\<close>

definition push_all :: "(nat \<Rightarrow> bool) \<Rightarrow> event \<Rightarrow> hub \<Rightarrow> hub" where
  "push_all alive ev h = h\<lparr> subs := map (\<lambda>s. s\<lparr> sub_queue := deque_append SUB_QUEUE ev (sub_queue s) \<rparr>)
     (filter (\<lambda>s. alive (sub_id s)) (subs h)) \<rparr>"

text \<open>\<open>_drain\<close> on the consumer's loop: everything queued is delivered, oldest first.\<close>

definition drain :: "nat \<Rightarrow> hub \<Rightarrow> hub \<times> event list" where
  "drain i h = (h\<lparr> subs := map (\<lambda>s. if sub_id s = i then s\<lparr> sub_queue := [] \<rparr> else s) (subs h) \<rparr>,
     concat (map sub_queue (filter (\<lambda>s. sub_id s = i) (subs h))))"

definition update_rx_stats ::
  "(nat \<Rightarrow> bool) \<Rightarrow> real \<Rightarrow> string \<Rightarrow> packets \<Rightarrow> ant_stats \<Rightarrow> raw_session option \<Rightarrow> hub \<Rightarrow> hub \<times> hub_effect list" where
  "update_rx_stats alive ts child_id ps ant session h =
     (let h1 = h\<lparr> h_cur := AList.update child_id (ant, ps) (h_cur h),
                  last_rx_raw := AList.update child_id (ps, ant, session) (last_rx_raw h),
                  h_sessions := (case session of None \<Rightarrow> h_sessions h | Some s \<Rightarrow> AList.update child_id s (h_sessions h)) \<rparr>;
          tx_wlan = current (h_txsel h1)
      in (push_all alive (RxEvent (to_rx_event ts child_id ps ant session tx_wlan)) h1,
          map (\<lambda>l. Raw l child_id (RawRx ps ant session tx_wlan)) (raw_listeners h1)))"

definition process_new_session :: "(nat \<Rightarrow> bool) \<Rightarrow> real \<Rightarrow> string \<Rightarrow> raw_session \<Rightarrow> hub \<Rightarrow> hub \<times> hub_effect list" where
  "process_new_session alive ts child_id session h =
     (let h1 = h\<lparr> h_sessions := AList.update child_id session (h_sessions h) \<rparr>
      in (push_all alive (SessionEvent \<lparr> n_timestamp = ts, n_id = child_id, n_session = to_session_info session \<rparr>) h1,
          map (\<lambda>l. Raw l child_id (RawSession session)) (raw_listeners h1)))"

definition update_tx_stats :: "(nat \<Rightarrow> bool) \<Rightarrow> real \<Rightarrow> string \<Rightarrow> packets \<Rightarrow> (int \<times> int list) list \<Rightarrow> hub \<Rightarrow> hub \<times> hub_effect list" where
  "update_tx_stats alive ts child_id ps lat h =
     (let h1 = h\<lparr> last_tx_raw := AList.update child_id (ps, lat) (last_tx_raw h) \<rparr>
      in (push_all alive (TxEvent \<lparr> t_timestamp = ts, t_id = child_id, t_packets = window_of ps \<rparr>) h1,
          map (\<lambda>l. Raw l child_id (RawTx ps lat)) (raw_listeners h1)))"

subsection \<open>The periodic aggregation\<close>

text \<open>One entry of the merge: sums and extrema (averages still multiplied by the packets).\<close>

definition first_row :: "int list \<Rightarrow> agg_row" where
  "first_row v = \<lparr> g_pkt = v ! 0, g_rssi_min = v ! 1, g_rssi_avg = v ! 2 * v ! 0, g_rssi_max = v ! 3,
     g_snr_min = v ! 4, g_snr_avg = v ! 5 * v ! 0, g_snr_max = v ! 6 \<rparr>"

definition merge_row :: "agg_row \<Rightarrow> int list \<Rightarrow> agg_row" where
  "merge_row t v = \<lparr> g_pkt = v ! 0 + g_pkt t, g_rssi_min = min (v ! 1) (g_rssi_min t),
     g_rssi_avg = v ! 2 * v ! 0 + g_rssi_avg t, g_rssi_max = max (v ! 3) (g_rssi_max t),
     g_snr_min = min (v ! 4) (g_snr_min t), g_snr_avg = v ! 5 * v ! 0 + g_snr_avg t,
     g_snr_max = max (v ! 6) (g_snr_max t) \<rparr>"

definition merge_ant :: "(rx_key \<times> int) \<times> int list \<Rightarrow> stats_agg \<Rightarrow> stats_agg" where
  "merge_ant e m = (case e of ((_, ant_id), v) \<Rightarrow>
     AList.update ant_id (case map_of m ant_id of None \<Rightarrow> first_row v | Some t \<Rightarrow> merge_row t v) m)"

text \<open>Python's \<open>//\<close> is division rounded down.\<close>

definition finish_row :: "int \<times> agg_row \<Rightarrow> (int \<times> agg_row) res" where
  "finish_row e = (case e of (a, r) \<Rightarrow>
     if g_pkt r = 0 then Inl ZeroDivisionError
     else Inr (a, r\<lparr> g_rssi_avg := g_rssi_avg r div g_pkt r, g_snr_avg := g_snr_avg r div g_pkt r \<rparr>))"

definition stats_agg_by_freq_and_rxid :: "(string \<times> ant_stats) list \<Rightarrow> stats_agg res" where
  "stats_agg_by_freq_and_rxid by_rx = res_map finish_row (fold merge_ant (concat (map snd by_rx)) [])"

definition LINK_LOST :: int where "LINK_LOST = 1"
definition LINK_JAMMED :: int where "LINK_JAMMED = 2"

definition counter :: "packets \<Rightarrow> string \<Rightarrow> int res" where
  "counter ps k = (case map_of ps k of None \<Rightarrow> Inl KeyError | Some (w, _) \<Rightarrow> Inr w)"

definition sum_counters :: "string list \<Rightarrow> packets list \<Rightarrow> int res" where
  "sum_counters ks pss = res_bind (res_map (\<lambda>(ps, k). counter ps k) (concat (map (\<lambda>ps. map (\<lambda>k. (ps, k)) ks) pss)))
     (\<lambda>ns. Inr (sum_list ns))"

record agg_result =
  r_stats_agg :: stats_agg
  r_rssi :: rssi_tuple
  r_tx_sel :: "int option"

definition mavlink_summary :: "stats_agg \<Rightarrow> packets list \<Rightarrow> rssi_tuple res" where
  "mavlink_summary st pss =
     (let card_rssi = map (\<lambda>(_, r). (g_rssi_avg r, g_rssi_avg r - g_snr_avg r)) st in
      res_bind (sum_counters [''dec_err'', ''bad''] pss) (\<lambda>bad_packets.
      let (flags, rssi, noise) =
            (if card_rssi = [] then (LINK_LOST, - 128, - 128)
             else (if bad_packets > 0 then LINK_JAMMED else 0, max_list card_rssi))
      in res_bind (sum_counters [''dec_err'', ''bad'', ''lost''] pss) (\<lambda>errs.
         res_bind (sum_counters [''fec_rec''] pss) (\<lambda>fec.
           Inr (rssi, noise, min errs 65535, min fec 65535, flags)))))"

definition aggregate_window :: "hub \<Rightarrow> (hub \<times> hub_effect list) \<times> agg_result res" where
  "aggregate_window h =
     (let cur = h_cur h; h1 = h\<lparr> h_cur := [] \<rparr> in
      case stats_agg_by_freq_and_rxid (map (\<lambda>(c, a, _). (c, a)) cur) of
        Inl e \<Rightarrow> ((h1, []), Inl e)
      | Inr st \<Rightarrow>
          let (s', tx_sel) = (if st = [] then (h_txsel h1, None) else tx_select (h_txsel h1) st);
              h2 = h1\<lparr> h_txsel := s' \<rparr>;
              sel_effects = (case tx_sel of None \<Rightarrow> [] | Some w \<Rightarrow> map (\<lambda>c. AntSel c (Some w)) (ant_sel_cbs h2))
          in case mavlink_summary st (map (\<lambda>(_, _, ps). ps) cur) of
               Inl e \<Rightarrow> ((h2, sel_effects), Inl e)
             | Inr rssi \<Rightarrow> ((h2, sel_effects @ map (\<lambda>c. Rssi c rssi) (rssi_cbs h2)),
                  Inr \<lparr> r_stats_agg = st, r_rssi = rssi, r_tx_sel = tx_sel \<rparr>))"

subsection \<open>Consumers\<close>

definition subscribe :: "nat \<Rightarrow> hub \<Rightarrow> hub \<times> subscription" where
  "subscribe i h =
     (if h_closed h then (h, \<lparr> sub_id = i, sub_queue = [], closed_event = True \<rparr>)
      else let s = \<lparr> sub_id = i, sub_queue = [], closed_event = False \<rparr> in (h\<lparr> subs := subs h @ [s] \<rparr>, s))"

definition hub_close :: "(nat \<Rightarrow> bool) \<Rightarrow> hub \<Rightarrow> hub \<times> hub_effect list" where
  "hub_close alive h =
     (if h_closed h then (h, [])
      else (h\<lparr> h_closed := True, subs := map (\<lambda>s. if alive (sub_id s) then s\<lparr> closed_event := True \<rparr> else s) (subs h) \<rparr>,
            map (\<lambda>s. Wake (sub_id s)) (filter (\<lambda>s. alive (sub_id s)) (subs h))))"

definition add_raw_listener :: "nat \<Rightarrow> hub \<Rightarrow> hub" where
  "add_raw_listener l h = h\<lparr> raw_listeners := raw_listeners h @ [l] \<rparr>"

definition remove_raw_listener :: "nat \<Rightarrow> hub \<Rightarrow> hub" where
  "remove_raw_listener l h = h\<lparr> raw_listeners := remove1 l (raw_listeners h) \<rparr>"

definition add_rssi_cb :: "nat \<Rightarrow> hub \<Rightarrow> hub" where
  "add_rssi_cb c h = h\<lparr> rssi_cbs := rssi_cbs h @ [c] \<rparr>"

definition add_ant_sel_cb :: "nat \<Rightarrow> hub \<Rightarrow> hub \<times> hub_effect list" where
  "add_ant_sel_cb c h = (h\<lparr> ant_sel_cbs := ant_sel_cbs h @ [c] \<rparr>, [AntSel c (current (h_txsel h))])"

text \<open>\<open>NativeStatsSource.run\<close> up to its wait: subscribe, then replay the known sessions. It
  waits until \<open>stop()\<close> or until its \<open>closed_event\<close> is set, then unsubscribes.\<close>

definition source_run :: "nat \<Rightarrow> real \<Rightarrow> hub \<Rightarrow> hub \<times> event list" where
  "source_run i ts h = (fst (subscribe i h),
     map (\<lambda>(c, s). SessionEvent \<lparr> n_timestamp = ts, n_id = c, n_session = to_session_info s \<rparr>) (h_sessions h))"

definition source_returns :: "nat \<Rightarrow> bool \<Rightarrow> hub \<Rightarrow> subscription \<Rightarrow> bool" where
  "source_returns i stopped h s = (stopped \<or> closed_event s \<or> (\<exists>s' \<in> set (subs h). sub_id s' = i \<and> closed_event s'))"

subsection \<open>What the selection is specified by\<close>

definition card_ants :: "stats_agg \<Rightarrow> int \<Rightarrow> agg_row set" where
  "card_ants st w = {v. \<exists>a. (a, v) \<in> set st \<and> a div 256 = w}"

definition card_rssi :: "stats_agg \<Rightarrow> int \<Rightarrow> int" where "card_rssi st w = Max (g_rssi_avg ` card_ants st w)"
definition card_pkts :: "stats_agg \<Rightarrow> int \<Rightarrow> int" where "card_pkts st w = Max (g_pkt ` card_ants st w)"

definition eligible :: "txsel \<Rightarrow> stats_agg \<Rightarrow> int \<Rightarrow> bool" where
  "eligible s st w = (w \<notin> set (rx_only_wlan_ids s) \<and> card_ants st w \<noteq> {})"

definition best_pkts :: "txsel \<Rightarrow> stats_agg \<Rightarrow> int" where
  "best_pkts s st = Max (insert 0 (card_pkts st ` {w. eligible s st w}))"

text \<open>A card that may transmit and receives nearly as many packets as the best one.\<close>

definition candidate :: "txsel \<Rightarrow> stats_agg \<Rightarrow> int \<Rightarrow> bool" where
  "candidate s st w = (eligible s st w \<and>
     real_of_int (card_pkts st w) \<ge> real_of_int (best_pkts s st) -
       max (real_of_int (counter_abs_delta (sel_cfg s))) (real_of_int (best_pkts s st) * counter_rel_delta (sel_cfg s)))"

text \<open>The candidate with the strongest signal; the higher number wins a tie.\<close>

definition best_candidate :: "txsel \<Rightarrow> stats_agg \<Rightarrow> int \<Rightarrow> bool" where
  "best_candidate s st w = (candidate s st w \<and> (\<forall>w'. candidate s st w' \<longrightarrow>
     card_rssi st w' < card_rssi st w \<or> card_rssi st w' = card_rssi st w \<and> w' \<le> w))"

text \<open>The packet-weighted mean (rounded down) and the extrema over the values of an antenna.\<close>

definition mean_row :: "int list list \<Rightarrow> agg_row" where
  "mean_row vs = (let n = (\<Sum>v\<leftarrow>vs. v ! 0); all = (\<lambda>k. set (map (\<lambda>v. v ! k) vs)) in
     \<lparr> g_pkt = n, g_rssi_min = Min (all 1), g_rssi_avg = (\<Sum>v\<leftarrow>vs. v ! 2 * v ! 0) div n, g_rssi_max = Max (all 3),
       g_snr_min = Min (all 4), g_snr_avg = (\<Sum>v\<leftarrow>vs. v ! 5 * v ! 0) div n, g_snr_max = Max (all 6) \<rparr>)"

text \<open>The values merged for one antenna, in order.\<close>

definition ant_vals :: "((rx_key \<times> int) \<times> int list) list \<Rightarrow> int \<Rightarrow> int list list" where
  "ant_vals es a = map snd (filter (\<lambda>((_, i), _). i = a) es)"

definition merged :: "int list list \<Rightarrow> agg_row" where
  "merged vs = foldl merge_row (first_row (hd vs)) (tl vs)"

section \<open>Selection\<close>

lemma max_list_Max: "xs \<noteq> [] \<Longrightarrow> max_list xs = Max (set xs)"
  using Max.set_eq_fold [of "hd xs" "tl xs"] by (simp add: max_list_def)

lemma set_groupby: "k \<in> fst ` set (groupby rs) \<longleftrightarrow> k \<in> fst ` set rs"
  by (induction rs) (auto split: list.splits prod.splits if_splits)

lemma hd_groupby: "rs \<noteq> [] \<Longrightarrow> \<exists>g gs. groupby rs = (fst (hd rs), g) # gs"
  by (cases rs) (auto split: list.splits prod.splits)

lemma groupby_sorted:
  "sorted (map fst rs) \<Longrightarrow> distinct (map fst (groupby rs)) \<and>
     (\<forall>k g. (k, g) \<in> set (groupby rs) \<longrightarrow> g = filter (\<lambda>r. fst r = k) rs)"
proof (induction rs)
  case IH: (Cons r rs)
  show ?case
  proof (cases rs)
    case Nil
    then show ?thesis by simp
  next
    case (Cons r' rs')
    then obtain g gs where g: "groupby rs = (fst r', g) # gs" using hd_groupby [of rs] by auto
    have d: "fst r' \<notin> fst ` set gs" "distinct (map fst gs)" using IH g by auto
    have f: "\<And>k g'. (k, g') \<in> set (groupby rs) \<Longrightarrow> g' = filter (\<lambda>r. fst r = k) rs" using IH by simp
    show ?thesis
    proof (cases "fst r' = fst r")
      case True
      have e: "groupby (r # rs) = (fst r, r # g) # gs" using g True by simp
      have "g' = filter (\<lambda>x. fst x = k) (r # rs)" if "(k, g') \<in> set gs" for k g'
      proof -
        have "k \<noteq> fst r" using that d True by force
        then show ?thesis using f [of k g'] that g by simp
      qed
      moreover have "g = filter (\<lambda>x. fst x = fst r) rs" using f [of "fst r'" g] g True by simp
      ultimately show ?thesis unfolding e using d True by simp
    next
      case False
      have e: "groupby (r # rs) = (fst r, [r]) # groupby rs" using g False by simp
      have "\<forall>x \<in> fst ` set rs. fst r < x" using IH(2) False Cons by auto
      then have nin: "fst r \<notin> fst ` set rs" by blast
      then have k: "fst r \<notin> fst ` set (groupby rs)" by (simp only: set_groupby not_False_eq_True)
      have "g' = filter (\<lambda>x. fst x = k) (r # rs)" if "(k, g') \<in> set (groupby rs)" for k g'
        using f [OF that] that k by force
      moreover have "filter (\<lambda>x. fst x = fst r) rs = []" unfolding filter_empty_conv using nin by (metis image_eqI)
      ultimately show ?thesis unfolding e using k IH by simp
    qed
  qed
qed simp

lemma sorted_fst: "sorted rs \<Longrightarrow> sorted (map fst rs)" for rs :: "(int \<times> int \<times> int) list"
  by (induction rs) (auto simp: less_eq_prod_def)

lemma wlan_stats_keys: "distinct (map fst (wlan_rssi_and_pkts ro st))"
proof -
  let ?g = "groupby (sel_rows st)"
  have "distinct (map fst ?g)"
    using groupby_sorted [OF sorted_fst, of "sel_rows st"] by (simp add: sel_rows_def)
  then have "distinct (map fst (filter (\<lambda>(w, _). w \<notin> set ro) ?g))" by (simp add: distinct_map_filter)
  moreover have "map fst (wlan_rssi_and_pkts ro st) = map fst (filter (\<lambda>(w, _). w \<notin> set ro) ?g)"
    by (simp add: wlan_rssi_and_pkts_def case_prod_beta comp_def)
  ultimately show ?thesis by simp
qed

lemma wlan_stats_spec:
  "(w, r, p) \<in> set (wlan_rssi_and_pkts (rx_only_wlan_ids s) st) \<longleftrightarrow>
     eligible s st w \<and> r = card_rssi st w \<and> p = card_pkts st w"
proof -
  let ?rows = "sel_rows st"
  let ?f = "filter (\<lambda>x. fst x = w) ?rows"
  have rows: "set ?rows = (\<lambda>(a, v). (a div 256, g_pkt v, g_rssi_avg v)) ` set st" by (simp add: sel_rows_def)
  have gs: "\<forall>k g. (k, g) \<in> set (groupby ?rows) \<longrightarrow> g = filter (\<lambda>x. fst x = k) ?rows"
    using groupby_sorted [OF sorted_fst, of ?rows] by (simp add: sel_rows_def)
  have ne: "w \<in> fst ` set (groupby ?rows) \<longleftrightarrow> card_ants st w \<noteq> {}"
    unfolding set_groupby rows card_ants_def by force
  have f1: "set (map (snd \<circ> snd) ?f) = g_rssi_avg ` card_ants st w"
    by (force simp: rows card_ants_def image_iff)
  have f2: "set (map (fst \<circ> snd) ?f) = g_pkt ` card_ants st w"
    by (force simp: rows card_ants_def image_iff)
  note f = f1 f2
  have fe: "?f \<noteq> []" if "card_ants st w \<noteq> {}"
    using that f by force
  have mx: "max_list (map (snd \<circ> snd) ?f) = card_rssi st w" "max_list (map (fst \<circ> snd) ?f) = card_pkts st w"
    if "card_ants st w \<noteq> {}"
    using max_list_Max [of "map (snd \<circ> snd) ?f"] max_list_Max [of "map (fst \<circ> snd) ?f"] fe [OF that] f
    unfolding card_rssi_def card_pkts_def by simp_all
  have key: "g = ?f" if "(w, g) \<in> set (groupby ?rows)" for g
    using gs that by blast
  have "(w, r, p) \<in> set (wlan_rssi_and_pkts (rx_only_wlan_ids s) st) \<longleftrightarrow> w \<notin> set (rx_only_wlan_ids s) \<and>
      (\<exists>g. (w, g) \<in> set (groupby ?rows) \<and> r = max_list (map (snd \<circ> snd) g) \<and> p = max_list (map (fst \<circ> snd) g))"
    by (auto simp: wlan_rssi_and_pkts_def)
  also have "\<dots> \<longleftrightarrow> w \<notin> set (rx_only_wlan_ids s) \<and> w \<in> fst ` set (groupby ?rows) \<and>
      r = max_list (map (snd \<circ> snd) ?f) \<and> p = max_list (map (fst \<circ> snd) ?f)"
  proof (rule conj_cong [OF refl], rule iffI)
    assume "w \<in> fst ` set (groupby ?rows) \<and> r = max_list (map (snd \<circ> snd) ?f) \<and> p = max_list (map (fst \<circ> snd) ?f)"
    moreover from this obtain g where "(w, g) \<in> set (groupby ?rows)" by force
    moreover from this have "g = ?f" by (rule key)
    ultimately show "\<exists>g. (w, g) \<in> set (groupby ?rows) \<and> r = max_list (map (snd \<circ> snd) g) \<and> p = max_list (map (fst \<circ> snd) g)"
      by blast
  qed (use key in force)
  also have "\<dots> \<longleftrightarrow> eligible s st w \<and> r = card_rssi st w \<and> p = card_pkts st w"
    unfolding ne eligible_def by (cases "card_ants st w = {}") (simp_all add: mx)
  finally show ?thesis .
qed

lemma finite_card_ants: "finite (card_ants st w)"
proof -
  have "card_ants st w \<subseteq> snd ` set st" by (force simp: card_ants_def)
  then show ?thesis by (rule finite_subset) simp
qed

lemma max_pkts_spec: "max_pkts (wlan_rssi_and_pkts (rx_only_wlan_ids s) st) = best_pkts s st"
proof -
  let ?ws = "wlan_rssi_and_pkts (rx_only_wlan_ids s) st"
  have "fold (\<lambda>(_, _, p) m. max p m) ws a = fold max (map (snd \<circ> snd) ws) a" for a :: int and ws :: "(int \<times> int \<times> int) list"
    by (induction ws arbitrary: a) auto
  then have "max_pkts ?ws = Max (insert 0 ((snd \<circ> snd) ` set ?ws))"
    using Max.set_eq_fold [of 0 "map (snd \<circ> snd) ?ws"] by (simp add: max_pkts_def)
  moreover have "(snd \<circ> snd) ` set ?ws = card_pkts st ` {w. eligible s st w}"
    using wlan_stats_spec [of _ _ _ s st] by (force simp: image_iff)
  ultimately show ?thesis by (simp add: best_pkts_def)
qed

lemma near_max_spec: "w \<in> set (near_max (sel_cfg s) (wlan_rssi_and_pkts (rx_only_wlan_ids s) st)) \<longleftrightarrow> candidate s st w"
  unfolding near_max_def Let_def max_pkts_spec candidate_def
  by (force simp: wlan_stats_spec image_iff)

lemma map_of_wlan_stats:
  "map_of (wlan_rssi_and_pkts (rx_only_wlan_ids s) st) w =
     (if eligible s st w then Some (card_rssi st w, card_pkts st w) else None)"
proof (cases "map_of (wlan_rssi_and_pkts (rx_only_wlan_ids s) st) w")
  case None
  then have "\<not> eligible s st w"
    using wlan_stats_spec [of w "card_rssi st w" "card_pkts st w" s st] by (force simp: map_of_eq_None_iff)
  then show ?thesis using None by simp
next
  case (Some rp)
  then have "(w, fst rp, snd rp) \<in> set (wlan_rssi_and_pkts (rx_only_wlan_ids s) st)" by (simp add: map_of_SomeD)
  then show ?thesis using Some unfolding wlan_stats_spec by (cases rp) simp
qed

text \<open>The strongest candidate: highest RSSI, ties to the higher card number.\<close>

lemma strongest:
  fixes s st
  defines "ws \<equiv> wlan_rssi_and_pkts (rx_only_wlan_ids s) st"
  assumes near: "near_max (sel_cfg s) ws \<noteq> []"
    and m: "max_list (map (\<lambda>(w, r, _). (r, w)) (filter (\<lambda>(w, _, _). w \<in> set (near_max (sel_cfg s) ws)) ws)) = (r, w)"
  shows "best_candidate s st w \<and> r = card_rssi st w"
proof -
  let ?l = "map (\<lambda>(w, r, _). (r, w)) (filter (\<lambda>(w, _, _). w \<in> set (near_max (sel_cfg s) ws)) ws)"
  have l: "(x, v) \<in> set ?l \<longleftrightarrow> candidate s st v \<and> x = card_rssi st v" for x v
  proof -
    have "(x, v) \<in> set ?l \<longleftrightarrow> v \<in> set (near_max (sel_cfg s) ws) \<and> (\<exists>p. (v, x, p) \<in> set ws)" by force
    then show ?thesis unfolding ws_def near_max_spec wlan_stats_spec by (auto simp: candidate_def)
  qed
  obtain v where "v \<in> set (near_max (sel_cfg s) ws)" using near by (cases "near_max (sel_cfg s) ws") auto
  then have "candidate s st v" unfolding ws_def near_max_spec .
  then have "(card_rssi st v, v) \<in> set ?l" using l by blast
  then have ne: "?l \<noteq> []" by force
  have "max_list ?l = Max (set ?l)" by (rule max_list_Max [OF ne])
  then have mx: "(r, w) = Max (set ?l)" using m by simp
  have "set ?l \<noteq> {}" using ne by (simp only: set_empty not_False_eq_True)
  then have "(r, w) \<in> set ?l" unfolding mx by (rule Max_in [OF finite_set])
  then have w: "candidate s st w" "r = card_rssi st w" using l by blast+
  have "card_rssi st w' < r \<or> card_rssi st w' = r \<and> w' \<le> w" if "candidate s st w'" for w'
  proof -
    have "(card_rssi st w', w') \<in> set ?l" using that l by blast
    then have "(card_rssi st w', w') \<le> (r, w)" unfolding mx by (intro Max_ge) simp_all
    then show ?thesis by (auto simp: less_eq_prod_def)
  qed
  then show ?thesis using w unfolding best_candidate_def w(2) by (intro conjI allI impI) simp_all
qed

lemma if_or_same: "a = a' \<Longrightarrow> (if a then x else if b then x else y) = (if a' \<or> b then x else y)"
  by simp

lemma best_candidate_unique:
  assumes "best_candidate s st v" "best_candidate s st w"
  shows "v = w"
proof -
  have c: "candidate s st v" "candidate s st w" using assms by (simp_all add: best_candidate_def)
  have "card_rssi st w < card_rssi st v \<or> card_rssi st w = card_rssi st v \<and> w \<le> v"
    using assms(1) c(2) unfolding best_candidate_def by blast
  moreover have "card_rssi st v < card_rssi st w \<or> card_rssi st v = card_rssi st w \<and> v \<le> w"
    using assms(2) c(1) unfolding best_candidate_def by blast
  ultimately show ?thesis by linarith
qed

text \<open>The selection in one equation: nothing without a candidate; otherwise the best candidate, unless
  it is the current card or the current card is a candidate and not weak enough.\<close>

lemma tx_select_none:
  assumes "\<And>w. \<not> candidate s st w"
  shows "tx_select s st = (s, None)"
proof -
  have "near_max (sel_cfg s) (wlan_rssi_and_pkts (rx_only_wlan_ids s) st) = []"
    using near_max_spec [of "hd (near_max (sel_cfg s) (wlan_rssi_and_pkts (rx_only_wlan_ids s) st))" s st] assms hd_in_set by blast
  then show ?thesis by (simp add: tx_select_def Let_def)
qed

lemma tx_select_best:
  assumes "candidate s st x"
  obtains v where "best_candidate s st v"
    "tx_select s st = (if current s = Some v \<or> (\<exists>c. current s = Some c \<and> candidate s st c \<and> card_rssi st v - card_rssi st c < rssi_delta_db (sel_cfg s))
       then (s, None) else (s\<lparr> current := Some v \<rparr>, Some v))"
proof -
  let ?ws = "wlan_rssi_and_pkts (rx_only_wlan_ids s) st"
  let ?near = "near_max (sel_cfg s) ?ws"
  let ?l = "map (\<lambda>(w, r, _). (r, w)) (filter (\<lambda>(w, _, _). w \<in> set ?near) ?ws)"
  let ?cur = "case current s of None \<Rightarrow> - 1000 | Some c \<Rightarrow> (case map_of ?ws c of None \<Rightarrow> - 1000 | Some (r, _) \<Rightarrow> r)"
  obtain r v where m: "max_list ?l = (r, v)" by fastforce
  have "x \<in> set ?near" using assms by (simp only: near_max_spec)
  then have ne: "?near \<noteq> []" by force
  then have ws: "?ws \<noteq> []" by (auto simp: near_max_def max_pkts_def Let_def)
  have e: "tx_select s st = (if Some v = current s then (s, None)
      else if (case current s of None \<Rightarrow> False | Some c \<Rightarrow> c \<in> set ?near) \<and> r - ?cur < rssi_delta_db (sel_cfg s)
      then (s, None) else (s\<lparr> current := Some v \<rparr>, Some v))"
    unfolding tx_select_def Let_def using ne ws m by simp
  have b: "best_candidate s st v" "r = card_rssi st v" using strongest [OF ne m] by simp_all
  have "((case current s of None \<Rightarrow> False | Some c \<Rightarrow> c \<in> set ?near) \<and> r - ?cur < rssi_delta_db (sel_cfg s)) =
      (\<exists>c. current s = Some c \<and> candidate s st c \<and> card_rssi st v - card_rssi st c < rssi_delta_db (sel_cfg s))"
  proof (cases "current s")
    case (Some c)
    have "?cur = card_rssi st c" if "candidate s st c" using that Some by (simp add: map_of_wlan_stats candidate_def)
    then show ?thesis using Some b(2) near_max_spec [of c s st] by auto
  qed simp
  note hold = this
  have "tx_select s st = (if current s = Some v \<or> (\<exists>c. current s = Some c \<and> candidate s st c \<and> card_rssi st v - card_rssi st c < rssi_delta_db (sel_cfg s))
       then (s, None) else (s\<lparr> current := Some v \<rparr>, Some v))"
    unfolding e hold by (rule if_or_same [OF eq_commute])
  then show thesis by (rule that [OF b(1)])
qed

section \<open>Merging\<close>

lemma merged_Cons: "merged (v # vs) = foldl merge_row (first_row v) vs"
  by (simp add: merged_def)

lemma map_of_merge_ant:
  "map_of (merge_ant ((k, i), v) m) a =
     (if a = i then Some (case map_of m i of None \<Rightarrow> first_row v | Some t \<Rightarrow> merge_row t v) else map_of m a)"
  by (simp add: merge_ant_def update_conv')

lemma ant_vals_Cons: "ant_vals (((k, i), v) # es) a = (if i = a then v # ant_vals es a else ant_vals es a)"
  by (simp add: ant_vals_def)

lemma map_of_fold_merge:
  "map_of (fold merge_ant es m) a =
     (case map_of m a of
        None \<Rightarrow> if ant_vals es a = [] then None else Some (merged (ant_vals es a))
      | Some t \<Rightarrow> Some (foldl merge_row t (ant_vals es a)))"
proof (induction es arbitrary: m)
  case (Cons e es)
  obtain k i v where e: "e = ((k, i), v)" by (metis prod.exhaust)
  show ?case
    by (simp add: Cons e map_of_merge_ant ant_vals_Cons merged_Cons split: option.split)
qed (simp add: ant_vals_def split: option.split)

lemma foldl_merge_sums:
  "foldl merge_row t vs = \<lparr> g_pkt = g_pkt t + (\<Sum>v\<leftarrow>vs. v ! 0),
     g_rssi_min = fold (\<lambda>v m. min (v ! 1) m) vs (g_rssi_min t),
     g_rssi_avg = g_rssi_avg t + (\<Sum>v\<leftarrow>vs. v ! 2 * v ! 0),
     g_rssi_max = fold (\<lambda>v m. max (v ! 3) m) vs (g_rssi_max t),
     g_snr_min = fold (\<lambda>v m. min (v ! 4) m) vs (g_snr_min t),
     g_snr_avg = g_snr_avg t + (\<Sum>v\<leftarrow>vs. v ! 5 * v ! 0),
     g_snr_max = fold (\<lambda>v m. max (v ! 6) m) vs (g_snr_max t) \<rparr>"
  by (induction vs arbitrary: t) (simp_all add: merge_row_def)

lemma distinct_fold_merge: "distinct (map fst m) \<Longrightarrow> distinct (map fst (fold merge_ant es m))"
  by (induction es arbitrary: m) (auto simp: merge_ant_def distinct_update split: prod.split)

lemma finish_row_pair:
  "finish_row (a, r) = (if g_pkt r = 0 then Inl ZeroDivisionError
     else Inr (a, r\<lparr> g_rssi_avg := g_rssi_avg r div g_pkt r, g_snr_avg := g_snr_avg r div g_pkt r \<rparr>))"
  by (simp add: finish_row_def)

lemma finish_rows:
  assumes "res_map finish_row m = Inr st"
  shows "map_of st a = map_option (\<lambda>r. r\<lparr> g_rssi_avg := g_rssi_avg r div g_pkt r, g_snr_avg := g_snr_avg r div g_pkt r \<rparr>) (map_of m a)"
  using assms
proof (induction m arbitrary: st)
  case (Cons e m)
  obtain i r where e: "e = (i, r)" by fastforce
  from Cons.prems obtain ys where ys: "res_map finish_row m = Inr ys" "g_pkt r \<noteq> 0"
    "st = (i, r\<lparr> g_rssi_avg := g_rssi_avg r div g_pkt r, g_snr_avg := g_snr_avg r div g_pkt r \<rparr>) # ys"
    by (auto simp: e finish_row_pair split: if_splits sum.splits)
  show ?case using Cons.IH [OF ys(1)] ys(3) by (simp add: e)
qed simp

text \<open>The first antenna without packets ends the merge.\<close>

lemma finish_rows_error: "res_map finish_row m = Inl x \<Longrightarrow> x = ZeroDivisionError \<and> (\<exists>r \<in> snd ` set m. g_pkt r = 0)"
proof (induction m)
  case (Cons e m)
  obtain i r where e: "e = (i, r)" by fastforce
  show ?case
    using Cons by (auto simp: e finish_row_pair split: if_splits sum.splits)
qed simp

lemma fold_min_Min: "fold (\<lambda>v m. min (v ! k) m) vs x = Min (insert x (set (map (\<lambda>v. v ! k) vs)))" for x :: int
proof -
  have "fold (\<lambda>v m. min (v ! k) m) vs x = fold min (map (\<lambda>v. v ! k) vs) x"
    by (simp add: fold_map comp_def)
  then show ?thesis using Min.set_eq_fold [of x "map (\<lambda>v. v ! k) vs"] by simp
qed

lemma fold_max_Max: "fold (\<lambda>v m. max (v ! k) m) vs x = Max (insert x (set (map (\<lambda>v. v ! k) vs)))" for x :: int
proof -
  have "fold (\<lambda>v m. max (v ! k) m) vs x = fold max (map (\<lambda>v. v ! k) vs) x"
    by (simp add: fold_map comp_def)
  then show ?thesis using Max.set_eq_fold [of x "map (\<lambda>v. v ! k) vs"] by simp
qed

lemma merged_mean:
  assumes "vs \<noteq> []"
  shows "(merged vs)\<lparr> g_rssi_avg := g_rssi_avg (merged vs) div g_pkt (merged vs),
      g_snr_avg := g_snr_avg (merged vs) div g_pkt (merged vs) \<rparr> = mean_row vs"
    and "g_pkt (merged vs) = (\<Sum>v\<leftarrow>vs. v ! 0)"
proof -
  obtain v ws where vs: "vs = v # ws" using assms by (cases vs) auto
  show "(merged vs)\<lparr> g_rssi_avg := g_rssi_avg (merged vs) div g_pkt (merged vs),
      g_snr_avg := g_snr_avg (merged vs) div g_pkt (merged vs) \<rparr> = mean_row vs"
    unfolding vs merged_Cons foldl_merge_sums fold_min_Min fold_max_Max
    by (simp only: first_row_def mean_row_def Let_def agg_row.simps list.map sum_list.Cons list.set)
  show "g_pkt (merged vs) = (\<Sum>v\<leftarrow>vs. v ! 0)"
    unfolding vs merged_Cons foldl_merge_sums by (simp add: first_row_def)
qed

section \<open>Properties\<close>

text \<open>The statistics of an antenna seen by several receivers are merged into the
  packet-weighted mean of its RSSI and SNR (rounded down), with their extrema; the merge fails
  exactly when the packets of some antenna sum to zero, and then with ZeroDivisionError.\<close>

theorem agg_merge_spec:
  "let vals = ant_vals (concat (map snd by_rx)) in
   case stats_agg_by_freq_and_rxid by_rx of
     Inr st \<Rightarrow> \<forall>a. map_of st a = (if vals a = [] then None else Some (mean_row (vals a)))
   | Inl e \<Rightarrow> e = ZeroDivisionError \<and> (\<exists>a. vals a \<noteq> [] \<and> (\<Sum>v\<leftarrow>vals a. v ! 0) = 0)"
proof -
  let ?es = "concat (map snd by_rx)"
  let ?m = "fold merge_ant ?es []"
  have m: "map_of ?m a = (if ant_vals ?es a = [] then None else Some (merged (ant_vals ?es a)))" for a
    using map_of_fold_merge [of ?es "[]" a] by simp
  show ?thesis
  proof (cases "res_map finish_row ?m")
    case (Inr st)
    have "map_of st a = (if ant_vals ?es a = [] then None else Some (mean_row (ant_vals ?es a)))" for a
      using finish_rows [OF Inr, of a] m [of a] merged_mean(1) [of "ant_vals ?es a"] by simp
    then show ?thesis by (simp add: stats_agg_by_freq_and_rxid_def Inr)
  next
    case (Inl e)
    have d: "distinct (map fst ?m)" by (rule distinct_fold_merge) simp
    from finish_rows_error [OF Inl] obtain a r where e: "e = ZeroDivisionError" "(a, r) \<in> set ?m" "g_pkt r = 0"
      by force
    have "map_of ?m a = Some r" using d e(2) by simp
    then have "ant_vals ?es a \<noteq> [] \<and> (\<Sum>v\<leftarrow>ant_vals ?es a. v ! 0) = 0"
      using m [of a] e(3) merged_mean(2) [of "ant_vals ?es a"] by (auto split: if_splits)
    then show ?thesis using e(1) by (auto simp: stats_agg_by_freq_and_rxid_def Inl Let_def)
  qed
qed

text \<open>C13. The transmit card changes exactly when it should. A pass over a window switches to \<open>w\<close>
  exactly when \<open>w\<close> is the best candidate (allowed to transmit, close to the highest packet count,
  strongest signal, ties to the higher number), is not the current card, and the current card is
  either no candidate any more or weaker by at least the configured step; otherwise the selection
  is unchanged. The step is a dead band: if the selection goes from \<open>c\<close> to \<open>w\<close> in one window and back
  from \<open>w\<close> to \<open>c\<close> in a later one, each being still a candidate when it is left, their signals have
  moved against each other by at least twice the step.\<close>

theorem tx_card_selection:
  "(tx_select s st = (s', Some w) \<longleftrightarrow> s' = s\<lparr> current := Some w \<rparr> \<and> best_candidate s st w \<and> current s \<noteq> Some w \<and>
      (\<forall>c. current s = Some c \<and> candidate s st c \<longrightarrow> card_rssi st c + rssi_delta_db (sel_cfg s) \<le> card_rssi st w)) \<and>
   (tx_select s st = (s', None) \<longrightarrow> s' = s) \<and>
   (\<forall>c t. current s = Some c \<and> candidate s st c \<and> tx_select s st = (s', Some w) \<and>
      candidate s' st2 w \<and> tx_select s' st2 = (t, Some c) \<longrightarrow>
      2 * rssi_delta_db (sel_cfg s) \<le> (card_rssi st w - card_rssi st c) - (card_rssi st2 w - card_rssi st2 c))"
proof -
  have iff: "tx_select s st = (s', Some w) \<longleftrightarrow> s' = s\<lparr> current := Some w \<rparr> \<and> best_candidate s st w \<and> current s \<noteq> Some w \<and>
      (\<forall>c. current s = Some c \<and> candidate s st c \<longrightarrow> card_rssi st c + rssi_delta_db (sel_cfg s) \<le> card_rssi st w)" for s st s' w
  proof (cases "\<exists>x. candidate s st x")
    case True
    then obtain x where "candidate s st x" by blast
    then show ?thesis
    proof (rule tx_select_best)
      fix v
      assume v: "best_candidate s st v"
        "tx_select s st = (if current s = Some v \<or> (\<exists>c. current s = Some c \<and> candidate s st c \<and> card_rssi st v - card_rssi st c < rssi_delta_db (sel_cfg s))
          then (s, None) else (s\<lparr> current := Some v \<rparr>, Some v))"
      then show ?thesis using best_candidate_unique [OF v(1), of w] by (auto simp: not_less algebra_simps)
    qed
  qed (simp add: tx_select_none best_candidate_def)
  have "s' = s" if "tx_select s st = (s', None)"
    using that by (auto simp: tx_select_def Let_def split: if_splits prod.splits)
  moreover have "2 * rssi_delta_db (sel_cfg s) \<le> (card_rssi st w - card_rssi st c) - (card_rssi st2 w - card_rssi st2 c)"
    if h: "current s = Some c" "candidate s st c" "tx_select s st = (s', Some w)" "candidate s' st2 w" "tx_select s' st2 = (t, Some c)" for c t
  proof -
    have s': "s' = s\<lparr> current := Some w \<rparr>" and 1: "card_rssi st c + rssi_delta_db (sel_cfg s) \<le> card_rssi st w"
      using iff [THEN iffD1, OF h(3)] h(1,2) by blast+
    have "card_rssi st2 w + rssi_delta_db (sel_cfg s') \<le> card_rssi st2 c"
      using iff [THEN iffD1, OF h(5)] h(4) s' by simp
    then show ?thesis using 1 by (simp add: s')
  qed
  ultimately show ?thesis using iff [of s st s' w] by blast
qed

theorem tx_card_selection_witness:
  "let s = \<lparr> sel_cfg = TxSelectorConfig, rx_only_wlan_ids = [2], current = Some 0 \<rparr>;
       row = \<lambda>p r. \<lparr> g_pkt = p, g_rssi_min = r, g_rssi_avg = r, g_rssi_max = r, g_snr_min = 20, g_snr_avg = 20, g_snr_max = 20 \<rparr>;
       st = [(0, row 100 (- 60)), (256, row 98 (- 50)), (512, row 99 (- 40))]
   in candidate s st 1 \<and> card_rssi st 0 + 3 \<le> card_rssi st 1"
proof -
  let ?s = "\<lparr> sel_cfg = TxSelectorConfig, rx_only_wlan_ids = [2], current = Some 0 \<rparr>"
  let ?row = "\<lambda>p r. \<lparr> g_pkt = p, g_rssi_min = r, g_rssi_avg = r, g_rssi_max = r, g_snr_min = 20, g_snr_avg = 20, g_snr_max = 20 \<rparr>"
  let ?st = "[(0, ?row 100 (- 60)), (256, ?row 98 (- 50)), (512, ?row 99 (- 40))]"
  have ws: "wlan_rssi_and_pkts [2] ?st = [(0, - 60, 100), (1, - 50, 98)]"
    by (simp add: wlan_rssi_and_pkts_def sel_rows_def max_list_def less_eq_prod_def)
  have near: "near_max TxSelectorConfig [(0, - 60, 100), (1, - 50, 98)] = [0, 1]"
    by (simp add: near_max_def max_pkts_def TxSelectorConfig_def)
  have "tx_select ?s ?st = (?s\<lparr> current := Some 1 \<rparr>, Some 1)"
    by (simp add: tx_select_def ws near max_list_def less_eq_prod_def max_def Let_def) (simp add: TxSelectorConfig_def)
  note t = tx_card_selection [of ?s ?st "?s\<lparr> current := Some 1 \<rparr>" 1 ?st, THEN conjunct1, THEN iffD1, OF this]
  have "candidate ?s ?st 0" using near_max_spec [of 0 ?s ?st] by (simp add: ws near)
  then show ?thesis using t by (simp add: TxSelectorConfig_def best_candidate_def)
qed

end
