(* ===== verification/Statsd.thy ===== *)
theory Statsd
  imports Stats_Hub
begin

text \<open>
  \<open>src/gs/fpvdgs/wfb/statsd.py\<close>: the JSON statistics server. It is a raw listener of the hub:
  every raw payload becomes one JSON record, written to every connected client. A client whose
  write buffer is over the limit, or whose connection is broken, is dropped. \<open>json.dumps\<close>
  followed by \<open>json.loads\<close> on the other side is the identity on these records, so a line is
  modelled by its JSON value.

  The main result is the wire contract: what the client of the dynamic link
  (\<open>Stats_Events.parse_record\<close>) decodes from a record is exactly the event the hub delivers to
  its in-process subscribers for the same window.
\<close>

section \<open>Definitions\<close>

definition RX_ANT_KEYS :: "string list" where
  "RX_ANT_KEYS = [''ant'', ''freq'', ''mcs'', ''bw'']"

definition RX_ANT_VALUE_KEYS :: "string list" where
  "RX_ANT_VALUE_KEYS = [''pkt_recv'', ''rssi_min'', ''rssi_avg'', ''rssi_max'', ''snr_min'', ''snr_avg'', ''snr_max'',
     ''evm_min'', ''evm_avg'', ''evm_max'']"

definition TX_ANT_KEYS :: "string list" where "TX_ANT_KEYS = [''ant'']"

definition TX_ANT_VALUE_KEYS :: "string list" where
  "TX_ANT_VALUE_KEYS = [''pkt_sent'', ''pkt_drop'', ''lat_min'', ''lat_avg'', ''lat_max'']"

definition flatten_rx_ant_stats :: "ant_stats \<Rightarrow> json list" where
  "flatten_rx_ant_stats ant =
     map (\<lambda>(((freq, mcs, bw), ant_id), values).
       JObj (zip (RX_ANT_KEYS @ RX_ANT_VALUE_KEYS) (map JInt ([ant_id, freq, mcs, bw] @ values)))) ant"

definition flatten_tx_ant_stats :: "(int \<times> int list) list \<Rightarrow> json list" where
  "flatten_tx_ant_stats lat =
     map (\<lambda>(ant_id, values). JObj (zip (TX_ANT_KEYS @ TX_ANT_VALUE_KEYS) (map JInt (ant_id # values)))) lat"

text \<open>Counter pairs and the session dictionary as JSON.\<close>

definition packets_json :: "packets \<Rightarrow> json" where
  "packets_json ps = JObj (map (\<lambda>(k, w, c). (k, JList [JInt w, JInt c])) ps)"

definition session_dict :: "raw_session \<Rightarrow> dict" where
  "session_dict s = [(''fec_type'', JStr (rs_fec_type s)), (''fec_k'', JInt (rs_fec_k s)), (''fec_n'', JInt (rs_fec_n s)),
     (''epoch'', JInt (rs_epoch s)), (''contract_version'', JInt (rs_contract_version s))]"

definition raw_record :: "real \<Rightarrow> string \<Rightarrow> raw_payload \<Rightarrow> json" where
  "raw_record ts child_id payload = (case payload of
     RawRx ps ant session tx_wlan \<Rightarrow> JObj
       [(''type'', JStr ''rx''), (''timestamp'', JFloat ts), (''id'', JStr child_id), (''tx_wlan'', wlan_json tx_wlan),
        (''packets'', packets_json ps), (''rx_ant_stats'', JList (flatten_rx_ant_stats ant)),
        (''session'', case session of None \<Rightarrow> JNull | Some s \<Rightarrow> JObj (session_dict s))]
   | RawTx ps lat \<Rightarrow> JObj
       [(''type'', JStr ''tx''), (''timestamp'', JFloat ts), (''id'', JStr child_id), (''packets'', packets_json ps),
        (''tx_ant_stats'', JList (flatten_tx_ant_stats lat)), (''rf_temperature'', JObj [])]
   | RawSession s \<Rightarrow> JObj
       ([(''type'', JStr ''new_session''), (''timestamp'', JFloat ts), (''id'', JStr child_id)] @ session_dict s))"

subsection \<open>The server\<close>

record stats_server =
  listening :: bool
  writers :: "nat list"
  max_write_buffer :: nat

definition DEFAULT_MAX_WRITE_BUFFER :: nat where "DEFAULT_MAX_WRITE_BUFFER = 256 * 1024"

definition new_stats_server :: stats_server where
  "new_stats_server = \<lparr> listening = False, writers = [], max_write_buffer = DEFAULT_MAX_WRITE_BUFFER \<rparr>"

datatype srv_effect = WriteLine nat json | CloseClient nat | AbortClient nat

text \<open>The environment of a write: the bytes a client's transport has buffered and whether the
  connection still takes writes.\<close>

definition send_line :: "(nat \<Rightarrow> nat) \<Rightarrow> (nat \<Rightarrow> bool) \<Rightarrow> nat \<Rightarrow> json \<Rightarrow> stats_server \<Rightarrow> stats_server \<times> srv_effect list" where
  "send_line buffered ok w line s =
     (if buffered w > max_write_buffer s then (s\<lparr> writers := removeAll w (writers s) \<rparr>, [CloseClient w])
      else if ok w then (s, [WriteLine w line])
      else (s\<lparr> writers := removeAll w (writers s) \<rparr>, []))"

fun send_all :: "(nat \<Rightarrow> nat) \<Rightarrow> (nat \<Rightarrow> bool) \<Rightarrow> json \<Rightarrow> nat list \<Rightarrow> stats_server \<Rightarrow> stats_server \<times> srv_effect list" where
  "send_all buffered ok line [] s = (s, [])"
| "send_all buffered ok line (w # ws) s =
     (let (s1, o1) = send_line buffered ok w line s; (s2, o2) = send_all buffered ok line ws s1 in (s2, o1 @ o2))"

definition broadcast_record :: "(nat \<Rightarrow> nat) \<Rightarrow> (nat \<Rightarrow> bool) \<Rightarrow> json \<Rightarrow> stats_server \<Rightarrow> stats_server \<times> srv_effect list" where
  "broadcast_record buffered ok record s = send_all buffered ok record (writers s) s"

definition on_raw :: "(nat \<Rightarrow> nat) \<Rightarrow> (nat \<Rightarrow> bool) \<Rightarrow> real \<Rightarrow> string \<Rightarrow> raw_payload \<Rightarrow> stats_server \<Rightarrow> stats_server \<times> srv_effect list" where
  "on_raw buffered ok ts child_id payload s = broadcast_record buffered ok (raw_record ts child_id payload) s"

definition settings_record :: "json \<Rightarrow> json" where
  "settings_record settings = JObj [(''type'', JStr ''settings''), (''profile'', JStr ''gs''), (''is_cluster'', JBool False),
     (''wlans'', JList []), (''settings'', settings)]"

text \<open>\<open>_handle_client\<close>: a client connects and gets the settings; at the end of its stream it
  is forgotten and closed.\<close>

definition client_connected :: "(nat \<Rightarrow> nat) \<Rightarrow> (nat \<Rightarrow> bool) \<Rightarrow> json \<Rightarrow> nat \<Rightarrow> stats_server \<Rightarrow> stats_server \<times> srv_effect list" where
  "client_connected buffered ok settings w s =
     send_line buffered ok w (settings_record settings) (s\<lparr> writers := List.insert w (writers s) \<rparr>)"

definition client_gone :: "nat \<Rightarrow> stats_server \<Rightarrow> stats_server \<times> srv_effect list" where
  "client_gone w s = (s\<lparr> writers := removeAll w (writers s) \<rparr>, [CloseClient w])"

definition server_start :: "nat \<Rightarrow> stats_server \<Rightarrow> hub \<Rightarrow> stats_server \<times> hub" where
  "server_start me s h = (s\<lparr> listening := True \<rparr>, add_raw_listener me h)"

definition server_stop :: "nat \<Rightarrow> stats_server \<Rightarrow> hub \<Rightarrow> (stats_server \<times> hub) \<times> srv_effect list" where
  "server_stop me s h = ((s\<lparr> listening := False, writers := [] \<rparr>, remove_raw_listener me h), map AbortClient (writers s))"

subsection \<open>The hub's view of a raw payload\<close>

definition event_of_raw :: "real \<Rightarrow> string \<Rightarrow> raw_payload \<Rightarrow> event" where
  "event_of_raw ts child_id payload = (case payload of
     RawRx ps ant session tx_wlan \<Rightarrow> RxEvent (to_rx_event ts child_id ps ant session tx_wlan)
   | RawTx ps lat \<Rightarrow> TxEvent \<lparr> t_timestamp = ts, t_id = child_id, t_packets = window_of ps \<rparr>
   | RawSession s \<Rightarrow> SessionEvent \<lparr> n_timestamp = ts, n_id = child_id, n_session = to_session_info s \<rparr>)"

text \<open>What the parsers guarantee of a payload: ten values per antenna; and a contract version the
  client supports.\<close>

definition payload_ok :: "raw_payload \<Rightarrow> bool" where
  "payload_ok payload = (case payload of
     RawRx ps ant session tx_wlan \<Rightarrow> list_all (\<lambda>(_, v). length v = 10) ant \<and>
       (case session of None \<Rightarrow> True | Some s \<Rightarrow> rs_contract_version s \<in> set CONTRACT_VERSIONS_SUPPORTED)
   | RawTx _ _ \<Rightarrow> True
   | RawSession s \<Rightarrow> rs_contract_version s \<in> set CONTRACT_VERSIONS_SUPPORTED)"

section \<open>The wire contract\<close>

lemma length_10: "length v = 10 \<Longrightarrow> v = [v ! 0, v ! 1, v ! 2, v ! 3, v ! 4, v ! 5, v ! 6, v ! 7, v ! 8, v ! 9]"
  by (rule nth_equalityI) (auto simp: nth_Cons' less_Suc_eq eval_nat_numeral)

lemma parse_flat_ant:
  assumes "length v = 10"
  shows "parse_rx_ant (JObj (zip (RX_ANT_KEYS @ RX_ANT_VALUE_KEYS) (JInt i # JInt f # JInt m # JInt b # map JInt v))) =
    Inr (to_rx_ant (((f, m, b), i), v))"
proof -
  obtain v0 v1 v2 v3 v4 v5 v6 v7 v8 v9 where v: "v = [v0, v1, v2, v3, v4, v5, v6, v7, v8, v9]"
    using length_10 [OF assms] by blast
  let ?d = "zip (RX_ANT_KEYS @ RX_ANT_VALUE_KEYS) (JInt i # JInt f # JInt m # JInt b # map JInt v)"
  have f: "int_field (JObj ?d) k = (case map_of ?d k of Some j \<Rightarrow> to_int j | None \<Rightarrow> Inl KeyError)" for k
    by (simp add: int_field_def jsub_def split: option.split)
  have g: "int_field_or (JObj ?d) k x = (case map_of ?d k of Some j \<Rightarrow> to_int j | None \<Rightarrow> Inr x)" for k x
    by (simp add: int_field_or_def jget_def dget_def to_int_def split: option.split)
  show ?thesis
    unfolding parse_rx_ant_def f g by (simp add: v RX_ANT_KEYS_def RX_ANT_VALUE_KEYS_def to_int_def to_rx_ant_def)
qed

lemma parse_flat_ants:
  assumes "list_all (\<lambda>(_, v). length v = 10) ant"
  shows "res_map parse_rx_ant (flatten_rx_ant_stats ant) = Inr (map to_rx_ant ant)"
  unfolding flatten_rx_ant_stats_def
  by (rule res_map_map) (use assms in \<open>auto simp: list_all_iff parse_flat_ant\<close>)

lemma parse_packets_json: "parse_packets (packets_json ps) = Inr (window_of ps)"
proof -
  have "res_map parse_packet (map (\<lambda>(k, w, c). (k, JList [JInt w, JInt c])) ps) = Inr (map (\<lambda>(k, w, _). (k, w)) ps)"
    by (rule res_map_map) (auto simp: parse_packet_def to_int_def)
  then show ?thesis by (simp add: parse_packets_def packets_json_def window_of_def)
qed

lemma session_dict_nonempty [simp]: "session_dict s \<noteq> []"
  by (simp add: session_dict_def)

lemma checked_session_dict:
  assumes "rs_contract_version s \<in> set CONTRACT_VERSIONS_SUPPORTED"
    and "\<forall>k. k \<in> {''fec_type'', ''fec_k'', ''fec_n'', ''epoch'', ''contract_version'', ''interleave_depth''} \<longrightarrow> map_of pre k = None"
  shows "checked_session py (JObj (pre @ session_dict s)) = Inr (to_session_info s)"
proof -
  have m: "map_of (pre @ session_dict s) k = map_of (session_dict s) k"
    if "k \<in> {''fec_type'', ''fec_k'', ''fec_n'', ''epoch'', ''contract_version'', ''interleave_depth''}" for k
    using assms(2) [rule_format, OF that] by (simp add: map_add_def)
  have "parse_session py (JObj (pre @ session_dict s)) = Inr (to_session_info s)"
    unfolding parse_session_def int_field_def int_field_or_def jget_def jsub_def dget_def
    by (simp add: m del: map_of_append) (simp add: session_dict_def to_int_def to_str_def to_session_info_def)
  then show ?thesis using assms(1) by (simp add: checked_session_def to_session_info_def)
qed

section \<open>Properties\<close>



text \<open>The hub pushes to its subscribers the event of the payload it hands to its listeners.\<close>

lemma hub_pushes_raw:
  "update_rx_stats alive ts c ps ant session h = (h1, effs) \<Longrightarrow>
     \<exists>h0. h1 = push_all alive (event_of_raw ts c (RawRx ps ant session (current (h_txsel h)))) h0 \<and>
       effs = map (\<lambda>l. Raw l c (RawRx ps ant session (current (h_txsel h)))) (raw_listeners h)"
  "update_tx_stats alive ts c ps lat h = (h1, effs) \<Longrightarrow>
     \<exists>h0. h1 = push_all alive (event_of_raw ts c (RawTx ps lat)) h0 \<and> effs = map (\<lambda>l. Raw l c (RawTx ps lat)) (raw_listeners h)"
  "process_new_session alive ts c s h = (h1, effs) \<Longrightarrow>
     \<exists>h0. h1 = push_all alive (event_of_raw ts c (RawSession s)) h0 \<and> effs = map (\<lambda>l. Raw l c (RawSession s)) (raw_listeners h)"
  by (auto simp: update_rx_stats_def update_tx_stats_def process_new_session_def event_of_raw_def Let_def)

text \<open>A slow client is dropped and the others still get the line.\<close>

lemma send_all_writes:
  "set (snd (send_all buffered ok line ws s)) =
     (\<lambda>w. WriteLine w line) ` {w \<in> set ws. buffered w \<le> max_write_buffer s \<and> ok w} \<union>
     CloseClient ` {w \<in> set ws. buffered w > max_write_buffer s}"
  "max_write_buffer (fst (send_all buffered ok line ws s)) = max_write_buffer s"
proof (induction ws arbitrary: s)
  case (Cons w ws)
  {
    case 1
    show ?case
      using Cons [of "fst (send_line buffered ok w line s)"]
      by (auto simp: send_line_def Let_def case_prod_beta)
  next
    case 2
    show ?case
      using Cons [of "fst (send_line buffered ok w line s)"]
      by (auto simp: send_line_def Let_def case_prod_beta)
  }
qed simp_all

end
