(* ===== verification/Supervise.thy ===== *)
theory Supervise
  imports Lineproto Py_Json
begin

text \<open>
  \<open>src/gs/fpvdgs/runner_supervisor.py\<close> (\<open>ProcessSupervisor\<close>) and
  \<open>src/gs/fpvdgs/wfb/children.py\<close> (\<open>WfbChild\<close>): the two process supervisors. Both restart a
  child that exits, charge every restart to a sliding window, and give up (\<open>fault\<close>) when the
  window is full. How a spawn ends is the environment's answer; the waiting loops read a list of
  such answers.

  The interface \<open>crash_loop\<close> is what the rest of the system relies on: never more than
  \<open>max_restarts\<close> automatic restarts within \<open>restart_window\<close> seconds, whatever crashes when. Both
  supervisors interpret it. For \<open>WfbChild\<close> the invariant its comment states is proved: a dead
  watch means a fault or an operator's stop. \<open>ProcessSupervisor\<close> has no such invariant; the last
  lemma shows the state it can be left in.
\<close>

section \<open>The restart budget\<close>

text \<open>The times a run restarts the child at, one list for each period between two operator starts.\<close>

fun epochs :: "('s \<Rightarrow> 'e \<Rightarrow> 's) \<Rightarrow> ('s \<Rightarrow> 'e \<Rightarrow> real option) \<Rightarrow> ('s \<Rightarrow> 'e \<Rightarrow> bool) \<Rightarrow> 's \<Rightarrow> 'e list \<Rightarrow> real list list" where
  "epochs step restarted resets s [] = [[]]"
| "epochs step restarted resets s (e # es) =
     (let rest = epochs step restarted resets (step s e) es
      in if resets s e then [] # rest
         else case restarted s e of None \<Rightarrow> rest | Some t \<Rightarrow> (t # hd rest) # tl rest)"

lemma epochs_not_Nil [simp]: "epochs step restarted resets s es \<noteq> []"
  by (induction es arbitrary: s) (simp_all add: Let_def split: option.split)

lemma sorted_parts: "sorted (concat tss) \<Longrightarrow> ts \<in> set tss \<Longrightarrow> sorted ts"
  by (induction tss) (auto simp: sorted_append)

text \<open>Any two times \<open>l\<close> places apart are at least \<open>w\<close> apart: no window of \<open>w\<close> seconds holds
  more than \<open>l\<close> of them.\<close>

definition spaced :: "nat \<Rightarrow> real \<Rightarrow> real list \<Rightarrow> bool" where
  "spaced l w ts = (\<forall>i. i + l < length ts \<longrightarrow> w \<le> ts ! (i + l) - ts ! i)"

lemma spaced_snoc:
  assumes "spaced l w ts" "sorted (ts @ [now])" "length (filter (\<lambda>t. now - t < w) ts) < l"
  shows "spaced l w (ts @ [now])"
  unfolding spaced_def
proof (intro allI impI)
  fix i assume i: "i + l < length (ts @ [now])"
  show "w \<le> (ts @ [now]) ! (i + l) - (ts @ [now]) ! i"
  proof (cases "i + l < length ts")
    case True
    then show ?thesis using assms(1) by (simp add: spaced_def nth_append)
  next
    case False
    then have il: "i + l = length ts" using i by simp
    have "0 < l" using assms(3) by simp
    then have it: "i < length ts" using il by linarith
    show ?thesis
    proof (rule ccontr)
      assume "\<not> ?thesis"
      then have near: "now - ts ! i < w" using il it by (simp add: nth_append)
      have "now - t < w" if t: "t \<in> set (drop i ts)" for t
      proof -
        obtain k where k: "k < length (drop i ts)" "drop i ts ! k = t" using t unfolding in_set_conv_nth by blast
        then have "t = ts ! (i + k)" "i + k < length ts" using it by auto
        then have "ts ! i \<le> t" using assms(2) by (simp add: sorted_append sorted_nth_mono)
        then show ?thesis using near by linarith
      qed
      then have "filter (\<lambda>t. now - t < w) (drop i ts) = drop i ts" by (simp add: filter_id_conv)
      then have "l \<le> length (filter (\<lambda>t. now - t < w) (drop i ts))" using il by simp
      also have "\<dots> \<le> length (filter (\<lambda>t. now - t < w) ts)"
        by (metis append_take_drop_id filter_append le_add2 length_append)
      finally show False using assms(3) by simp
    qed
  qed
qed

locale crash_loop =
  fixes step :: "'s \<Rightarrow> 'e \<Rightarrow> 's"
    and recent :: "'s \<Rightarrow> real list"
    and restarted :: "'s \<Rightarrow> 'e \<Rightarrow> real option"
    and resets :: "'s \<Rightarrow> 'e \<Rightarrow> bool"
    and dead :: "'s \<Rightarrow> bool"
    and limit :: "'s \<Rightarrow> nat"
    and window :: "'s \<Rightarrow> real"
  assumes settings: "limit (step s e) = limit s \<and> window (step s e) = window s"
    and on_reset: "resets s e \<Longrightarrow> recent (step s e) = []"
    and on_restart: "restarted s e = Some now \<Longrightarrow> \<not> resets s e \<Longrightarrow>
      recent (step s e) = filter (\<lambda>t. now - t < window s) (recent s) @ [now] \<and> length (recent (step s e)) \<le> limit s"
    and otherwise: "restarted s e = None \<Longrightarrow> \<not> resets s e \<Longrightarrow> recent (step s e) = recent s \<or> dead (step s e)"
    and stays_dead: "dead s \<Longrightarrow> \<not> resets s e \<Longrightarrow> dead (step s e) \<and> restarted s e = None"
begin

text \<open>\<open>hist\<close> is what the current period has restarted at so far.\<close>

lemma epochs_spaced:
  assumes "0 < w"
  shows "limit s = l \<Longrightarrow> window s = w \<Longrightarrow> spaced l w hist \<Longrightarrow>
    \<forall>ts \<in> set ((hist @ hd (epochs step restarted resets s es)) # tl (epochs step restarted resets s es)). sorted ts \<Longrightarrow>
    dead s \<or> recent s = filter (\<lambda>t. hist \<noteq> [] \<and> last hist - t < w) hist \<Longrightarrow>
    \<forall>ts \<in> set ((hist @ hd (epochs step restarted resets s es)) # tl (epochs step restarted resets s es)). spaced l w ts"
proof (induction es arbitrary: s hist)
  case (Cons e es)
  let ?E = "epochs step restarted resets (step s e) es"
  note set = settings [of s e] Cons.prems(1,2)
  show ?case
  proof (cases "resets s e")
    case True
    have E: "set (([] @ hd ?E) # tl ?E) = set ?E" by (cases ?E) (use epochs_not_Nil in auto)
    have "\<forall>ts \<in> set (([] @ hd ?E) # tl ?E). spaced l w ts"
      by (rule Cons.IH) (use set Cons.prems(4) True on_reset [OF True] in \<open>simp_all add: E spaced_def\<close>)
    then show ?thesis using True Cons.prems(3) unfolding E by simp
  next
    case no: False
    show ?thesis
    proof (cases "restarted s e")
      case None
      have "dead (step s e) \<or> recent (step s e) = filter (\<lambda>t. hist \<noteq> [] \<and> last hist - t < w) hist"
        using otherwise [OF None no] stays_dead [OF _ no] Cons.prems(5) by metis
      then have "\<forall>ts \<in> set ((hist @ hd ?E) # tl ?E). spaced l w ts"
        by (intro Cons.IH) (use set Cons.prems(3,4) no None in \<open>simp_all add: Let_def\<close>)
      then show ?thesis using no None by (simp add: Let_def)
    next
      case (Some now)
      have E: "epochs step restarted resets s (e # es) = (now # hd ?E) # tl ?E" using no Some by (simp add: Let_def)
      have s: "sorted (hist @ [now])" using Cons.prems(4) unfolding E by (auto simp: sorted_append)
      then have ln: "hist \<noteq> [] \<Longrightarrow> last hist \<le> now" by (simp add: sorted_append)
      have rc: "recent s = filter (\<lambda>t. hist \<noteq> [] \<and> last hist - t < w) hist" using Cons.prems(5) stays_dead [OF _ no] Some by auto
      have r: "recent (step s e) = filter (\<lambda>t. now - t < w) (recent s) @ [now]" "length (recent (step s e)) \<le> l"
        using on_restart [OF Some no] Cons.prems(1,2) by auto
      have "filter (\<lambda>t. now - t < w) (recent s) = filter (\<lambda>t. now - t < w) hist"
        unfolding rc filter_filter
      proof (rule filter_cong [OF refl])
        fix x assume "x \<in> set hist"
        then have "hist \<noteq> []" by auto
        moreover from this have "last hist \<le> now" by (rule ln)
        ultimately show "((hist \<noteq> [] \<and> last hist - x < w) \<and> now - x < w) = (now - x < w)" by auto
      qed
      then have r': "recent (step s e) = filter (\<lambda>t. now - t < w) hist @ [now]" using r(1) by simp
      have sp: "spaced l w (hist @ [now])" using spaced_snoc [OF Cons.prems(3) s] r(2) r' by simp
      have "recent (step s e) = filter (\<lambda>t. hist @ [now] \<noteq> [] \<and> last (hist @ [now]) - t < w) (hist @ [now])"
        using r' assms by simp
      then have "\<forall>ts \<in> set (((hist @ [now]) @ hd ?E) # tl ?E). spaced l w ts"
        by (intro Cons.IH [OF _ _ sp]) (use set Cons.prems(4) E in simp_all)
      then show ?thesis unfolding E by simp
    qed
  qed
qed simp

lemma restart_budget:
  assumes "0 < window s" "recent s = []" "sorted (concat (epochs step restarted resets s es))"
    and "ts \<in> set (epochs step restarted resets s es)"
  shows "spaced (limit s) (window s) ts"
proof -
  let ?E = "epochs step restarted resets s es"
  have E: "set (([] @ hd ?E) # tl ?E) = set ?E" by (cases ?E) (use epochs_not_Nil in auto)
  have "\<forall>ts \<in> set (([] @ hd ?E) # tl ?E). spaced (limit s) (window s) ts"
    by (rule epochs_spaced [OF assms(1) refl refl])
      (use assms(2) sorted_parts [OF assms(3)] in \<open>simp_all only: E, simp_all add: spaced_def\<close>)
  then show ?thesis unfolding E using assms(4) by blast
qed

end

section \<open>Definitions: ProcessSupervisor\<close>

record proc_sup =
  ps_argv :: "string list"
  ps_env :: "(string \<times> string) list"
  ready_on_timeout :: bool
  max_restarts :: nat
  restart_window :: real
  ps_proc :: "nat option" \<comment> \<open>the pid of the child object\<close>
  ps_restarts :: nat
  auto_restarts :: nat
  last_exit :: "int option"
  ps_fault :: bool
  ps_recent :: "real list"
  supervise :: bool
  watcher :: bool

definition new_proc_sup :: "string list \<Rightarrow> (string \<times> string) list \<Rightarrow> bool \<Rightarrow> proc_sup" where
  "new_proc_sup argv env rot = \<lparr> ps_argv = argv, ps_env = env, ready_on_timeout = rot, max_restarts = 5, restart_window = 60,
     ps_proc = None, ps_restarts = 0, auto_restarts = 0, last_exit = None, ps_fault = False, ps_recent = [],
     supervise = False, watcher = False \<rparr>"

definition set_argv :: "string list \<Rightarrow> proc_sup \<Rightarrow> proc_sup" where "set_argv a p = p\<lparr> ps_argv := a \<rparr>"
definition set_env :: "(string \<times> string) list \<Rightarrow> proc_sup \<Rightarrow> proc_sup" where "set_env e p = p\<lparr> ps_env := e \<rparr>"

text \<open>\<open>Popen\<close> raises \<open>OSError\<close> (with an errno or without) or returns a child.\<close>

datatype popen = PopenError "int option" | Popened nat

text \<open>One turn of the readiness loop before its deadline: what \<open>poll()\<close> and the readiness
  check return.\<close>

datatype ready_poll = Exited int | Alive bool

fun wait_ready :: "ready_poll list \<Rightarrow> proc_sup \<Rightarrow> proc_sup \<times> bool" where
  "wait_ready [] p = (p, ready_on_timeout p)"
| "wait_ready (Exited rc # polls) p = (p\<lparr> last_exit := Some rc \<rparr>, False)"
| "wait_ready (Alive ready # polls) p = (if ready then (p, True) else wait_ready polls p)"

definition spawn_and_wait :: "popen \<Rightarrow> ready_poll list \<Rightarrow> proc_sup \<Rightarrow> proc_sup \<times> bool" where
  "spawn_and_wait r polls p = (case r of
     PopenError errno \<Rightarrow> (p\<lparr> ps_proc := None, last_exit := Some (case errno of None \<Rightarrow> - 1 | Some n \<Rightarrow> n) \<rparr>, False)
   | Popened pid \<Rightarrow> wait_ready polls (p\<lparr> ps_proc := Some pid \<rparr>))"

text \<open>\<open>_kill_locked\<close>: whatever signals it takes, the child is reaped with some exit code.\<close>

definition kill_locked :: "int \<Rightarrow> proc_sup \<Rightarrow> proc_sup" where
  "kill_locked rc p = (case ps_proc p of None \<Rightarrow> p | Some _ \<Rightarrow> p\<lparr> last_exit := Some rc, ps_proc := None \<rparr>)"

text \<open>The charge to the sliding window that both supervisors make.\<close>

definition charge :: "real \<Rightarrow> real \<Rightarrow> real list \<Rightarrow> real list" where
  "charge w now rec = filter (\<lambda>t. now - t < w) rec @ [now]"

definition on_crash_locked :: "int \<Rightarrow> real \<Rightarrow> popen \<Rightarrow> ready_poll list \<Rightarrow> proc_sup \<Rightarrow> proc_sup" where
  "on_crash_locked rc now r polls p =
     (let p1 = p\<lparr> last_exit := Some rc, ps_proc := None, ps_recent := charge (restart_window p) now (ps_recent p) \<rparr>
      in if length (ps_recent p1) > max_restarts p1 then p1\<lparr> ps_fault := True, supervise := False \<rparr>
         else fst (spawn_and_wait r polls (p1\<lparr> auto_restarts := Suc (auto_restarts p1) \<rparr>)))"

text \<open>One turn of \<open>_watch_loop\<close>: \<open>poll\<close> is the exit code of the child, if it has one.\<close>

definition watch_turn :: "int option \<Rightarrow> real \<Rightarrow> popen \<Rightarrow> ready_poll list \<Rightarrow> proc_sup \<Rightarrow> proc_sup" where
  "watch_turn poll now r polls p =
     (if \<not> supervise p \<or> ps_proc p = None then p
      else case poll of None \<Rightarrow> p | Some rc \<Rightarrow> on_crash_locked rc now r polls p)"

definition sup_start :: "popen \<Rightarrow> ready_poll list \<Rightarrow> proc_sup \<Rightarrow> proc_sup \<times> bool" where
  "sup_start r polls p =
     (let (p1, ok) = spawn_and_wait r polls (p\<lparr> ps_fault := False, ps_recent := [] \<rparr>)
      in (p1\<lparr> supervise := True, watcher := True \<rparr>, ok))"

definition sup_stop :: "int \<Rightarrow> proc_sup \<Rightarrow> proc_sup" where
  "sup_stop rc p = kill_locked rc (p\<lparr> supervise := False \<rparr>)"

definition sup_restart :: "int \<Rightarrow> popen \<Rightarrow> ready_poll list \<Rightarrow> proc_sup \<Rightarrow> proc_sup \<times> bool" where
  "sup_restart rc r polls p =
     (let p1 = sup_stop rc p in sup_start r polls (p1\<lparr> ps_restarts := Suc (ps_restarts p1) \<rparr>))"

definition sup_shutdown :: "int \<Rightarrow> proc_sup \<Rightarrow> proc_sup" where
  "sup_shutdown rc p = (sup_stop rc p)\<lparr> watcher := False \<rparr>"

datatype ps_event =
    Turn "int option" real popen "ready_poll list"
  | Start popen "ready_poll list"
  | Stop int
  | Restart int popen "ready_poll list"
  | Shutdown int

fun ps_step :: "proc_sup \<Rightarrow> ps_event \<Rightarrow> proc_sup" where
  "ps_step p (Turn poll now r polls) = watch_turn poll now r polls p"
| "ps_step p (Start r polls) = fst (sup_start r polls p)"
| "ps_step p (Stop rc) = sup_stop rc p"
| "ps_step p (Restart rc r polls) = fst (sup_restart rc r polls p)"
| "ps_step p (Shutdown rc) = sup_shutdown rc p"

text \<open>The turn restarts the child.\<close>

fun ps_restarted :: "proc_sup \<Rightarrow> ps_event \<Rightarrow> real option" where
  "ps_restarted p (Turn poll now r polls) =
     (if supervise p \<and> ps_proc p \<noteq> None \<and> poll \<noteq> None \<and> length (charge (restart_window p) now (ps_recent p)) \<le> max_restarts p
      then Some now else None)"
| "ps_restarted p _ = None"

text \<open>\<open>start()\<close>, also as part of \<open>restart()\<close>, clears the window.\<close>

fun ps_resets :: "proc_sup \<Rightarrow> ps_event \<Rightarrow> bool" where
  "ps_resets p (Start r polls) = True"
| "ps_resets p (Restart rc r polls) = True"
| "ps_resets p _ = False"

text \<open>\<open>state()\<close>, given what \<open>poll()\<close> returns.\<close>

definition sup_state :: "int option \<Rightarrow> proc_sup \<Rightarrow> json" where
  "sup_state poll p =
     (let running = (ps_proc p \<noteq> None \<and> poll = None)
      in JObj [(''running'', JBool running),
               (''pid'', if running then JInt (int (the (ps_proc p))) else JNull),
               (''restarts'', JInt (int (ps_restarts p))),
               (''autoRestarts'', JInt (int (auto_restarts p))),
               (''lastExit'', case last_exit p of None \<Rightarrow> JNull | Some rc \<Rightarrow> JInt rc),
               (''fault'', JBool (ps_fault p))])"

section \<open>Definitions: WfbChild\<close>

datatype parser_kind = RxParser | TxParser | ProbeParser
datatype child_parser = CRx rx_parser | CTx tx_parser | CSink
datatype watch_task = NoTask | Waiting | Retrying | Ended

record child =
  c_name :: string
  c_is_tx :: bool
  c_parser_kind :: "parser_kind option"
  c_max_restarts :: nat
  c_restart_window :: real
  c_proc :: "nat option"
  c_parser :: "child_parser option"
  c_watch :: watch_task
  c_auto_restarts :: nat
  c_last_exit :: "int option"
  c_fault :: bool
  c_recent :: "real list"
  c_supervise :: bool

definition new_child :: "string \<Rightarrow> bool \<Rightarrow> parser_kind option \<Rightarrow> child" where
  "new_child nm tx pk = \<lparr> c_name = nm, c_is_tx = tx, c_parser_kind = pk, c_max_restarts = 5, c_restart_window = 60,
     c_proc = None, c_parser = None, c_watch = NoTask, c_auto_restarts = 0, c_last_exit = None, c_fault = False,
     c_recent = [], c_supervise = False \<rparr>"

definition make_parser :: "parser_kind \<Rightarrow> child \<Rightarrow> child_parser" where
  "make_parser k c = (case k of
     ProbeParser \<Rightarrow> CSink
   | TxParser \<Rightarrow> CTx (new_tx_parser (c_name c))
   | RxParser \<Rightarrow> CRx (new_rx_parser (c_name c)))"

text \<open>What happens while a spawned child gets ready: it is alive (for a transmitter: it completed
  the handshake), it exited by itself, or the handshake timed out and the child was killed.\<close>

datatype settle = Ready | Died int | TimedOut int

definition check_rx_ready :: "settle \<Rightarrow> child \<Rightarrow> child \<times> bool" where
  "check_rx_ready o1 c = (case o1 of Died rc \<Rightarrow> (c\<lparr> c_last_exit := Some rc \<rparr>, False) | _ \<Rightarrow> (c, True))"

definition wait_tx_ready :: "settle \<Rightarrow> child \<Rightarrow> child \<times> bool" where
  "wait_tx_ready o1 c = (case o1 of
     Ready \<Rightarrow> (c, True)
   | Died rc \<Rightarrow> (c\<lparr> c_last_exit := Some rc \<rparr>, False)
   | TimedOut rc \<Rightarrow> (c\<lparr> c_last_exit := Some rc, c_proc := None \<rparr>, False))"

definition child_spawn :: "popen \<Rightarrow> settle \<Rightarrow> child \<Rightarrow> child \<times> bool" where
  "child_spawn r o1 c =
     (let c1 = c\<lparr> c_parser := map_option (\<lambda>k. make_parser k c) (c_parser_kind c) \<rparr>
      in case r of
        PopenError errno \<Rightarrow> (c1\<lparr> c_proc := None, c_last_exit := Some (case errno of None \<Rightarrow> - 1 | Some n \<Rightarrow> n) \<rparr>, False)
      | Popened pid \<Rightarrow>
          let c2 = c1\<lparr> c_proc := Some pid \<rparr>
          in if c_parser c2 = None then check_rx_ready o1 c2
             else if c_is_tx c2 then wait_tx_ready o1 c2
             else check_rx_ready o1 c2)"

definition child_start :: "popen \<Rightarrow> settle \<Rightarrow> child \<Rightarrow> child \<times> bool" where
  "child_start r o1 c =
     (let (c1, ok) = child_spawn r o1 (c\<lparr> c_fault := False, c_recent := [] \<rparr>)
      in (if c_proc c1 \<noteq> None then c1\<lparr> c_supervise := True, c_watch := Waiting \<rparr> else c1, ok))"

definition child_stop :: "int \<Rightarrow> child \<Rightarrow> child" where
  "child_stop rc c =
     (let c1 = c\<lparr> c_supervise := False, c_watch := NoTask \<rparr>
      in case c_proc c1 of None \<Rightarrow> c1 | Some _ \<Rightarrow> c1\<lparr> c_last_exit := Some rc, c_proc := None \<rparr>)"

text \<open>\<open>_watch\<close>: the child exits while the task waits for it \<dots>\<close>

definition child_exited :: "int \<Rightarrow> child \<Rightarrow> child" where
  "child_exited rc c =
     (if c_watch c = Waiting
      then if c_proc c = None then c\<lparr> c_watch := Ended \<rparr>
           else if \<not> c_supervise c then c\<lparr> c_watch := Ended \<rparr>
           else c\<lparr> c_last_exit := Some rc, c_watch := Retrying \<rparr>
      else c)"

text \<open>\<dots> and one turn of its respawn loop; the fault callback runs when the result says so.\<close>

definition child_retry :: "real \<Rightarrow> popen \<Rightarrow> settle \<Rightarrow> child \<Rightarrow> child \<times> bool" where
  "child_retry now r o1 c =
     (if c_watch c \<noteq> Retrying then (c, False)
      else let c1 = c\<lparr> c_recent := charge (c_restart_window c) now (c_recent c) \<rparr>
           in if length (c_recent c1) > c_max_restarts c1
              then (c1\<lparr> c_fault := True, c_supervise := False, c_proc := None, c_watch := Ended \<rparr>, True)
              else let c2 = c1\<lparr> c_auto_restarts := Suc (c_auto_restarts c1) \<rparr>
                   in if \<not> c_supervise c2 then (c2\<lparr> c_watch := Ended \<rparr>, False)
                      else let c3 = fst (child_spawn r o1 c2)
                           in (if c_proc c3 \<noteq> None then c3\<lparr> c_watch := Waiting \<rparr> else c3, False))"

definition child_state :: "int option \<Rightarrow> child \<Rightarrow> json" where
  "child_state returncode c =
     (let running = (c_proc c \<noteq> None \<and> returncode = None)
      in JObj [(''running'', JBool running),
               (''pid'', if running then JInt (int (the (c_proc c))) else JNull),
               (''restarts'', JInt 0),
               (''autoRestarts'', JInt (int (c_auto_restarts c))),
               (''lastExit'', case c_last_exit c of None \<Rightarrow> JNull | Some rc \<Rightarrow> JInt rc),
               (''fault'', JBool (c_fault c))])"

text \<open>A child is started by the engine when it has no live watch task.\<close>

datatype child_event = ChildStart popen settle | ChildExits int | ChildRetry real popen settle | ChildStop int

definition unwatched :: "child \<Rightarrow> bool" where
  "unwatched c = (c_watch c \<in> {NoTask, Ended})"

fun child_step :: "child \<Rightarrow> child_event \<Rightarrow> child" where
  "child_step c (ChildStart r o1) = (if unwatched c then fst (child_start r o1 c) else c)"
| "child_step c (ChildExits rc) = child_exited rc c"
| "child_step c (ChildRetry now r o1) = fst (child_retry now r o1 c)"
| "child_step c (ChildStop rc) = child_stop rc c"

fun child_restarted :: "child \<Rightarrow> child_event \<Rightarrow> real option" where
  "child_restarted c (ChildRetry now r o1) =
     (if c_watch c = Retrying \<and> length (charge (c_restart_window c) now (c_recent c)) \<le> c_max_restarts c then Some now else None)"
| "child_restarted c _ = None"

fun child_resets :: "child \<Rightarrow> child_event \<Rightarrow> bool" where
  "child_resets c (ChildStart r o1) = unwatched c"
| "child_resets c _ = False"

text \<open>The invariant of the watch task: it has ended only with a fault, or was never armed or was
  cancelled by \<open>stop()\<close>; a task that waits has a child to wait for.\<close>

definition watch_inv :: "child \<Rightarrow> bool" where
  "watch_inv c = (case c_watch c of
     NoTask \<Rightarrow> \<not> c_supervise c \<and> c_proc c = None
   | Waiting \<Rightarrow> c_proc c \<noteq> None \<and> c_supervise c \<and> \<not> c_fault c
   | Retrying \<Rightarrow> c_supervise c \<and> \<not> c_fault c
   | Ended \<Rightarrow> c_fault c \<and> \<not> c_supervise c \<and> c_proc c = None)"

text \<open>An event of the child or its watch, not the operator's \<open>start()\<close> or \<open>stop()\<close>.\<close>

fun not_stop :: "child_event \<Rightarrow> bool" where
  "not_stop (ChildStop rc) = False"
| "not_stop (ChildStart r o1) = False"
| "not_stop _ = True"

fun is_child_start :: "child_event \<Rightarrow> bool" where
  "is_child_start (ChildStart r o1) = True"
| "is_child_start _ = False"

text \<open>A respawn that leaves no child: the program cannot be started, or a transmitter misses its
  handshake.\<close>

definition lost :: "child \<Rightarrow> popen \<Rightarrow> settle \<Rightarrow> bool" where
  "lost c r o1 = (case r of PopenError _ \<Rightarrow> True | Popened _ \<Rightarrow>
     c_is_tx c \<and> c_parser_kind c \<noteq> None \<and> (case o1 of TimedOut _ \<Rightarrow> True | _ \<Rightarrow> False))"

definition retries :: "(real \<times> popen \<times> settle) list \<Rightarrow> child_event list" where
  "retries as = map (\<lambda>(now, r, o1). ChildRetry now r o1) as"

section \<open>Lemmas: ProcessSupervisor\<close>

lemma wait_ready_keeps [simp]:
  "ps_proc (fst (wait_ready polls p)) = ps_proc p" "ps_recent (fst (wait_ready polls p)) = ps_recent p"
  "max_restarts (fst (wait_ready polls p)) = max_restarts p" "restart_window (fst (wait_ready polls p)) = restart_window p"
  "supervise (fst (wait_ready polls p)) = supervise p" "ps_fault (fst (wait_ready polls p)) = ps_fault p"
  "auto_restarts (fst (wait_ready polls p)) = auto_restarts p"
  by (induction polls p rule: wait_ready.induct) simp_all

lemma spawn_and_wait_keeps [simp]:
  "ps_recent (fst (spawn_and_wait r polls p)) = ps_recent p"
  "max_restarts (fst (spawn_and_wait r polls p)) = max_restarts p"
  "restart_window (fst (spawn_and_wait r polls p)) = restart_window p"
  "supervise (fst (spawn_and_wait r polls p)) = supervise p"
  "ps_fault (fst (spawn_and_wait r polls p)) = ps_fault p"
  by (simp_all add: spawn_and_wait_def split: popen.split)

lemma sup_start_recent: "ps_recent (fst (sup_start r polls p)) = []"
  by (simp add: sup_start_def Let_def split_beta)

lemma sup_start_settings [simp]:
  "max_restarts (fst (sup_start r polls p)) = max_restarts p" "restart_window (fst (sup_start r polls p)) = restart_window p"
  by (simp_all add: sup_start_def Let_def split_beta)

lemma sup_stop_keeps [simp]:
  "max_restarts (sup_stop rc p) = max_restarts p" "restart_window (sup_stop rc p) = restart_window p" "\<not> supervise (sup_stop rc p)"
  by (simp_all add: sup_stop_def kill_locked_def split: option.split)

interpretation ps: crash_loop ps_step ps_recent ps_restarted ps_resets "\<lambda>p. \<not> supervise p" max_restarts restart_window
proof unfold_locales
  fix s e
  show "max_restarts (ps_step s e) = max_restarts s \<and> restart_window (ps_step s e) = restart_window s"
    by (cases e) (auto simp: watch_turn_def on_crash_locked_def sup_restart_def sup_shutdown_def Let_def split: option.split)
next
  fix s e
  show "ps_resets s e \<Longrightarrow> ps_recent (ps_step s e) = []"
    by (cases e) (simp_all add: sup_restart_def sup_start_recent Let_def)
next
  fix s e now
  show "ps_restarted s e = Some now \<Longrightarrow>
      ps_recent (ps_step s e) = filter (\<lambda>t. now - t < restart_window s) (ps_recent s) @ [now]
      \<and> length (ps_recent (ps_step s e)) \<le> max_restarts s"
    by (cases e) (auto simp: watch_turn_def on_crash_locked_def charge_def Let_def split: if_splits option.splits)
next
  fix s e
  show "ps_restarted s e = None \<Longrightarrow> \<not> ps_resets s e \<Longrightarrow> ps_recent (ps_step s e) = ps_recent s \<or> \<not> supervise (ps_step s e)"
    by (cases e) (auto simp: watch_turn_def on_crash_locked_def sup_shutdown_def Let_def split: if_splits option.splits)
next
  fix s e
  show "\<not> supervise s \<Longrightarrow> \<not> ps_resets s e \<Longrightarrow> \<not> supervise (ps_step s e) \<and> ps_restarted s e = None"
    by (cases e) (auto simp: watch_turn_def sup_shutdown_def)
qed

text \<open>A respawn that fails to start leaves supervision on with no child to supervise: every later
  turn of the watcher does nothing, and no fault is raised.\<close>

lemma failed_respawn_is_silent:
  assumes "supervise p" "ps_proc p = Some pid" "length (charge (restart_window p) now (ps_recent p)) \<le> max_restarts p" "\<not> ps_fault p"
    and "q = watch_turn (Some rc) now (PopenError errno) polls p"
  shows "supervise q \<and> \<not> ps_fault q \<and> ps_proc q = None \<and> watch_turn poll now' r polls' q = q"
  using assms by (simp add: watch_turn_def on_crash_locked_def spawn_and_wait_def Let_def)

section \<open>Lemmas: WfbChild\<close>

lemma child_spawn_keeps [simp]:
  "c_recent (fst (child_spawn r o1 c)) = c_recent c" "c_max_restarts (fst (child_spawn r o1 c)) = c_max_restarts c"
  "c_restart_window (fst (child_spawn r o1 c)) = c_restart_window c" "c_supervise (fst (child_spawn r o1 c)) = c_supervise c"
  "c_fault (fst (child_spawn r o1 c)) = c_fault c" "c_watch (fst (child_spawn r o1 c)) = c_watch c"
  by (simp_all add: child_spawn_def check_rx_ready_def wait_tx_ready_def Let_def split: popen.split settle.split)

lemma child_retry_keeps [simp]:
  "c_max_restarts (fst (child_retry now r o1 c)) = c_max_restarts c"
  "c_restart_window (fst (child_retry now r o1 c)) = c_restart_window c"
  by (simp_all add: child_retry_def Let_def)

lemma child_exited_keeps [simp]:
  "c_max_restarts (child_exited rc c) = c_max_restarts c" "c_restart_window (child_exited rc c) = c_restart_window c"
  "c_recent (child_exited rc c) = c_recent c"
  by (simp_all add: child_exited_def)

lemma child_stop_keeps [simp]:
  "c_max_restarts (child_stop rc c) = c_max_restarts c" "c_restart_window (child_stop rc c) = c_restart_window c"
  "c_recent (child_stop rc c) = c_recent c" "c_watch (child_stop rc c) = NoTask" "\<not> c_supervise (child_stop rc c)"
  "c_proc (child_stop rc c) = None"
  by (simp_all add: child_stop_def Let_def split: option.split)

lemma child_start_recent: "c_recent (fst (child_start r o1 c)) = []"
  by (simp add: child_start_def Let_def split_beta)

lemma child_start_settings [simp]:
  "c_max_restarts (fst (child_start r o1 c)) = c_max_restarts c" "c_restart_window (fst (child_start r o1 c)) = c_restart_window c"
  by (simp_all add: child_start_def Let_def split_beta)

interpretation wc: crash_loop child_step c_recent child_restarted child_resets unwatched c_max_restarts c_restart_window
proof unfold_locales
  fix s e
  show "c_max_restarts (child_step s e) = c_max_restarts s \<and> c_restart_window (child_step s e) = c_restart_window s"
    by (cases e) simp_all
next
  fix s e
  show "child_resets s e \<Longrightarrow> c_recent (child_step s e) = []"
    by (cases e) (simp_all add: child_start_recent)
next
  fix s e now
  show "child_restarted s e = Some now \<Longrightarrow>
      c_recent (child_step s e) = filter (\<lambda>t. now - t < c_restart_window s) (c_recent s) @ [now]
      \<and> length (c_recent (child_step s e)) \<le> c_max_restarts s"
    by (cases e) (auto simp: child_retry_def charge_def Let_def split: if_splits)
next
  fix s e
  show "child_restarted s e = None \<Longrightarrow> \<not> child_resets s e \<Longrightarrow> c_recent (child_step s e) = c_recent s \<or> unwatched (child_step s e)"
    by (cases e) (auto simp: child_retry_def unwatched_def Let_def split: if_splits)
next
  fix s e
  show "unwatched s \<Longrightarrow> \<not> child_resets s e \<Longrightarrow> unwatched (child_step s e) \<and> child_restarted s e = None"
    by (cases e) (auto simp: child_exited_def child_retry_def unwatched_def)
qed

interpretation watch: machine child_step "\<lambda>e. \<not> is_child_start e" watch_inv
proof unfold_locales
  fix s e
  show "watch_inv s \<Longrightarrow> \<not> is_child_start e \<Longrightarrow> watch_inv (child_step s e)"
    by (cases e) (auto simp: watch_inv_def child_exited_def child_retry_def Let_def split: watch_task.splits)
qed

text \<open>The child is armed by \<open>start()\<close> unless it left no process.\<close>

lemma child_start_inv:
  assumes "c_watch c = NoTask" "\<not> c_supervise c"
  shows "watch_inv (fst (child_start r o1 c))"
  using assms by (auto simp: watch_inv_def child_start_def Let_def split_beta)

text \<open>Without \<open>stop()\<close> an armed task never leaves the armed states but by a fault.\<close>

lemma armed_step: "watch_inv c \<Longrightarrow> c_watch c \<noteq> NoTask \<Longrightarrow> not_stop e \<Longrightarrow> c_watch (child_step c e) \<noteq> NoTask"
  by (cases e) (auto simp: child_exited_def child_retry_def Let_def)

interpretation armed_watch: machine child_step not_stop "\<lambda>c. watch_inv c \<and> c_watch c \<noteq> NoTask"
proof unfold_locales
  fix c e
  assume "watch_inv c \<and> c_watch c \<noteq> NoTask" "not_stop e"
  then show "watch_inv (child_step c e) \<and> c_watch (child_step c e) \<noteq> NoTask"
    using watch.inv_step [of c e] armed_step [of c e] by (cases e) auto
qed

lemma lost_cong: "c_is_tx d = c_is_tx c \<Longrightarrow> c_parser_kind d = c_parser_kind c \<Longrightarrow> lost d r o1 = lost c r o1"
  by (simp add: lost_def split: popen.split)

lemma child_spawn_same [simp]:
  "c_is_tx (fst (child_spawn r o1 c)) = c_is_tx c" "c_parser_kind (fst (child_spawn r o1 c)) = c_parser_kind c"
  by (simp_all add: child_spawn_def check_rx_ready_def wait_tx_ready_def Let_def split: popen.split settle.split)

lemma child_spawn_lost: "lost c r o1 \<Longrightarrow> c_proc (fst (child_spawn r o1 c)) = None"
  by (auto simp: lost_def child_spawn_def wait_tx_ready_def Let_def split: popen.splits settle.splits)

lemma child_retry_same [simp]:
  "c_is_tx (fst (child_retry now r o1 c)) = c_is_tx c" "c_parser_kind (fst (child_retry now r o1 c)) = c_parser_kind c"
  by (simp_all add: child_retry_def Let_def)

lemma retries_keep:
  "c_is_tx (foldl child_step c (retries as)) = c_is_tx c \<and> c_parser_kind (foldl child_step c (retries as)) = c_parser_kind c
   \<and> c_max_restarts (foldl child_step c (retries as)) = c_max_restarts c
   \<and> c_restart_window (foldl child_step c (retries as)) = c_restart_window c"
  by (induction as arbitrary: c) (simp_all add: retries_def split_beta)

lemma lost_retries:
  assumes "c_watch c = Retrying" "c_supervise c"
  shows "\<forall>(now, r, o1) \<in> set as. lost c r o1 \<Longrightarrow> \<forall>a \<in> set as. \<forall>b \<in> set as. fst b - fst a < c_restart_window c \<Longrightarrow>
    (let d = foldl child_step c (retries as)
     in c_watch d = Ended \<and> c_fault d
        \<or> c_watch d = Retrying \<and> c_supervise d \<and> (\<exists>xs. c_recent d = xs @ map fst as) \<and> (as \<noteq> [] \<longrightarrow> length (c_recent d) \<le> c_max_restarts c))"
proof (induction as rule: rev_induct)
  case Nil
  show ?case using assms by (simp add: retries_def)
next
  case (snoc a as)
  obtain now r o1 where a: "a = (now, r, o1)" by (cases a) auto
  define d where "d = foldl child_step c (retries as)"
  have keep: "c_is_tx d = c_is_tx c" "c_parser_kind d = c_parser_kind c" "c_max_restarts d = c_max_restarts c"
    "c_restart_window d = c_restart_window c" using retries_keep [of c as] by (simp_all add: d_def)
  have fold: "foldl child_step c (retries (as @ [a])) = fst (child_retry now r o1 d)"
    by (simp add: retries_def a d_def)
  have IH: "c_watch d = Ended \<and> c_fault d \<or> c_watch d = Retrying \<and> c_supervise d \<and> (\<exists>xs. c_recent d = xs @ map fst as)"
    using snoc unfolding d_def by (auto simp: Let_def)
  show ?case
  proof (cases "c_watch d = Ended")
    case True
    then show ?thesis using IH fold by (auto simp: child_retry_def)
  next
    case False
    then obtain xs where xs: "c_watch d = Retrying" "c_supervise d" "c_recent d = xs @ map fst as" using IH by blast
    have l: "lost d' r o1" if "c_is_tx d' = c_is_tx c" "c_parser_kind d' = c_parser_kind c" for d'
      using snoc.prems(1) a lost_cong [OF that] by simp
    have "filter (\<lambda>t. now - t < c_restart_window c) (map fst as) = map fst as"
      using snoc.prems(2) a by (auto simp: filter_id_conv)
    then have "charge (c_restart_window d) now (c_recent d) = filter (\<lambda>t. now - t < c_restart_window c) xs @ map fst (as @ [a])"
      using xs(3) keep(4) a by (simp add: charge_def)
    then show ?thesis
      using xs keep l fold by (auto simp: child_retry_def Let_def child_spawn_lost)
  qed
qed

section \<open>Properties\<close>



text \<open>C16. The invariant of a radio child's crash watch: once \<open>start()\<close> has armed it, and until an
  operator's \<open>stop()\<close>, the watch task is waiting for a process or respawning it, unless the child is
  in fault. A dead watch without a fault is unreachable. And the watch cannot respawn for ever
  within a window: if more than \<open>max_restarts\<close> successive attempts leave no process within
  \<open>restart_window\<close> seconds, the child is in fault.\<close>

theorem child_watch_never_dies:
  assumes "c_watch c = NoTask" "\<not> c_supervise c" "c1 = fst (child_start r o1 c)" "c_proc c1 \<noteq> None" "list_all not_stop es"
    and "d = foldl child_step c1 es"
  shows "(c_fault d \<and> c_watch d = Ended \<or> \<not> c_fault d \<and> (c_watch d = Retrying \<or> c_watch d = Waiting \<and> c_proc d \<noteq> None))
    \<and> (c_watch d = Retrying \<and> c_max_restarts d < length as \<and> (\<forall>(now, r, o1) \<in> set as. lost d r o1)
      \<and> (\<forall>a \<in> set as. \<forall>b \<in> set as. fst b - fst a < c_restart_window d)
      \<longrightarrow> c_fault (foldl child_step d (retries as)))"
proof -
  have "watch_inv c1" using child_start_inv [of c r o1] assms(1,2,3) by simp
  moreover have "c_watch c1 \<noteq> NoTask" using assms(3,4) by (auto simp: child_start_def Let_def split_beta split: if_splits)
  ultimately have i: "watch_inv d \<and> c_watch d \<noteq> NoTask" unfolding assms(6) by (intro armed_watch.inv_run) (use assms(5) in auto)
  then have "c_fault d \<and> c_watch d = Ended \<or> \<not> c_fault d \<and> (c_watch d = Retrying \<or> c_watch d = Waiting \<and> c_proc d \<noteq> None)"
    by (auto simp: watch_inv_def split: watch_task.splits)
  moreover have "c_watch d = Retrying \<and> c_max_restarts d < length as \<and> (\<forall>(now, r, o1) \<in> set as. lost d r o1)
      \<and> (\<forall>a \<in> set as. \<forall>b \<in> set as. fst b - fst a < c_restart_window d)
      \<longrightarrow> c_fault (foldl child_step d (retries as))"
  proof
    assume h: "c_watch d = Retrying \<and> c_max_restarts d < length as \<and> (\<forall>(now, r, o1) \<in> set as. lost d r o1)
      \<and> (\<forall>a \<in> set as. \<forall>b \<in> set as. fst b - fst a < c_restart_window d)"
    then have "c_supervise d" "as \<noteq> []" using i by (auto simp: watch_inv_def)
    then show "c_fault (foldl child_step d (retries as))" using h lost_retries [of d as] unfolding Let_def by fastforce
  qed
  ultimately show ?thesis by blast
qed

theorem child_watch_never_dies_witness:
  "\<exists>d. c_watch d = Retrying \<and> c_fault (foldl child_step d (retries (map (\<lambda>n. (real n, PopenError None, Ready)) [0..<6])))"
proof -
  let ?c = "new_child ''x'' False (Some RxParser)"
  let ?as = "map (\<lambda>n. (real n, PopenError None, Ready)) [0..<6]"
  let ?d = "foldl child_step (fst (child_start (Popened 7) Ready ?c)) [ChildExits 1]"
  have d: "c_watch ?d = Retrying" "c_max_restarts ?d = 5" "c_restart_window ?d = 60"
    by (simp_all add: child_start_def new_child_def child_spawn_def check_rx_ready_def make_parser_def child_exited_def Let_def)
  have "c_fault (foldl child_step ?d (retries ?as))"
    using child_watch_never_dies [of ?c "fst (child_start (Popened 7) Ready ?c)" "Popened 7" Ready "[ChildExits 1]" ?d ?as] d
    by (auto simp: lost_def child_start_def new_child_def child_spawn_def check_rx_ready_def make_parser_def Let_def)
  then show ?thesis using d(1) by blast
qed

end
