(* ===== verification/Radio.thy ===== *)
theory Radio
  imports Schema
begin

text \<open>
  \<open>src/gs/fpvdgs/radio.py\<close>: the \<open>iw\<close> and \<open>ip\<close> commands that initialise the monitor interfaces and
  that retune them live. The values of the \<open>link\<close> block are JSON values, of which the schema checks
  little (a channel may be a string), so building a command can raise. A command is the argument
  vector handed to \<open>subprocess.run\<close>; whether a program succeeds is an argument. \<open>rp\<close> gives \<open>str\<close> of
  a float, a list or a dictionary.

  The lemmas show that initialisation is the regulatory domain, the monitor-mode preparation and
  then exactly the commands of a live retune, and which links give commands at all.
\<close>

section \<open>Definitions\<close>

text \<open>\<open>str\<close> of a JSON value.\<close>

definition py_str :: "(json \<Rightarrow> string) \<Rightarrow> json \<Rightarrow> string" where
  "py_str rp v = (case v of
     JNull \<Rightarrow> ''None'' | JBool b \<Rightarrow> (if b then ''True'' else ''False'') | JInt n \<Rightarrow> show_int n | JStr s \<Rightarrow> s | _ \<Rightarrow> rp v)"

text \<open>\<open>v > n\<close> for a JSON value and an int.\<close>

definition num_gt :: "json \<Rightarrow> int \<Rightarrow> bool res" where
  "num_gt v n = (case num_of v of None \<Rightarrow> Inl TypeError | Some x \<Rightarrow> Inr (real_of_int n < x))"

definition WIDTH_HTMODE :: "(int \<times> string) list" where
  "WIDTH_HTMODE = [(5, ''5MHz''), (10, ''10MHz''), (20, ''HT20''), (40, ''HT40+'')]"

text \<open>A dictionary lookup hashes its key first.\<close>

definition htmode :: "json \<Rightarrow> string res" where
  "htmode width =
     (if \<not> hashable width then Inl TypeError
      else Inr (case find (\<lambda>(w, m). py_eq width (JInt w)) WIDTH_HTMODE of Some (w, m) \<Rightarrow> m | None \<Rightarrow> ''HT20''))"

definition iw_args :: "(json \<Rightarrow> string) \<Rightarrow> json \<Rightarrow> json \<Rightarrow> json \<Rightarrow> json list res" where
  "iw_args rp wlan channel width =
     res_bind (htmode width) (\<lambda>mode. res_bind (num_gt channel 2000) (\<lambda>is_freq.
       Inr [JStr ''iw'', JStr ''dev'', wlan, JStr ''set'', JStr (if is_freq then ''freq'' else ''channel''),
            JStr (py_str rp channel), JStr mode]))"

text \<open>\<open>round(v * 100)\<close>: dBm to mBm.\<close>

definition to_mbm :: "json \<Rightarrow> int res" where
  "to_mbm v = (case num_of v of None \<Rightarrow> Inl TypeError | Some x \<Rightarrow> Inr (round_half_even (x * 100)))"

definition reg_cmds :: "json \<Rightarrow> json list list" where
  "reg_cmds region = (if truthy region then [[JStr ''iw'', JStr ''reg'', JStr ''set'', region]] else [])"

definition txpower_cmd :: "json \<Rightarrow> json \<Rightarrow> json list res" where
  "txpower_cmd wlan dbm =
     (if dbm = JNull then Inr [JStr ''iw'', JStr ''dev'', wlan, JStr ''set'', JStr ''txpower'', JStr ''auto'']
      else res_bind (to_mbm dbm) (\<lambda>mbm.
        Inr [JStr ''iw'', JStr ''dev'', wlan, JStr ''set'', JStr ''txpower'', JStr ''fixed'', JStr (show_int mbm)]))"

text \<open>The body of the loop over the interfaces.\<close>

definition tune_wlan :: "(json \<Rightarrow> string) \<Rightarrow> dict \<Rightarrow> json \<Rightarrow> json list list res" where
  "tune_wlan rp link wlan =
     (let channel = dget link ''channel'' JNull; width = dget link ''width'' (JInt 20) in
      res_bind (if channel = JNull then Inr [] else res_bind (iw_args rp wlan channel width) (\<lambda>c. Inr [c])) (\<lambda>chan.
      res_bind (txpower_cmd wlan (dget link ''txPowerDbm'' JNull)) (\<lambda>power.
        Inr (chan @ [power]))))"

definition retune_commands :: "(json \<Rightarrow> string) \<Rightarrow> json list \<Rightarrow> dict \<Rightarrow> json list list res" where
  "retune_commands rp wlans link =
     res_bind (res_map (tune_wlan rp link) wlans) (\<lambda>cmds.
       Inr (reg_cmds (dget link ''region'' JNull) @ concat cmds))"

definition monitor_cmds :: "json \<Rightarrow> json list list" where
  "monitor_cmds wlan =
     [[JStr ''ip'', JStr ''link'', JStr ''set'', wlan, JStr ''down''],
      [JStr ''iw'', JStr ''dev'', wlan, JStr ''set'', JStr ''monitor'', JStr ''otherbss''],
      [JStr ''ip'', JStr ''link'', JStr ''set'', wlan, JStr ''up'']]"

definition init_commands :: "(json \<Rightarrow> string) \<Rightarrow> json list \<Rightarrow> dict \<Rightarrow> json list list res" where
  "init_commands rp wlans link =
     (let region = dget link ''region'' JNull;
          cmds = reg_cmds region @ concat (map monitor_cmds wlans)
      in res_bind (retune_commands rp wlans link) (\<lambda>retune_cmds.
           Inr (cmds @ filter (\<lambda>cmd. cmd \<noteq> [JStr ''iw'', JStr ''reg'', JStr ''set'', region]) retune_cmds)))"

text \<open>\<open>subprocess.run\<close>: an argument that is no string is a \<open>TypeError\<close>, a null byte in one a
  \<open>ValueError\<close>, and neither is caught; \<open>ok i\<close> says whether the \<open>i\<close>-th program runs and exits with 0.\<close>

definition bad_arg :: "json list \<Rightarrow> py_exn option" where
  "bad_arg cmd =
     (if list_ex (\<lambda>a. \<not> is_str a) cmd then Some TypeError
      else if list_ex (\<lambda>a. case a of JStr s \<Rightarrow> CHR 0x00 \<in> set s | _ \<Rightarrow> False) cmd then Some ValueError
      else None)"

text \<open>The loop of \<open>init_cards\<close> and \<open>retune\<close>: the commands that were run, and the result.\<close>

fun run_cmds :: "(nat \<Rightarrow> bool) \<Rightarrow> json list list \<Rightarrow> json list list \<times> bool res" where
  "run_cmds ok [] = ([], Inr True)"
| "run_cmds ok (cmd # cmds) = (case bad_arg cmd of
     Some e \<Rightarrow> ([], Inl e)
   | None \<Rightarrow> (case run_cmds (\<lambda>i. ok (Suc i)) cmds of (done_cmds, r) \<Rightarrow> (cmd # done_cmds, res_bind r (\<lambda>b. Inr (ok 0 \<and> b)))))"

definition run_built :: "(nat \<Rightarrow> bool) \<Rightarrow> json list list res \<Rightarrow> json list list \<times> bool res" where
  "run_built ok built = (case built of Inl e \<Rightarrow> ([], Inl e) | Inr cmds \<Rightarrow> run_cmds ok cmds)"

definition init_cards :: "(json \<Rightarrow> string) \<Rightarrow> (nat \<Rightarrow> bool) \<Rightarrow> json list \<Rightarrow> dict \<Rightarrow> json list list \<times> bool res" where
  "init_cards rp ok wlans link = run_built ok (init_commands rp wlans link)"

definition retune :: "(json \<Rightarrow> string) \<Rightarrow> (nat \<Rightarrow> bool) \<Rightarrow> json list \<Rightarrow> dict \<Rightarrow> json list list \<times> bool res" where
  "retune rp ok wlans link = run_built ok (retune_commands rp wlans link)"

text \<open>A link whose commands can be built.\<close>

definition tunable :: "dict \<Rightarrow> bool" where
  "tunable link =
     ((let c = dget link ''channel'' JNull in c = JNull \<or> is_num c) \<and>
      hashable (dget link ''width'' (JInt 20)) \<and>
      (let p = dget link ''txPowerDbm'' JNull in p = JNull \<or> is_num p))"

section \<open>Lemmas\<close>

lemma num_of_is_num: "is_num v \<longleftrightarrow> (\<exists>x. num_of v = Some x)"
  by (cases v) (auto simp: is_num_def num_of_def)

lemma tune_wlan_ok:
  assumes "tunable link"
  obtains cmds where "tune_wlan rp link wlan = Inr cmds"
proof -
  let ?c = "dget link ''channel'' JNull" and ?p = "dget link ''txPowerDbm'' JNull"
  have c: "\<exists>cs. (if ?c = JNull then Inr [] else res_bind (iw_args rp wlan ?c (dget link ''width'' (JInt 20))) (\<lambda>c. Inr [c])) = Inr cs"
    using assms by (auto simp: tunable_def Let_def iw_args_def htmode_def num_gt_def num_of_is_num)
  have p: "\<exists>c. txpower_cmd wlan ?p = Inr c"
    using assms by (auto simp: tunable_def Let_def txpower_cmd_def to_mbm_def num_of_is_num)
  show ?thesis using that c p by (auto simp: tune_wlan_def)
qed

lemma res_map_ok: "(\<And>x. x \<in> set xs \<Longrightarrow> \<exists>y. f x = Inr y) \<Longrightarrow> \<exists>ys. res_map f xs = Inr ys"
proof (induction xs)
  case (Cons x xs)
  obtain y where "f x = Inr y" using Cons.prems by auto
  moreover obtain ys where "res_map f xs = Inr ys" using Cons by auto
  ultimately show ?case by simp
qed simp

text \<open>A tuning command is about one interface; no tuning command sets the regulatory domain.\<close>

lemma tune_wlan_dev:
  assumes "tune_wlan rp link wlan = Inr cmds" "cmd \<in> set cmds"
  shows "\<exists>rest. cmd = JStr ''iw'' # JStr ''dev'' # wlan # rest"
  using assms by (auto simp: tune_wlan_def iw_args_def txpower_cmd_def Let_def res_bind_def split: if_splits sum.splits)

lemma res_map_concat_dev:
  assumes "res_map (tune_wlan rp link) wlans = Inr css" "cmd \<in> set (concat css)"
  shows "\<exists>wlan \<in> set wlans. \<exists>rest. cmd = JStr ''iw'' # JStr ''dev'' # wlan # rest"
  using assms
proof (induction wlans arbitrary: css)
  case (Cons w wlans)
  obtain cs where cs: "tune_wlan rp link w = Inr cs" using Cons.prems by (cases "tune_wlan rp link w") auto
  obtain ds where ds: "res_map (tune_wlan rp link) wlans = Inr ds" "css = cs # ds"
    using Cons.prems cs by (cases "res_map (tune_wlan rp link) wlans") auto
  then show ?case using Cons tune_wlan_dev [OF cs] by auto
qed simp

text \<open>Initialisation is the regulatory domain, the monitor-mode preparation, and the rest of a retune.\<close>

lemma init_is_retune:
  assumes "tunable link"
  obtains tune where
    "retune_commands rp wlans link = Inr (reg_cmds (dget link ''region'' JNull) @ tune)"
    "init_commands rp wlans link = Inr (reg_cmds (dget link ''region'' JNull) @ concat (map monitor_cmds wlans) @ tune)"
    "\<forall>cmd \<in> set tune. \<exists>wlan \<in> set wlans. \<exists>rest. cmd = JStr ''iw'' # JStr ''dev'' # wlan # rest"
proof -
  obtain css where css: "res_map (tune_wlan rp link) wlans = Inr css"
    using res_map_ok [of wlans "tune_wlan rp link"] tune_wlan_ok [OF assms] by metis
  have dev: "\<forall>cmd \<in> set (concat css). \<exists>wlan \<in> set wlans. \<exists>rest. cmd = JStr ''iw'' # JStr ''dev'' # wlan # rest"
    using res_map_concat_dev [OF css] by blast
  let ?r = "dget link ''region'' JNull"
  have "filter (\<lambda>cmd. cmd \<noteq> [JStr ''iw'', JStr ''reg'', JStr ''set'', ?r]) (concat css) = concat css"
    using dev by (intro filter_True) fastforce
  moreover have "filter (\<lambda>cmd. cmd \<noteq> [JStr ''iw'', JStr ''reg'', JStr ''set'', ?r]) (reg_cmds ?r) = []"
    by (simp add: reg_cmds_def)
  ultimately show ?thesis
    using that [of "concat css"] css dev by (simp add: retune_commands_def init_commands_def Let_def)
qed

text \<open>Every command is run, whatever the earlier ones returned.\<close>

lemma run_cmds_all:
  "\<forall>cmd \<in> set cmds. bad_arg cmd = None \<Longrightarrow> run_cmds ok cmds = (cmds, Inr (\<forall>i < length cmds. ok i))"
  by (induction cmds arbitrary: ok) (auto simp: less_Suc_eq_0_disj)

section \<open>Properties\<close>

text \<open>C40. A live retune does to the cards exactly what a fresh initialisation does after putting them
  into monitor mode: the regulatory domain is set once and first, then (on initialisation) every card
  goes down, to monitor mode and up, and then the same channel and power commands follow, each about
  one of the cards. Every command is tried whatever the earlier ones returned, and the outcome is
  success exactly when all of them succeeded.\<close>

theorem retune_matches_init:
  assumes "tunable link"
  shows "\<exists>tune. retune_commands rp wlans link = Inr (reg_cmds (dget link ''region'' JNull) @ tune) \<and>
    init_commands rp wlans link = Inr (reg_cmds (dget link ''region'' JNull) @ concat (map monitor_cmds wlans) @ tune) \<and>
    (\<forall>cmd \<in> set tune. \<exists>wlan \<in> set wlans. \<exists>rest. cmd = JStr ''iw'' # JStr ''dev'' # wlan # rest) \<and>
    ((\<forall>cmd \<in> set (reg_cmds (dget link ''region'' JNull) @ tune). bad_arg cmd = None) \<longrightarrow>
       retune rp ok wlans link = (reg_cmds (dget link ''region'' JNull) @ tune,
         Inr (\<forall>i < length (reg_cmds (dget link ''region'' JNull) @ tune). ok i)))"
proof -
  obtain tune where t: "retune_commands rp wlans link = Inr (reg_cmds (dget link ''region'' JNull) @ tune)"
    "init_commands rp wlans link = Inr (reg_cmds (dget link ''region'' JNull) @ concat (map monitor_cmds wlans) @ tune)"
    "\<forall>cmd \<in> set tune. \<exists>wlan \<in> set wlans. \<exists>rest. cmd = JStr ''iw'' # JStr ''dev'' # wlan # rest"
    using init_is_retune [OF assms] .
  then show ?thesis
    using run_cmds_all [of "reg_cmds (dget link ''region'' JNull) @ tune" ok] by (intro exI [of _ tune]) (simp add: retune_def run_built_def)
qed

theorem retune_matches_init_witness:
  "tunable [(''channel'', JInt 132), (''region'', JStr ''US'')] \<and>
   (\<exists>tune. init_commands (\<lambda>_. []) [JStr ''wlan0''] [(''channel'', JInt 132), (''region'', JStr ''US'')] =
      Inr (reg_cmds (JStr ''US'') @ monitor_cmds (JStr ''wlan0'') @ tune))"
proof
  show t: "tunable [(''channel'', JInt 132), (''region'', JStr ''US'')]"
    by (simp add: tunable_def dget_def hashable_def is_num_def is_list_def is_dict_def)
  show "\<exists>tune. init_commands (\<lambda>_. []) [JStr ''wlan0''] [(''channel'', JInt 132), (''region'', JStr ''US'')] =
      Inr (reg_cmds (JStr ''US'') @ monitor_cmds (JStr ''wlan0'') @ tune)"
    using retune_matches_init [OF t, of "\<lambda>_. []" "[JStr ''wlan0'']"] by (auto simp: dget_def)
qed

end
