(* ===== verification/Beamforming.thy ===== *)
theory Beamforming
  imports Radio
begin

text \<open>
  \<open>src/gs/fpvdgs/beamforming.py\<close>, \<open>beamforming_armer.py\<close> and \<open>drone_client.py\<close>: the beamformee of
  the ground station. Arming it is one line written to the \<open>bf_monitor_conf\<close> node of a card; the
  nodes are the association of an interface to the last line written there, and an interface
  without a node does not support beamforming. A background loop reconciles the controller with
  the configuration, reading the address of the drone over HTTP.

  The lemmas show that over any run of the loop in which the writes succeed the nodes are armed
  exactly as the controller reports, and what one tick does when the drone can be reached.
\<close>

section \<open>Definitions\<close>

subsection \<open>Wlans\<close>

text \<open>\<open>resolve_wlans\<close> of \<open>runner_supervisor.py\<close>.\<close>

definition resolve_wlans :: "string list \<Rightarrow> dict \<Rightarrow> json list res" where
  "resolve_wlans nics effective = res_bind (resolve_cards nics effective) (\<lambda>cs. Inr (local_ifaces cs))"

subsection \<open>The client of the drone\<close>

text \<open>An answer is a status code and a body, and no answer is \<open>DroneUnreachable\<close>; \<open>loads\<close> is
  \<open>json.loads\<close>, which raises \<open>ValueError\<close> on what is not JSON, and \<open>utf8\<close> decodes leniently.\<close>

type_synonym http_answer = "(int \<times> bytes) option"

datatype drone_result =
    Drone_ok json
  | Drone_rejected int json
  | Drone_unreachable
  | Drone_raised py_exn

definition loads_or_empty :: "(bytes \<Rightarrow> json option) \<Rightarrow> bytes \<Rightarrow> json option" where
  "loads_or_empty loads raw = (if raw = [] then Some (JObj []) else loads raw)"

definition ok_json :: "(bytes \<Rightarrow> json option) \<Rightarrow> (bytes \<Rightarrow> string) \<Rightarrow> http_answer \<Rightarrow> drone_result" where
  "ok_json loads utf8 answer = (case answer of
     None \<Rightarrow> Drone_unreachable
   | Some (status, raw) \<Rightarrow>
       if 400 \<le> status \<and> status < 500
       then Drone_rejected status (case loads_or_empty loads raw of Some v \<Rightarrow> v | None \<Rightarrow> JObj [(''raw'', JStr (utf8 raw))])
       else if 500 \<le> status then Drone_unreachable
       else (case loads_or_empty loads raw of Some v \<Rightarrow> Drone_ok v | None \<Rightarrow> Drone_raised ValueError))"

definition healthz :: "http_answer \<Rightarrow> bool" where
  "healthz answer = (case answer of None \<Rightarrow> False | Some (status, raw) \<Rightarrow> status = 200)"

subsection \<open>The controller\<close>

datatype bf_state = Bf_disabled | Bf_unsupported | Bf_active | Bf_error

record bf_controller =
  bf_armed :: bool
  bf_iface :: json
  bf_peer :: json
  bf_state :: bf_state
  bf_reason :: string

definition new_bf :: bf_controller where
  "new_bf = \<lparr> bf_armed = False, bf_iface = JStr [], bf_peer = JStr [], bf_state = Bf_disabled, bf_reason = [] \<rparr>"

type_synonym bf_nodes = "string \<rightharpoonup> string"

definition supported :: "(json \<Rightarrow> string) \<Rightarrow> bf_nodes \<Rightarrow> json \<Rightarrow> bool" where
  "supported rp nodes iface = (nodes (py_str rp iface) \<noteq> None)"

text \<open>\<open>_write_conf\<close>; opening or writing the node fails when \<open>ok\<close> is false.\<close>

definition write_conf :: "(json \<Rightarrow> string) \<Rightarrow> bool \<Rightarrow> json \<Rightarrow> string \<Rightarrow> bf_nodes \<Rightarrow> bool \<times> bf_nodes" where
  "write_conf rp ok iface content nodes =
     (if ok \<and> supported rp nodes iface then (True, nodes(py_str rp iface \<mapsto> content)) else (False, nodes))"

definition reset_line :: string where
  "reset_line = ''0 00:00:00:00:00:00 0 0''"

definition arm_line :: "(json \<Rightarrow> string) \<Rightarrow> json \<Rightarrow> string" where
  "arm_line rp peer = ''1 '' @ py_str rp peer @ '' 0 0''"

definition bf_disarm :: "(json \<Rightarrow> string) \<Rightarrow> bool \<Rightarrow> json \<Rightarrow> bf_controller \<times> bf_nodes \<Rightarrow> bf_controller \<times> bf_nodes" where
  "bf_disarm rp ok iface = (\<lambda>(b, nodes).
     let (wrote, nodes') = (if bf_armed b \<and> supported rp nodes (bf_iface b) then write_conf rp ok (bf_iface b) reset_line nodes else (True, nodes))
     in if \<not> wrote
        then (b\<lparr> bf_armed := False, bf_state := Bf_error, bf_reason := ''bf_monitor_conf reset failed'' \<rparr>, nodes')
        else (b\<lparr> bf_armed := False, bf_iface := iface, bf_peer := JStr [], bf_state := Bf_disabled, bf_reason := [] \<rparr>, nodes'))"

definition bf_arm :: "(json \<Rightarrow> string) \<Rightarrow> bool \<Rightarrow> json \<Rightarrow> json \<Rightarrow> bf_controller \<times> bf_nodes \<Rightarrow> bf_controller \<times> bf_nodes" where
  "bf_arm rp ok iface peer = (\<lambda>(b, nodes).
     if \<not> supported rp nodes iface
     then (b\<lparr> bf_armed := False, bf_iface := iface, bf_peer := peer, bf_state := Bf_unsupported,
             bf_reason := ''no bf_monitor_conf node on '' @ py_str rp iface \<rparr>, nodes)
     else if bf_armed b \<and> py_eq (bf_iface b) iface \<and> py_eq (bf_peer b) peer then (b, nodes)
     else case write_conf rp ok iface (arm_line rp peer) nodes of
       (True, nodes') \<Rightarrow> (b\<lparr> bf_armed := True, bf_iface := iface, bf_peer := peer, bf_state := Bf_active, bf_reason := [] \<rparr>, nodes')
     | (False, nodes') \<Rightarrow>
         (b\<lparr> bf_armed := False, bf_iface := iface, bf_peer := peer, bf_state := Bf_error,
            bf_reason := ''bf_monitor_conf write failed'' \<rparr>, nodes'))"

definition reconcile :: "(json \<Rightarrow> string) \<Rightarrow> bool \<Rightarrow> bool \<Rightarrow> json \<Rightarrow> json \<Rightarrow> bf_controller \<times> bf_nodes \<Rightarrow> bf_controller \<times> bf_nodes" where
  "reconcile rp ok enabled iface peer_mac bn =
     (if \<not> enabled then bf_disarm rp ok iface bn else bf_arm rp ok iface peer_mac bn)"

text \<open>\<open>status\<close>; \<open>mac\<close> reads the address of an interface (the empty string when it cannot).\<close>

definition bf_state_str :: "bf_state \<Rightarrow> string" where
  "bf_state_str s = (case s of Bf_disabled \<Rightarrow> ''disabled'' | Bf_unsupported \<Rightarrow> ''unsupported'' | Bf_active \<Rightarrow> ''active'' | Bf_error \<Rightarrow> ''error'')"

definition bf_status :: "(json \<Rightarrow> string) \<Rightarrow> bf_controller \<Rightarrow> dict" where
  "bf_status mac b =
     [(''requested'', JBool (bf_state b \<noteq> Bf_disabled)), (''state'', JStr (bf_state_str (bf_state b))), (''reason'', JStr (bf_reason b)),
      (''iface'', bf_iface b), (''localMac'', JStr (if truthy (bf_iface b) then mac (bf_iface b) else [])), (''peerMac'', bf_peer b)]"

definition status_with_primary :: "(json \<Rightarrow> string) \<Rightarrow> json \<Rightarrow> bf_controller \<Rightarrow> dict" where
  "status_with_primary mac primary b =
     (let s = bf_status mac b
      in if \<not> truthy (dget s ''localMac'' JNull) \<and> truthy primary
         then let s' = AList.update ''localMac'' (JStr (mac primary)) s
              in if truthy (dget s' ''iface'' JNull) then s' else AList.update ''iface'' primary s'
         else s)"

subsection \<open>The reconcile loop\<close>

text \<open>What one tick sees: the configuration, the interfaces, the drone, and whether a write succeeds.\<close>

record armer_env =
  ae_cfg :: dict
  ae_wlans :: "json list res"
  ae_health :: http_answer
  ae_status :: drone_result
  ae_write_ok :: bool

text \<open>\<open>bool(bf.get("enabled"))\<close> of \<open>(cfg.get("link", {}) or {}).get("beamforming", {}) or {}\<close>.\<close>

definition bf_want :: "dict \<Rightarrow> bool res" where
  "bf_want cfg =
     res_bind (jget (or_empty (dget cfg ''link'' (JObj []))) ''beamforming'' (JObj [])) (\<lambda>bf.
     res_bind (jget (or_empty bf) ''enabled'' JNull) (\<lambda>en. Inr (truthy en)))"

definition primary_of :: "json list \<Rightarrow> json" where
  "primary_of wlans = (case wlans of [] \<Rightarrow> JNull | w # _ \<Rightarrow> w)"

text \<open>\<open>get_status().get("beamforming", {}).get("localMac", "")\<close>; \<open>None\<close> when the drone cannot tell.\<close>

definition drone_mac :: "drone_result \<Rightarrow> json option res" where
  "drone_mac r = (case r of
     Drone_ok v \<Rightarrow> res_bind (jget v ''beamforming'' (JObj [])) (\<lambda>bf. res_bind (jget bf ''localMac'' (JStr [])) (\<lambda>m. Inr (Some m)))
   | Drone_raised e \<Rightarrow> Inl e
   | _ \<Rightarrow> Inr None)"

definition armer_tick :: "(json \<Rightarrow> string) \<Rightarrow> armer_env \<Rightarrow> bf_controller \<times> bf_nodes \<Rightarrow> (bf_controller \<times> bf_nodes) res" where
  "armer_tick rp env = (\<lambda>(b, nodes).
     res_bind (bf_want (ae_cfg env)) (\<lambda>want.
       let active = (bf_state b = Bf_active)
       in if \<not> want
          then if active
               then res_bind (ae_wlans env) (\<lambda>wlans. let primary = primary_of wlans
                      in Inr (if truthy primary then reconcile rp (ae_write_ok env) False primary (JStr []) (b, nodes) else (b, nodes)))
               else Inr (b, nodes)
          else if active then Inr (b, nodes)
          else res_bind (ae_wlans env) (\<lambda>wlans. let primary = primary_of wlans
                 in if \<not> truthy primary \<or> \<not> supported rp nodes primary then Inr (b, nodes)
                    else if \<not> healthz (ae_health env) then Inr (b, nodes)
                    else res_bind (drone_mac (ae_status env)) (\<lambda>m. case m of
                           None \<Rightarrow> Inr (b, nodes)
                         | Some mac \<Rightarrow> Inr (if truthy mac then reconcile rp (ae_write_ok env) True primary mac (b, nodes) else (b, nodes))))))"

text \<open>\<open>_loop\<close>: an exception of a tick is dropped.\<close>

definition armer_step :: "(json \<Rightarrow> string) \<Rightarrow> armer_env \<Rightarrow> bf_controller \<times> bf_nodes \<Rightarrow> bf_controller \<times> bf_nodes" where
  "armer_step rp env bn = (case armer_tick rp env bn of Inl e \<Rightarrow> bn | Inr bn' \<Rightarrow> bn')"

definition armer_loop :: "(json \<Rightarrow> string) \<Rightarrow> armer_env list \<Rightarrow> bf_controller \<times> bf_nodes \<Rightarrow> bf_controller \<times> bf_nodes" where
  "armer_loop rp envs bn = fold (armer_step rp) envs bn"

text \<open>A line that arms; the nodes are armed exactly as the controller says.\<close>

definition armed_line :: "string \<Rightarrow> bool" where
  "armed_line l = starts_with ''1 '' l"

definition node_armed :: "bf_nodes \<Rightarrow> string \<Rightarrow> bool" where
  "node_armed nodes i = (case nodes i of None \<Rightarrow> False | Some l \<Rightarrow> armed_line l)"

definition bf_synced :: "(json \<Rightarrow> string) \<Rightarrow> bf_controller \<times> bf_nodes \<Rightarrow> bool" where
  "bf_synced rp = (\<lambda>(b, nodes).
     bf_armed b = (bf_state b = Bf_active) \<and>
     (bf_armed b \<longrightarrow> nodes (py_str rp (bf_iface b)) = Some (arm_line rp (bf_peer b))) \<and>
     (\<forall>i. node_armed nodes i \<longrightarrow> bf_armed b \<and> i = py_str rp (bf_iface b)))"

section \<open>Lemmas\<close>

lemma arm_line_armed [simp]: "armed_line (arm_line rp peer)"
  by (simp add: armed_line_def arm_line_def)

lemma reset_line_disarmed [simp]: "\<not> armed_line reset_line"
  by (simp add: armed_line_def reset_line_def)

lemma node_armed_upd [simp]: "node_armed (nodes(j \<mapsto> l)) i = (if i = j then armed_line l else node_armed nodes i)"
  by (simp add: node_armed_def)

lemma bf_synced_disarm:
  assumes "bf_synced rp (b, nodes)"
  shows "bf_synced rp (bf_disarm rp True iface (b, nodes))"
    and "fst (bf_disarm rp True iface (b, nodes)) = b\<lparr> bf_armed := False, bf_iface := iface, bf_peer := JStr [], bf_state := Bf_disabled, bf_reason := [] \<rparr>"
  using assms by (auto simp: bf_synced_def bf_disarm_def write_conf_def supported_def)

lemma bf_synced_arm:
  assumes "bf_synced rp (b, nodes)" "\<not> bf_armed b" "supported rp nodes iface"
  shows "bf_synced rp (bf_arm rp True iface peer (b, nodes))" "bf_state (fst (bf_arm rp True iface peer (b, nodes))) = Bf_active"
  using assms by (auto simp: bf_synced_def bf_arm_def write_conf_def)

lemma bf_synced_idle: "bf_synced rp (b, nodes) \<Longrightarrow> bf_state b \<noteq> Bf_active \<Longrightarrow> \<not> bf_armed b"
  by (simp add: bf_synced_def)

text \<open>A tick leaves the state as it is, disarms it, or arms an idle one on a card that has a node.\<close>

lemma armer_tick_cases:
  assumes "armer_tick rp env (b, nodes) = Inr bn"
  obtains "bn = (b, nodes)"
  | iface where "bf_state b = Bf_active" "bf_want (ae_cfg env) = Inr False" "bn = bf_disarm rp (ae_write_ok env) iface (b, nodes)"
  | iface mac where "bf_state b \<noteq> Bf_active" "bf_want (ae_cfg env) = Inr True" "supported rp nodes iface"
      "bn = bf_arm rp (ae_write_ok env) iface mac (b, nodes)"
proof -
  obtain want where w: "bf_want (ae_cfg env) = Inr want" using assms by (cases "bf_want (ae_cfg env)") (auto simp: armer_tick_def)
  show ?thesis
  proof (cases "want = (bf_state b = Bf_active)")
    case True
    then have "bn = (b, nodes)" using assms w by (cases want) (auto simp: armer_tick_def)
    then show ?thesis using that(1) by blast
  next
    case False
    obtain wlans where wl: "ae_wlans env = Inr wlans"
      using assms w False by (cases "ae_wlans env") (auto simp: armer_tick_def Let_def split: if_splits)
    let ?p = "primary_of wlans"
    show ?thesis
    proof (cases want)
      case True
      then have i: "bf_state b \<noteq> Bf_active" using False by simp
      have t: "armer_tick rp env (b, nodes) =
          (if \<not> truthy ?p \<or> \<not> supported rp nodes ?p \<or> \<not> healthz (ae_health env) then Inr (b, nodes)
           else res_bind (drone_mac (ae_status env)) (\<lambda>m. case m of None \<Rightarrow> Inr (b, nodes)
             | Some mac \<Rightarrow> Inr (if truthy mac then reconcile rp (ae_write_ok env) True ?p mac (b, nodes) else (b, nodes))))"
        using w wl True i by (simp add: armer_tick_def Let_def)
      show ?thesis
        using assms that(1) that(3) [OF i _, of ?p] w True unfolding t
        by (cases "drone_mac (ae_status env)") (auto simp: reconcile_def split: if_splits option.splits)
    next
      case want: False
      then have i: "bf_state b = Bf_active" using False by simp
      have "armer_tick rp env (b, nodes) = Inr (if truthy ?p then bf_disarm rp (ae_write_ok env) ?p (b, nodes) else (b, nodes))"
        using w wl want i by (simp add: armer_tick_def Let_def reconcile_def)
      then show ?thesis using assms that(1) that(2) [OF i _, of ?p] w want by (auto split: if_splits)
    qed
  qed
qed

lemma bf_synced_step:
  assumes "bf_synced rp bn" "ae_write_ok env"
  shows "bf_synced rp (armer_step rp env bn)"
proof (cases "armer_tick rp env bn")
  case (Inr bn')
  obtain b nodes where bn: "bn = (b, nodes)" by fastforce
  have "bf_synced rp bn'"
    using Inr [unfolded bn]
  proof (cases rule: armer_tick_cases)
    case 1
    then show ?thesis using assms bn by simp
  next
    case (2 iface)
    then show ?thesis using bf_synced_disarm(1) assms bn by simp
  next
    case (3 iface mac)
    then show ?thesis using bf_synced_arm(1) [of rp b nodes iface mac] bf_synced_idle assms bn by simp
  qed
  then show ?thesis using Inr by (simp add: armer_step_def)
qed (simp add: armer_step_def assms)

lemma bf_synced_loop:
  "bf_synced rp bn \<Longrightarrow> \<forall>env \<in> set envs. ae_write_ok env \<Longrightarrow> bf_synced rp (armer_loop rp envs bn)"
  unfolding armer_loop_def by (induction envs arbitrary: bn) (simp_all del: split_paired_All add: bf_synced_step)

lemma bf_synced_new: "\<forall>i. \<not> node_armed nodes i \<Longrightarrow> bf_synced rp (new_bf, nodes)"
  by (simp add: bf_synced_def new_bf_def)

lemma bf_synced_nodes:
  "bf_synced rp (b, nodes) \<Longrightarrow> node_armed nodes i \<longleftrightarrow> bf_state b = Bf_active \<and> i = py_str rp (bf_iface b)"
  by (auto simp: bf_synced_def node_armed_def)

text \<open>One tick with a reachable drone and a card that supports beamforming.\<close>

lemma armer_step_converges:
  assumes "bf_synced rp (b, nodes)" "bf_want (ae_cfg env) = Inr want" "ae_write_ok env"
    and "ae_wlans env = Inr (w # ws)" "truthy w" "supported rp nodes w"
    and "healthz (ae_health env)" "drone_mac (ae_status env) = Inr (Some mac)" "truthy mac"
  shows "(bf_state (fst (armer_step rp env (b, nodes))) = Bf_active) = want"
proof (cases "want = (bf_state b = Bf_active)")
  case True
  then show ?thesis using assms(2) by (cases want) (simp_all add: armer_step_def armer_tick_def)
next
  case False
  show ?thesis
  proof (cases want)
    case True
    then have "armer_step rp env (b, nodes) = bf_arm rp True w mac (b, nodes)"
      using assms False by (simp add: armer_step_def armer_tick_def Let_def reconcile_def primary_of_def)
    then show ?thesis using bf_synced_arm(2) [OF assms(1) _ assms(6)] bf_synced_idle [OF assms(1)] False True by simp
  next
    case want: False
    then have "armer_step rp env (b, nodes) = bf_disarm rp True w (b, nodes)"
      using assms False by (simp add: armer_step_def armer_tick_def Let_def reconcile_def primary_of_def)
    then show ?thesis using bf_synced_disarm(2) [OF assms(1)] want by simp
  qed
qed

text \<open>After a disarm that failed, the loop never writes the node again while beamforming is off: it
  acts on the state \<open>active\<close> only.\<close>

lemma failed_disarm_stays:
  assumes "bf_synced rp (b, nodes)" "bf_armed b" "bn = bf_disarm rp False iface (b, nodes)"
    and "\<forall>env \<in> set envs. bf_want (ae_cfg env) = Inr False"
  shows "armer_loop rp envs bn = bn \<and> node_armed (snd bn) (py_str rp (bf_iface b))"
proof
  have bn: "bn = (b\<lparr> bf_armed := False, bf_state := Bf_error, bf_reason := ''bf_monitor_conf reset failed'' \<rparr>, nodes)"
    using assms(1-3) by (auto simp: bf_synced_def bf_disarm_def write_conf_def supported_def)
  show "node_armed (snd bn) (py_str rp (bf_iface b))" using assms(1,2) bn by (simp add: bf_synced_def node_armed_def)
  have "armer_step rp env bn = bn" if "bf_want (ae_cfg env) = Inr False" for env
    using that bn by (simp add: armer_step_def armer_tick_def)
  then show "armer_loop rp envs bn = bn" using assms(4) unfolding armer_loop_def by (induction envs) auto
qed

section \<open>Properties\<close>


definition demo_armer_env :: "bool \<Rightarrow> armer_env" where
  "demo_armer_env want =
     \<lparr> ae_cfg = [(''link'', JObj [(''beamforming'', JObj [(''enabled'', JBool want)])])], ae_wlans = Inr [JStr ''wlan0''],
       ae_health = Some (200, []), ae_status = Drone_ok (JObj [(''beamforming'', JObj [(''localMac'', JStr ''aa'')])]), ae_write_ok = True \<rparr>"


end
