(* ===== verification/Cluster.thy ===== *)
theory Cluster
  imports Radio "HOL-Library.List_Lexorder" "HOL-Library.Char_ord"
begin

text \<open>
  \<open>src/gs/fpvdgs/wfb/cluster.py\<close>: the allocation of ports to the nodes of a cluster of wifi cards,
  the identifiers of their interfaces, the shell script that a remote node runs, and the session
  that keeps the script alive over SSH. A host is a string or null, as the schema enforces.

  The lemmas give the allocation in closed form (service \<open>i\<close> of a node with \<open>n\<close> cards owns the
  ports from \<open>base + i * n\<close>), from which the ports are disjoint and the probe service leaves the
  others where they are; and show that a session keeps retrying, at a bounded pace.
\<close>

unbundle bit_operations_syntax

section \<open>Definitions\<close>

subsection \<open>Services\<close>

definition SERVICE_ORDER :: "string list" where
  "SERVICE_ORDER = [''video'', ''mavlink'', ''tunnel'']"

definition PROBE_SERVICE :: string where
  "PROBE_SERVICE = ''probe''"

text \<open>The receive and the transmit stream of each service.\<close>

record service_streams =
  rx_stream :: "int option"
  tx_stream :: "int option"

definition DEFAULT_STREAMS :: "(string \<times> service_streams) list" where
  "DEFAULT_STREAMS =
     [(''video'', \<lparr> rx_stream = Some 0, tx_stream = None \<rparr>),
      (''mavlink'', \<lparr> rx_stream = Some 16, tx_stream = Some 144 \<rparr>),
      (''tunnel'', \<lparr> rx_stream = Some 32, tx_stream = Some 160 \<rparr>)]"

definition PROBE_STREAMS :: service_streams where
  "PROBE_STREAMS = \<lparr> rx_stream = Some 50, tx_stream = None \<rparr>"

definition service_order :: "bool \<Rightarrow> string list" where
  "service_order with_probe = SERVICE_ORDER @ (if with_probe then [PROBE_SERVICE] else [])"

definition streams_for :: "bool \<Rightarrow> (string \<times> service_streams) list" where
  "streams_for with_probe = (if with_probe then AList.update PROBE_SERVICE PROBE_STREAMS DEFAULT_STREAMS else DEFAULT_STREAMS)"

subsection \<open>Nodes and interface identifiers\<close>

definition node_key :: "wifi_card \<Rightarrow> string" where
  "node_key c = (case cd_host c of JStr s \<Rightarrow> if s = [] then ''127.0.0.1'' else s | _ \<Rightarrow> ''127.0.0.1'')"

text \<open>\<open>socket.inet_aton\<close>: one to four numbers in C notation, the last one filling the remaining
  bytes; anything after white space is ignored. The four bytes are read as one big-endian number.\<close>

definition c_space :: "char \<Rightarrow> bool" where
  "c_space c = (code c = 32 \<or> (9 \<le> code c \<and> code c \<le> 13))"

definition c_digits :: "nat \<Rightarrow> string \<Rightarrow> int option" where
  "c_digits base s =
     (if s \<noteq> [] \<and> list_all (\<lambda>c. case digit_val c of None \<Rightarrow> False | Some d \<Rightarrow> d < base) s
      then Some (foldl (\<lambda>n c. n * int base + (case digit_val c of None \<Rightarrow> 0 | Some d \<Rightarrow> int d)) 0 s) else None)"

definition c_number :: "string \<Rightarrow> int option" where
  "c_number s = (case hex_prefix s of
     Some ds \<Rightarrow> c_digits 16 ds
   | None \<Rightarrow> c_digits (if s \<noteq> [] \<and> hd s = CHR ''0'' then 8 else 10) s)"

definition inet_aton :: "string \<Rightarrow> int res" where
  "inet_aton s =
     (let parts = map c_number (split_on CHR ''.'' (takeWhile (\<lambda>c. \<not> c_space c) s)); n = length parts
      in if 4 < n \<or> None \<in> set parts then Inl OSError
         else let vs = map the parts; front = butlast vs; final = last vs
              in if list_ex (\<lambda>v. 255 < v) front \<or> 256 ^ (5 - n) \<le> final then Inl OSError
                 else Inr (foldl (\<lambda>a v. a * 256 + v) 0 front * 256 ^ (5 - n) + final))"

definition node_ipv4_int :: "string \<Rightarrow> int res" where
  "node_ipv4_int host = inet_aton host"

definition cluster_wlan_id :: "string \<Rightarrow> nat \<Rightarrow> int res" where
  "cluster_wlan_id host wlan_idx = res_bind (node_ipv4_int host) (\<lambda>ip. Inr (push_bit 24 ip OR int wlan_idx))"

subsection \<open>The plan\<close>

record cluster_plan =
  cp_nodes :: "(string \<times> wifi_card list) list"
  cp_server_port :: "(string \<times> int) list"
  cp_injector_base :: "((string \<times> string) \<times> int) list"
  cp_peers :: "(string \<times> string list) list"
  cp_rx_only :: "int set"

text \<open>\<open>nodes.setdefault(node_key(card), []).append(card)\<close>.\<close>

definition add_card :: "wifi_card \<Rightarrow> (string \<times> wifi_card list) list \<Rightarrow> (string \<times> wifi_card list) list" where
  "add_card c nodes = AList.update (node_key c) ((case map_of nodes (node_key c) of None \<Rightarrow> [] | Some cs \<Rightarrow> cs) @ [c]) nodes"

definition group_cards :: "wifi_card list \<Rightarrow> (string \<times> wifi_card list) list" where
  "group_cards cs = fold add_card cs []"

text \<open>The state of the allocation: the next port of every node that has an allocator, the injector
  bases and the peers.\<close>

record plan_state =
  ps_alloc :: "(string \<times> int) list"
  ps_injector :: "((string \<times> string) \<times> int) list"
  ps_peers :: "(string \<times> string list) list"

definition next_port :: "int \<Rightarrow> string \<Rightarrow> (string \<times> int) list \<Rightarrow> int" where
  "next_port base node alloc = (case map_of alloc node of None \<Rightarrow> base | Some p \<Rightarrow> p)"

definition peer_entry :: "string \<Rightarrow> int list \<Rightarrow> string" where
  "peer_entry node ports = node @ '':'' @ join_with CHR '','' (map show_int ports)"

definition port_block :: "int \<Rightarrow> nat \<Rightarrow> int list" where
  "port_block first n = map (\<lambda>i. first + int i) [0..<n]"

text \<open>The body of the loop over the nodes.\<close>

definition alloc_node :: "int \<Rightarrow> (string \<times> wifi_card list) list \<Rightarrow> string \<Rightarrow> string \<Rightarrow> plan_state \<Rightarrow> plan_state" where
  "alloc_node base nodes service node s =
     (let node_cards = the (map_of nodes node);
          first = next_port base node (ps_alloc s);
          ports = port_block first (length node_cards)
      in \<lparr> ps_alloc = AList.update node (first + int (length node_cards)) (ps_alloc s),
           ps_injector = AList.update (node, service) (Min (set ports)) (ps_injector s),
           ps_peers = AList.update service (the (map_of (ps_peers s) service) @ [peer_entry node ports]) (ps_peers s) \<rparr>)"

definition alloc_service :: "int \<Rightarrow> (string \<times> wifi_card list) list \<Rightarrow> string \<Rightarrow> plan_state \<Rightarrow> plan_state" where
  "alloc_service base nodes service s = fold (alloc_node base nodes service) (sort (map fst nodes)) s"

definition rx_only_ids :: "(string \<times> wifi_card list) list \<Rightarrow> int set res" where
  "rx_only_ids nodes =
     res_bind (res_map (\<lambda>(idx, c). cluster_wlan_id (node_key c) idx)
                 (concat (map (\<lambda>(node, cs). filter (\<lambda>(idx, c). is_rx_only c) (enumerate 0 cs)) nodes)))
       (\<lambda>ids. Inr (set ids))"

definition plan_cluster :: "wifi_card list \<Rightarrow> int \<Rightarrow> int \<Rightarrow> bool \<Rightarrow> cluster_plan res" where
  "plan_cluster cards base_port_server base_port_node with_probe =
     (let nodes = group_cards cards;
          services = service_order with_probe;
          server_port = zip services (port_block base_port_server (length services));
          s = fold (alloc_service base_port_node nodes) services
                \<lparr> ps_alloc = [], ps_injector = [], ps_peers = map (\<lambda>v. (v, [])) services \<rparr>
      in res_bind (rx_only_ids nodes) (\<lambda>ids.
           Inr \<lparr> cp_nodes = nodes, cp_server_port = server_port, cp_injector_base = ps_injector s,
                 cp_peers = ps_peers s, cp_rx_only = ids \<rparr>))"

text \<open>The default base ports.\<close>

definition SERVER_BASE :: int where
  "SERVER_BASE = 10000"

definition NODE_BASE :: int where
  "NODE_BASE = 11000"

subsection \<open>The script of a node\<close>

text \<open>\<open>str.splitlines\<close>; the first argument is the current line, reversed.\<close>

definition line_break :: "char \<Rightarrow> bool" where
  "line_break c = (code c \<in> {10, 11, 12, 13, 28, 29, 30, 133})"

function split_lines :: "string \<Rightarrow> string \<Rightarrow> string list" where
  "split_lines acc [] = (if acc = [] then [] else [rev acc])"
| "split_lines acc (c # cs) =
     (if line_break c
      then rev acc # split_lines [] (if code c = 13 \<and> cs \<noteq> [] \<and> code (hd cs) = 10 then tl cs else cs)
      else split_lines (c # acc) cs)"
  by pat_completeness auto
termination
  by (relation "measure (\<lambda>(acc, s). length s)") auto

definition splitlines :: "string \<Rightarrow> string list" where
  "splitlines s = split_lines [] s"

definition script_head :: "string list" where
  \<open>script_head =
     [''#!/bin/sh'', ''set -em'', [], ''export LC_ALL=C'', [], ''exec 3<&0'', [], ''PIDS=""'', [],
      ''_cleanup()'', ''{'', ''  [ -n "$PIDS" ] && kill -TERM $PIDS 2>/dev/null'', ''  exit 1'', ''}'', [],
      ''trap _cleanup EXIT HUP INT TERM'', [],
      ''for _p in $(ps | grep -E 'wfb_(rx|tx)' | grep -v grep | awk '{print $1}'); do'',
      ''  kill -9 $_p 2>/dev/null || true'', ''done'', []]\<close>

text \<open>\<open>(card.init_script or "").strip()\<close>.\<close>

definition init_snippet :: "wifi_card \<Rightarrow> string res" where
  "init_snippet c = (if \<not> truthy (init_script c) then Inr [] else case init_script c of JStr s \<Rightarrow> Inr (strip s) | _ \<Rightarrow> Inl AttributeError)"

text \<open>The loop over the cards, with the snippets already seen.\<close>

fun custom_init :: "string list \<Rightarrow> wifi_card list \<Rightarrow> string list res" where
  "custom_init seen [] = Inr []"
| "custom_init seen (c # cs) =
     res_bind (init_snippet c) (\<lambda>s.
       if s = [] \<or> s \<in> set seen then custom_init seen cs
       else res_bind (custom_init (s # seen) cs) (\<lambda>rest.
         Inr (''# custom init (per link.cards initScript)'' # splitlines s @ [[]] @ rest)))"

definition txpower_lines :: "string \<Rightarrow> wifi_card \<Rightarrow> string list res" where
  "txpower_lines wlan c =
     (if txpower_dbm c = JNull \<or> txpower_dbm c = JStr ''off'' then Inr []
      else res_bind (to_float (txpower_dbm c)) (\<lambda>x.
        Inr [''iw dev '' @ wlan @ '' set txpower fixed '' @ show_int (round_half_even (x * 100))]))"

definition nmcli_lines :: "string \<Rightarrow> string list" where
  "nmcli_lines wlan =
     [''# init '' @ wlan,
      ''if which nmcli > /dev/null && ! nmcli device show '' @ wlan @ '' | grep -q '' @ [CHR 0x27] @ ''(unmanaged)'' @ [CHR 0x27],
      ''then'', ''  nmcli device set '' @ wlan @ '' managed no'', ''  sleep 1'', ''fi'', [],
      ''ip link set '' @ wlan @ '' down'', ''iw dev '' @ wlan @ '' set monitor otherbss'', ''ip link set '' @ wlan @ '' up'']"

text \<open>\<open>" ".join(\<dots>)\<close> of values that must be strings.\<close>

definition join_strs :: "json list \<Rightarrow> string res" where
  "join_strs vs = res_bind (res_map (\<lambda>v. case v of JStr s \<Rightarrow> Inr s | _ \<Rightarrow> Inl TypeError) vs) (\<lambda>ss. Inr (join_with CHR '' '' ss))"

definition card_lines :: "(json \<Rightarrow> string) \<Rightarrow> json \<Rightarrow> json \<Rightarrow> wifi_card \<Rightarrow> string list res" where
  "card_lines rp channel width c =
     (let wlan = py_str rp (cd_iface c) in
      res_bind (if channel = JNull then Inr []
                else res_bind (iw_args rp (cd_iface c) channel width) (\<lambda>args. res_bind (join_strs args) (\<lambda>l. Inr [l]))) (\<lambda>chan.
      res_bind (txpower_lines wlan c) (\<lambda>power.
        Inr (nmcli_lines wlan @ chan @ power @ [[]]))))"

definition fwd_line :: "string \<Rightarrow> int \<Rightarrow> int \<Rightarrow> int \<Rightarrow> string \<Rightarrow> string" where
  \<open>fwd_line server_address port rx_id link_id wlans =
     ''wfb_rx -f -c '' @ server_address @ '' -u '' @ show_int port @ '' -p '' @ show_int rx_id @ '' -i '' @ show_int link_id @
     '' -R 2097152 '' @ wlans @ '' & PIDS="$PIDS $!"''\<close>

definition inj_line :: "int \<Rightarrow> string \<Rightarrow> string" where
  \<open>inj_line injector wlans = ''wfb_tx -I '' @ show_int injector @ '' -R 2097152 '' @ wlans @ '' & PIDS="$PIDS $!"''\<close>

definition key_error :: "'a option \<Rightarrow> 'a res" where
  "key_error v = (case v of None \<Rightarrow> Inl KeyError | Some x \<Rightarrow> Inr x)"

definition service_lines :: "string \<Rightarrow> cluster_plan \<Rightarrow> int \<Rightarrow> string \<Rightarrow> string \<Rightarrow> string \<times> service_streams \<Rightarrow> string list res" where
  "service_lines node plan link_id server_address wlans = (\<lambda>(service, streams).
     if rx_stream streams = None \<and> tx_stream streams = None then Inr []
     else
       res_bind (case rx_stream streams of None \<Rightarrow> Inr []
                 | Some rx_id \<Rightarrow> res_bind (key_error (map_of (cp_server_port plan) service)) (\<lambda>port.
                     Inr [fwd_line server_address port rx_id link_id wlans])) (\<lambda>rx.
       res_bind (case tx_stream streams of None \<Rightarrow> Inr []
                 | Some tx_id \<Rightarrow> res_bind (key_error (map_of (cp_injector_base plan) (node, service))) (\<lambda>injector.
                     Inr [inj_line injector wlans])) (\<lambda>tx.
         Inr ((''# '' @ service) # rx @ tx @ [[]]))))"

definition script_watch :: "string list" where
  \<open>script_watch =
     [''# Will fail in case of connection loss (reads fd 3 = the'',
      ''# saved SSH stdin; see the `exec 3<&0` note above).'',
      ''(sleep 1; exec cat <&3 > /dev/null) & PIDS="$PIDS $!"'', []]\<close>

definition script_tail :: "string list" where
  \<open>script_tail =
     [''echo "WFB-ng init done"'', [], ''while :; do'', ''  for p in $PIDS; do'', ''    kill -0 $p 2>/dev/null || exit 1'',
      ''  done'', ''  sleep 1'', ''done'', []]\<close>

definition node_script_lines ::
  "(json \<Rightarrow> string) \<Rightarrow> string \<Rightarrow> wifi_card list \<Rightarrow> cluster_plan \<Rightarrow> dict \<Rightarrow> int \<Rightarrow> string \<Rightarrow> bool \<Rightarrow> (string \<times> service_streams) list \<Rightarrow> string list res"
where
  "node_script_lines rp node cards plan link link_id server_address ssh_mode streams =
     (let width = dget link ''width'' (JInt 20); region = dget link ''region'' JNull; channel = dget link ''channel'' JNull in
      res_bind (join_strs (map cd_iface cards)) (\<lambda>wlans.
      res_bind (custom_init [] cards) (\<lambda>custom.
      res_bind (res_map (card_lines rp channel width) cards) (\<lambda>inits.
      res_bind (res_map (service_lines node plan link_id server_address wlans) streams) (\<lambda>services.
        Inr (script_head @ custom @ [''iw reg set '' @ py_str rp region, []] @ concat inits @ concat services @
             (if ssh_mode then script_watch else []) @ script_tail))))))"

definition render_node_script ::
  "(json \<Rightarrow> string) \<Rightarrow> string \<Rightarrow> wifi_card list \<Rightarrow> cluster_plan \<Rightarrow> dict \<Rightarrow> int \<Rightarrow> string \<Rightarrow> bool \<Rightarrow> (string \<times> service_streams) list \<Rightarrow> string res"
where
  "render_node_script rp node cards plan link link_id server_address ssh_mode streams =
     res_bind (node_script_lines rp node cards plan link link_id server_address ssh_mode streams) (\<lambda>lines.
       Inr (join_with (CHR 0x0A) lines))"

subsection \<open>Reaching a node\<close>

text \<open>\<open>route\<close> is the local address of the route to the node, which the kernel may not have.\<close>

definition derive_server_address :: "string option \<Rightarrow> json \<Rightarrow> json res" where
  "derive_server_address route override =
     (if truthy override then Inr override else case route of None \<Rightarrow> Inl OSError | Some a \<Rightarrow> Inr (JStr a))"

definition ssh_argv :: "(json \<Rightarrow> string) \<Rightarrow> wifi_card \<Rightarrow> json list" where
  "ssh_argv rp c =
     [JStr ''ssh'', JStr ''-o'', JStr ''BatchMode=yes'', JStr ''-o'', JStr ''ServerAliveInterval=5'', JStr ''-o'', JStr ''ServerAliveCountMax=3'',
      JStr ''-o'', JStr ''StrictHostKeyChecking=accept-new'', JStr ''-p'', JStr (show_int (ssh_port c))] @
     (if truthy (ssh_key c) then [JStr ''-i'', ssh_key c] else []) @
     [JStr (py_str rp (ssh_user c) @ ''@'' @ py_str rp (cd_host c)), JStr ''exec sh -s'']"

subsection \<open>The session of a node\<close>

text \<open>The watch task: waiting for the process to exit, sleeping before a respawn, or over. \<open>ns_log\<close>
  are the calls of \<open>on_state\<close>.\<close>

datatype watch_phase = Watching | Sleeping | Stopped

record node_session =
  ns_backoff :: real
  ns_max_backoff :: real
  ns_stable_reset_s :: real
  ns_alive :: bool
  ns_restarts :: int
  ns_proc :: bool
  ns_supervise :: bool
  ns_spawned_at :: "real option"
  ns_delay :: real
  ns_phase :: watch_phase
  ns_log :: "bool list"

definition NodeSession :: "real \<Rightarrow> real \<Rightarrow> real option \<Rightarrow> node_session" where
  "NodeSession backoff max_backoff stable_reset_s =
     \<lparr> ns_backoff = backoff, ns_max_backoff = max_backoff,
       ns_stable_reset_s = (case stable_reset_s of None \<Rightarrow> max_backoff | Some r \<Rightarrow> r),
       ns_alive = False, ns_restarts = 0, ns_proc = False, ns_supervise = False, ns_spawned_at = None,
       ns_delay = backoff, ns_phase = Stopped, ns_log = [] \<rparr>"

text \<open>\<open>_spawn\<close>: \<open>ok\<close> says whether the process could be created.\<close>

definition ns_spawn :: "bool \<Rightarrow> real \<Rightarrow> node_session \<Rightarrow> node_session" where
  "ns_spawn ok now s =
     (if ok then s\<lparr> ns_proc := True, ns_alive := True, ns_spawned_at := Some now \<rparr>
      else s\<lparr> ns_proc := False, ns_alive := False, ns_spawned_at := None \<rparr>)"

text \<open>The head of the loop of \<open>_watch\<close>: with no process it reports and sleeps at once.\<close>

definition ns_watch_head :: "node_session \<Rightarrow> node_session" where
  "ns_watch_head s = (if ns_proc s then s\<lparr> ns_phase := Watching \<rparr> else s\<lparr> ns_phase := Sleeping, ns_log := ns_log s @ [False] \<rparr>)"

definition ns_start :: "bool \<Rightarrow> real \<Rightarrow> node_session \<Rightarrow> node_session" where
  "ns_start ok now s = ns_watch_head ((ns_spawn ok now (s\<lparr> ns_supervise := True \<rparr>))\<lparr> ns_delay := ns_backoff s \<rparr>)"

text \<open>The process exits.\<close>

definition ns_exit :: "real \<Rightarrow> node_session \<Rightarrow> node_session" where
  "ns_exit now s =
     (if ns_phase s \<noteq> Watching then s
      else if \<not> ns_supervise s then s\<lparr> ns_phase := Stopped \<rparr>
      else s\<lparr> ns_alive := False, ns_phase := Sleeping, ns_log := ns_log s @ [False],
             ns_delay := (case ns_spawned_at s of
                Some t \<Rightarrow> if ns_stable_reset_s s \<le> now - t then ns_backoff s else ns_delay s
              | None \<Rightarrow> ns_delay s) \<rparr>)"

text \<open>The sleep is over: the delay doubles, and the process is spawned again.\<close>

definition ns_retry :: "bool \<Rightarrow> real \<Rightarrow> node_session \<Rightarrow> node_session" where
  "ns_retry ok now s =
     (if ns_phase s \<noteq> Sleeping then s
      else let s1 = s\<lparr> ns_delay := min (ns_delay s * 2) (ns_max_backoff s) \<rparr>
           in if \<not> ns_supervise s then s1\<lparr> ns_phase := Stopped \<rparr>
              else let s2 = ns_spawn ok now (s1\<lparr> ns_restarts := ns_restarts s1 + 1 \<rparr>)
                   in if ok then s2\<lparr> ns_phase := Watching, ns_log := ns_log s2 @ [True] \<rparr> else s2)"

text \<open>\<open>stop\<close> cancels the watch task and kills the process.\<close>

definition ns_stop :: "node_session \<Rightarrow> node_session" where
  "ns_stop s = s\<lparr> ns_supervise := False, ns_phase := Stopped, ns_proc := False, ns_alive := False \<rparr>"

datatype session_event = Ev_exit real | Ev_retry bool real

fun ns_step :: "session_event \<Rightarrow> node_session \<Rightarrow> node_session" where
  "ns_step (Ev_exit now) s = ns_exit now s"
| "ns_step (Ev_retry ok now) s = ns_retry ok now s"

subsection \<open>What the plan promises\<close>

text \<open>The number of cards of a node, and the ports of a service on a node.\<close>

definition node_size :: "wifi_card list \<Rightarrow> string \<Rightarrow> nat" where
  "node_size cards node = length (filter (\<lambda>c. node_key c = node) cards)"

definition service_ports :: "cluster_plan \<Rightarrow> wifi_card list \<Rightarrow> string \<Rightarrow> string \<Rightarrow> int list" where
  "service_ports plan cards node service = port_block (the (map_of (cp_injector_base plan) (node, service))) (node_size cards node)"

section \<open>Lemmas\<close>

subsection \<open>Grouping\<close>

lemma group_cards_snoc: "group_cards (cs @ [c]) = add_card c (group_cards cs)"
  by (simp add: group_cards_def)

lemma group_cards_lookup:
  "map_of (group_cards cs) k = (let f = filter (\<lambda>c. node_key c = k) cs in if f = [] then None else Some f)"
proof (induction cs rule: rev_induct)
  case (snoc c cs)
  then show ?case by (cases "k = node_key c") (auto simp: group_cards_snoc add_card_def update_conv' Let_def)
qed (simp add: group_cards_def)

lemma group_cards_distinct: "distinct (map fst (group_cards cs))"
  by (induction cs rule: rev_induct) (simp_all add: group_cards_def add_card_def distinct_update)

lemma group_cards_keys: "set (map fst (group_cards cs)) = node_key ` set cs"
proof -
  have "k \<in> fst ` set (group_cards cs) \<longleftrightarrow> k \<in> node_key ` set cs" for k
    using map_of_eq_None_iff [of "group_cards cs" k]
    by (auto simp: group_cards_lookup Let_def filter_empty_conv image_iff split: if_splits)
  then show ?thesis by auto
qed

lemma node_size_lookup: "k \<in> node_key ` set cs \<Longrightarrow> length (the (map_of (group_cards cs) k)) = node_size cs k"
  by (auto simp: group_cards_lookup Let_def node_size_def filter_empty_conv)

lemma node_size_pos: "k \<in> node_key ` set cs \<Longrightarrow> 0 < node_size cs k"
  by (auto simp: node_size_def filter_empty_conv)

subsection \<open>The allocation, in closed form\<close>

lemma port_block_simps [simp]: "length (port_block a n) = n" "set (port_block a n) = {a ..< a + int n}"
proof -
  have "(\<lambda>i. a + int i) ` {0..<n} = {a ..< a + int n}"
  proof (intro equalityI subsetI)
    fix y assume "y \<in> {a ..< a + int n}"
    then show "y \<in> (\<lambda>i. a + int i) ` {0..<n}" by (intro image_eqI [of _ _ "nat (y - a)"]) auto
  qed auto
  then show "set (port_block a n) = {a ..< a + int n}" by (simp add: port_block_def)
qed (simp add: port_block_def)

lemma port_block_nth: "i < n \<Longrightarrow> port_block a n ! i = a + int i"
  by (simp add: port_block_def)

lemma Min_port_block: "0 < n \<Longrightarrow> Min {a ..< a + int n} = a"
  by (intro Min_eqI) auto

lemma next_port_update [simp]: "next_port base m (AList.update node p alloc) = (if m = node then p else next_port base m alloc)"
  by (simp add: next_port_def update_conv')

text \<open>One service: the loop over the nodes.\<close>

lemma alloc_nodes:
  assumes "distinct ns" "\<forall>m \<in> set ns. length (the (map_of nodes m)) = n m \<and> 0 < n m" "map_of (ps_peers s) service = Some old"
  shows "next_port base m (ps_alloc (fold (alloc_node base nodes service) ns s)) =
           next_port base m (ps_alloc s) + (if m \<in> set ns then int (n m) else 0) \<and>
         map_of (ps_injector (fold (alloc_node base nodes service) ns s)) (m, sv) =
           (if m \<in> set ns \<and> sv = service then Some (next_port base m (ps_alloc s)) else map_of (ps_injector s) (m, sv)) \<and>
         map_of (ps_peers (fold (alloc_node base nodes service) ns s)) sv =
           (if sv = service then Some (old @ map (\<lambda>m. peer_entry m (port_block (next_port base m (ps_alloc s)) (n m))) ns) else map_of (ps_peers s) sv)"
  using assms
proof (induction ns arbitrary: s old)
  case (Cons a ns)
  let ?s = "alloc_node base nodes service a s"
  have a: "ps_alloc ?s = AList.update a (next_port base a (ps_alloc s) + int (n a)) (ps_alloc s)"
    "ps_injector ?s = AList.update (a, service) (next_port base a (ps_alloc s)) (ps_injector s)"
    "ps_peers ?s = AList.update service (old @ [peer_entry a (port_block (next_port base a (ps_alloc s)) (n a))]) (ps_peers s)"
    using Cons.prems Min_port_block [of "n a" "next_port base a (ps_alloc s)"] by (simp_all add: alloc_node_def Let_def)
  have p: "map_of (ps_peers ?s) service = Some (old @ [peer_entry a (port_block (next_port base a (ps_alloc s)) (n a))])"
    unfolding a(3) by (simp add: update_conv')
  have e: "map (\<lambda>m. peer_entry m (port_block (next_port base m (ps_alloc ?s)) (n m))) ns =
      map (\<lambda>m. peer_entry m (port_block (next_port base m (ps_alloc s)) (n m))) ns"
    using Cons.prems(1) unfolding a(1) by (intro map_cong) auto
  show ?case
    using Cons.IH [OF _ _ p] Cons.prems unfolding e fold_simps(2) by (auto simp: a update_conv')
qed simp

text \<open>All services: the \<open>k\<close>-th one gets the \<open>k\<close>-th block of every node.\<close>

lemma alloc_services:
  fixes cards :: "wifi_card list"
  defines "keys \<equiv> sort (map fst (group_cards cards))"
  assumes "distinct services" "\<forall>sv \<in> set services. map_of (ps_peers s) sv = Some []"
    and "\<forall>m \<in> set keys. next_port base m (ps_alloc s) = base + int (k * node_size cards m)"
    and "i < length services"
  shows "\<forall>m \<in> set keys. map_of (ps_injector (fold (alloc_service base (group_cards cards)) services s)) (m, services ! i) =
           Some (base + int ((k + i) * node_size cards m))"
    and "map_of (ps_peers (fold (alloc_service base (group_cards cards)) services s)) (services ! i) =
           Some (map (\<lambda>m. peer_entry m (port_block (base + int ((k + i) * node_size cards m)) (node_size cards m))) keys)"
    and "\<forall>sv. sv \<notin> set services \<longrightarrow>
           map_of (ps_peers (fold (alloc_service base (group_cards cards)) services s)) sv = map_of (ps_peers s) sv \<and>
           (\<forall>m. map_of (ps_injector (fold (alloc_service base (group_cards cards)) services s)) (m, sv) = map_of (ps_injector s) (m, sv))"
proof -
  have k: "distinct keys" "set keys = node_key ` set cards"
    using group_cards_distinct group_cards_keys by (simp_all add: keys_def)
  have n: "length (the (map_of (group_cards cards) m)) = node_size cards m" "0 < node_size cards m" if "m \<in> set keys" for m
    using that k node_size_lookup node_size_pos by auto
  let ?P = "\<lambda>services s k i. (\<forall>m \<in> set keys. map_of (ps_injector (fold (alloc_service base (group_cards cards)) services s)) (m, services ! i) =
           Some (base + int ((k + i) * node_size cards m))) \<and>
     map_of (ps_peers (fold (alloc_service base (group_cards cards)) services s)) (services ! i) =
           Some (map (\<lambda>m. peer_entry m (port_block (base + int ((k + i) * node_size cards m)) (node_size cards m))) keys)"
  let ?Q = "\<lambda>services s. \<forall>sv. sv \<notin> set services \<longrightarrow>
           map_of (ps_peers (fold (alloc_service base (group_cards cards)) services s)) sv = map_of (ps_peers s) sv \<and>
           (\<forall>m. map_of (ps_injector (fold (alloc_service base (group_cards cards)) services s)) (m, sv) = map_of (ps_injector s) (m, sv))"
  have "(i < length services \<longrightarrow> ?P services s k i) \<and> ?Q services s" for i
    using assms(2-4)
  proof (induction services arbitrary: s k i)
    case (Cons sv services)
    let ?s = "alloc_service base (group_cards cards) sv s"
    have s0: "map_of (ps_peers s) sv = Some []" using Cons.prems by simp
    have pos: "\<forall>m \<in> set keys. length (the (map_of (group_cards cards) m)) = node_size cards m \<and> 0 < node_size cards m" using n by simp
    note one = alloc_nodes [OF k(1) pos s0, of base]
    have st: "?s = fold (alloc_node base (group_cards cards) sv) keys s" by (simp add: alloc_service_def keys_def)
    have nx: "\<forall>m \<in> set keys. next_port base m (ps_alloc ?s) = base + int (Suc k * node_size cards m)"
      using one Cons.prems(3) unfolding st by (simp add: algebra_simps)
    have inj: "map_of (ps_injector ?s) (m, x) = (if m \<in> set keys \<and> x = sv then Some (next_port base m (ps_alloc s)) else map_of (ps_injector s) (m, x))" for m x
      using one unfolding st by simp
    have peers: "map_of (ps_peers ?s) x = (if x = sv then Some (map (\<lambda>m. peer_entry m (port_block (base + int (k * node_size cards m)) (node_size cards m))) keys) else map_of (ps_peers s) x)" for x
      using one Cons.prems(3) unfolding st by (simp cong: map_cong)
    have em: "\<forall>x \<in> set services. map_of (ps_peers ?s) x = Some []" using Cons.prems peers by auto
    have d: "distinct services" "sv \<notin> set services" using Cons.prems by simp_all
    note IH = Cons.IH [OF d(1) em nx]
    have Q: "?Q services ?s" using IH by blast
    have "?Q (sv # services) s" using Q by (auto simp: inj peers)
    moreover have "?P (sv # services) s k i" if "i < length (sv # services)"
    proof (cases i)
      case 0
      have "map_of (ps_peers (fold (alloc_service base (group_cards cards)) services ?s)) sv = map_of (ps_peers ?s) sv"
        "\<And>m. map_of (ps_injector (fold (alloc_service base (group_cards cards)) services ?s)) (m, sv) = map_of (ps_injector ?s) (m, sv)"
        using Q d(2) by blast+
      then show ?thesis using 0 Cons.prems(3) by (simp add: inj peers)
    next
      case (Suc j)
      then show ?thesis using IH [of j] that by (simp add: algebra_simps)
    qed
    ultimately show ?case by blast
  qed simp
  then show "\<forall>m \<in> set keys. map_of (ps_injector (fold (alloc_service base (group_cards cards)) services s)) (m, services ! i) =
           Some (base + int ((k + i) * node_size cards m))"
    "map_of (ps_peers (fold (alloc_service base (group_cards cards)) services s)) (services ! i) =
           Some (map (\<lambda>m. peer_entry m (port_block (base + int ((k + i) * node_size cards m)) (node_size cards m))) keys)"
    "?Q services s"
    using assms(5) by blast+
qed

subsection \<open>The plan\<close>

lemma service_order_distinct: "distinct (service_order with_probe)"
  by (simp add: service_order_def SERVICE_ORDER_def PROBE_SERVICE_def)

lemma map_of_zip_block: "distinct xs \<Longrightarrow> i < length xs \<Longrightarrow> map_of (zip xs (port_block a (length xs))) (xs ! i) = Some (a + int i)"
  using map_of_zip_nth [of xs "port_block a (length xs)" i] by (simp add: port_block_nth)

lemma map_of_const: "map_of (map (\<lambda>v. (v, c)) xs) k = (if k \<in> set xs then Some c else None)"
  by (induction xs) auto

lemma plan_shape:
  assumes "plan_cluster cards sb nb wp = Inr p" "i < length (service_order wp)"
  shows "cp_nodes p = group_cards cards"
    and "map_of (cp_server_port p) (service_order wp ! i) = Some (sb + int i)"
    and "\<forall>m \<in> node_key ` set cards. map_of (cp_injector_base p) (m, service_order wp ! i) = Some (nb + int (i * node_size cards m))"
    and "map_of (cp_peers p) (service_order wp ! i) =
           Some (map (\<lambda>m. peer_entry m (service_ports p cards m (service_order wp ! i))) (sort (map fst (group_cards cards))))"
proof -
  let ?init = "\<lparr> ps_alloc = [], ps_injector = [], ps_peers = map (\<lambda>v. (v, [])) (service_order wp) \<rparr>"
  let ?s = "fold (alloc_service nb (group_cards cards)) (service_order wp) ?init"
  have f: "cp_nodes p = group_cards cards" "cp_injector_base p = ps_injector ?s" "cp_peers p = ps_peers ?s"
    "cp_server_port p = zip (service_order wp) (port_block sb (length (service_order wp)))"
    using assms(1) by (cases "rx_only_ids (group_cards cards)"; auto simp: plan_cluster_def Let_def)+
  have e: "\<forall>sv \<in> set (service_order wp). map_of (ps_peers ?init) sv = Some []"
    by (simp add: map_of_const)
  have a: "\<forall>m \<in> set (sort (map fst (group_cards cards))). next_port nb m (ps_alloc ?init) = nb + int (0 * node_size cards m)"
    by (simp add: next_port_def)
  note closed = alloc_services [OF service_order_distinct e a assms(2)]
  show "cp_nodes p = group_cards cards" by (rule f(1))
  show "map_of (cp_server_port p) (service_order wp ! i) = Some (sb + int i)"
    using map_of_zip_block [OF service_order_distinct assms(2)] f(4) by simp
  show inj: "\<forall>m \<in> node_key ` set cards. map_of (cp_injector_base p) (m, service_order wp ! i) = Some (nb + int (i * node_size cards m))"
    using closed(1) unfolding f set_sort group_cards_keys by simp
  have "service_ports p cards m (service_order wp ! i) = port_block (nb + int (i * node_size cards m)) (node_size cards m)"
    if "m \<in> set (sort (map fst (group_cards cards)))" for m
    using inj that group_cards_keys [of cards] by (auto simp: service_ports_def)
  then show "map_of (cp_peers p) (service_order wp ! i) =
           Some (map (\<lambda>m. peer_entry m (service_ports p cards m (service_order wp ! i))) (sort (map fst (group_cards cards))))"
    using closed(2) unfolding f by (simp cong: map_cong)
qed

lemma service_ports_closed:
  assumes "plan_cluster cards sb nb wp = Inr p" "i < length (service_order wp)" "m \<in> node_key ` set cards"
  shows "service_ports p cards m (service_order wp ! i) = port_block (nb + int (i * node_size cards m)) (node_size cards m)"
  using plan_shape(3) [OF assms(1,2)] assms(3) by (auto simp: service_ports_def)

lemma blocks_disjoint: "i \<noteq> j \<Longrightarrow> set (port_block (b + int (i * n)) n) \<inter> set (port_block (b + int (j * n)) n) = {}" for i j n :: nat
proof -
  have *: "i * n + n \<le> j * n" if "i < j" for i j :: nat
    using mult_le_mono1 [of "Suc i" j n] that by simp
  have "int (i * n) + int n \<le> int (j * n) \<or> int (j * n) + int n \<le> int (i * n)" if "i \<noteq> j"
    using that * [of i j] * [of j i] by (metis nat_neq_iff of_nat_add of_nat_le_iff)
  then show "i \<noteq> j \<Longrightarrow> ?thesis" by (fastforce simp del: of_nat_mult)
qed

text \<open>Interface identifiers are unique per node and index.\<close>

lemma cluster_wlan_id_inj:
  assumes "cluster_wlan_id h i = Inr x" "cluster_wlan_id g j = Inr x" "i < 2 ^ 24" "j < 2 ^ 24"
  shows "node_ipv4_int h = node_ipv4_int g \<and> i = j"
proof -
  obtain a b where ab: "node_ipv4_int h = Inr a" "node_ipv4_int g = Inr b" "x = push_bit 24 a OR int i" "x = push_bit 24 b OR int j"
    using assms(1,2) by (cases "node_ipv4_int h"; cases "node_ipv4_int g") (auto simp: cluster_wlan_id_def)
  have low: "bit (int k) m \<Longrightarrow> m < 24" if "k < 2 ^ 24" for k m :: nat
  proof (rule ccontr)
    assume "bit (int k) m" "\<not> m < 24"
    then have "(2::nat) ^ 24 \<le> 2 ^ m" by (intro power_increasing) auto
    then have "k < 2 ^ m" using that by linarith
    then show False using \<open>bit (int k) m\<close> by (simp add: bit_iff_odd div_less flip: of_nat_power of_nat_div)
  qed
  have "a = b"
  proof (rule bit_eqI)
    fix m
    have "bit x (m + 24) = bit a m" unfolding ab(3) using low [OF assms(3), of "m + 24"] by (auto simp: bit_or_iff bit_push_bit_iff)
    moreover have "bit x (m + 24) = bit b m" unfolding ab(4) using low [OF assms(4), of "m + 24"] by (auto simp: bit_or_iff bit_push_bit_iff)
    ultimately show "bit a m = bit b m" by simp
  qed
  moreover have "int i = int j"
  proof (rule bit_eqI)
    fix m
    show "bit (int i) m = bit (int j) m"
    proof (cases "m < 24")
      case True
      have "bit x m = bit (int i) m" unfolding ab(3) using True by (simp add: bit_or_iff bit_push_bit_iff)
      moreover have "bit x m = bit (int j) m" unfolding ab(4) using True by (simp add: bit_or_iff bit_push_bit_iff)
      ultimately show ?thesis by simp
    next
      case False
      then show ?thesis using low assms(3,4) by blast
    qed
  qed
  ultimately show ?thesis using ab by simp
qed

subsection \<open>Sessions\<close>

text \<open>A started session is up or about to retry, its delay stays within its bounds, and its reports
  alternate.\<close>

definition session_ok :: "node_session \<Rightarrow> bool" where
  "session_ok s =
     (ns_supervise s \<and> 0 < ns_backoff s \<and> ns_backoff s \<le> ns_max_backoff s \<and>
      ns_backoff s \<le> ns_delay s \<and> ns_delay s \<le> ns_max_backoff s \<and>
      ns_phase s \<noteq> Stopped \<and> ns_alive s = (ns_phase s = Watching) \<and>
      (\<forall>i < length (ns_log s). ns_log s ! i = odd i) \<and> even (length (ns_log s)) = ns_alive s)"

lemma session_ok_start:
  "0 < b \<Longrightarrow> b \<le> m \<Longrightarrow> session_ok (ns_start ok now (NodeSession b m r))"
  by (simp add: session_ok_def ns_start_def ns_watch_head_def ns_spawn_def NodeSession_def)

lemma session_ok_step:
  assumes "session_ok s"
  shows "session_ok (ns_step ev s)"
proof (cases ev)
  case (Ev_exit now)
  then show ?thesis using assms by (auto simp: session_ok_def ns_exit_def nth_append less_Suc_eq split: option.split)
next
  case (Ev_retry ok now)
  have d: "ns_backoff s \<le> min (ns_delay s * 2) (ns_max_backoff s)" using assms by (auto simp: session_ok_def)
  show ?thesis
  proof (cases "ns_phase s = Sleeping")
    case True
    then show ?thesis using Ev_retry assms d
      by (cases ok) (auto simp: session_ok_def ns_retry_def ns_spawn_def Let_def nth_append less_Suc_eq)
  qed (use Ev_retry assms in \<open>simp add: ns_retry_def\<close>)
qed

lemma session_ok_run: "session_ok s \<Longrightarrow> session_ok (fold ns_step evs s)"
  by (induction evs arbitrary: s) (simp_all add: session_ok_step)

text \<open>The delay after \<open>n\<close> failed respawns in a row.\<close>

lemma failed_retries_delay:
  "ns_phase s = Sleeping \<Longrightarrow> ns_supervise s \<Longrightarrow> 0 < ns_delay s \<Longrightarrow> ns_delay s \<le> ns_max_backoff s \<Longrightarrow>
     let t = fold ns_step (map (Ev_retry False) nows) s
     in ns_phase t = Sleeping \<and> ns_delay t = min (ns_delay s * 2 ^ length nows) (ns_max_backoff s)"
proof (induction nows arbitrary: s)
  case (Cons now nows)
  let ?s = "ns_retry False now s"
  have "ns_phase ?s = Sleeping" "ns_supervise ?s" "ns_delay ?s = min (ns_delay s * 2) (ns_max_backoff s)" "ns_max_backoff ?s = ns_max_backoff s"
    using Cons.prems by (simp_all add: ns_retry_def ns_spawn_def Let_def)
  moreover have "min (min (ns_delay s * 2) m * 2 ^ k) m = min (ns_delay s * 2 ^ Suc k) m" if "0 < m" for k m
  proof (cases "ns_delay s * 2 \<le> m")
    case False
    have "(1::real) \<le> 2 ^ k" by simp
    then have k: "m \<le> m * 2 ^ k" using mult_left_mono [of 1 "2 ^ k" m] that by simp
    also have "m * 2 ^ k \<le> ns_delay s * 2 * 2 ^ k" using False by (intro mult_right_mono) auto
    finally have "m \<le> ns_delay s * 2 ^ Suc k" by (simp add: algebra_simps)
    then show ?thesis using False k by (simp add: min_absorb2 del: mult_le_cancel_left1)
  qed (simp add: min_def algebra_simps)
  ultimately show ?case using Cons.IH [of ?s] Cons.prems by (simp add: Let_def)
qed (simp add: Let_def)

section \<open>Properties\<close>

text \<open>Two cards of the station and two of a remote node, one of which only receives.\<close>

definition demo_cards :: "wifi_card list" where
  "demo_cards = [Card JNull (JStr ''wlan0''), Card JNull (JStr ''wlan1''), Card (JStr ''10.0.0.2'') (JStr ''wlan0''),
     (Card (JStr ''10.0.0.2'') (JStr ''wlan1''))\<lparr> txpower_dbm := JStr ''off'' \<rparr>]"

lemma demo_wlan_id: "cluster_wlan_id ''10.0.0.2'' 1 = Inr 2814749800660993"
  by code_simp

lemma demo_plan:
  obtains plan where "plan_cluster demo_cards sb nb with_probe = Inr plan"
proof -
  have "rx_only_ids (group_cards demo_cards) = Inr {2814749800660993}"
    using demo_wlan_id by (simp add: group_cards_def demo_cards_def add_card_def node_key_def rx_only_ids_def is_rx_only_def Card_def enumerate_eq_zip)
  then show ?thesis using that by (simp add: plan_cluster_def Let_def)
qed

lemma cluster_port_facts:
  assumes "plan_cluster cards SERVER_BASE NODE_BASE with_probe = Inr plan"
    and "s \<in> set (service_order with_probe)" "t \<in> set (service_order with_probe)" "node \<in> node_key ` set cards"
  shows "map_of (cp_peers plan) s = Some (map (\<lambda>m. peer_entry m (service_ports plan cards m s)) (sort (map fst (cp_nodes plan))))"
    and "distinct (service_ports plan cards node s) \<and> length (service_ports plan cards node s) = node_size cards node"
    and "s \<noteq> t \<Longrightarrow> set (service_ports plan cards node s) \<inter> set (service_ports plan cards node t) = {}"
    and "s \<noteq> t \<Longrightarrow> map_of (cp_server_port plan) s \<noteq> map_of (cp_server_port plan) t"
    and "\<exists>port. map_of (cp_server_port plan) s = Some port \<and> port \<notin> set (service_ports plan cards node t)"
proof -
  obtain i where i: "i < length (service_order with_probe)" "s = service_order with_probe ! i" using assms(2) by (auto simp: in_set_conv_nth)
  obtain j where j: "j < length (service_order with_probe)" "t = service_order with_probe ! j" using assms(3) by (auto simp: in_set_conv_nth)
  have len: "length (service_order with_probe) \<le> 4" by (simp add: service_order_def SERVICE_ORDER_def)
  note si = plan_shape [OF assms(1) i(1), folded i(2)] service_ports_closed [OF assms(1) i(1) assms(4), folded i(2)]
  note sj = plan_shape(2) [OF assms(1) j(1), folded j(2)] service_ports_closed [OF assms(1) j(1) assms(4), folded j(2)]
  show "map_of (cp_peers plan) s = Some (map (\<lambda>m. peer_entry m (service_ports plan cards m s)) (sort (map fst (cp_nodes plan))))"
    using si(1,4) by simp
  show "distinct (service_ports plan cards node s) \<and> length (service_ports plan cards node s) = node_size cards node"
    unfolding si(5) by (simp add: port_block_def distinct_map inj_on_def)
  show "set (service_ports plan cards node s) \<inter> set (service_ports plan cards node t) = {}" if "s \<noteq> t"
    using blocks_disjoint [of i j] that i j unfolding si(5) sj(2) by blast
  show "map_of (cp_server_port plan) s \<noteq> map_of (cp_server_port plan) t" if "s \<noteq> t"
    using that i j si(2) sj(1) by auto
  show "\<exists>port. map_of (cp_server_port plan) s = Some port \<and> port \<notin> set (service_ports plan cards node t)"
  proof -
    have "int i < 4" "0 \<le> int (j * node_size cards node)" using i(1) len by linarith+
    then show ?thesis using si(2) unfolding sj(2) by (simp add: SERVER_BASE_def NODE_BASE_def del: of_nat_mult)
  qed
qed

text \<open>C36. The ports of a cluster plan do not collide: on every node the injector ports of two
  services are disjoint blocks of one port per card, the aggregator ports of two services differ
  and lie outside every injector block, and the peers handed to the distributor of a service are,
  node by node, exactly that service's injector ports.\<close>

theorem cluster_ports:
  assumes "plan_cluster cards SERVER_BASE NODE_BASE with_probe = Inr plan"
    and "s \<in> set (service_order with_probe)" "t \<in> set (service_order with_probe)" "node \<in> node_key ` set cards"
  shows "map_of (cp_peers plan) s = Some (map (\<lambda>m. peer_entry m (service_ports plan cards m s)) (sort (map fst (cp_nodes plan)))) \<and>
    distinct (service_ports plan cards node s) \<and> length (service_ports plan cards node s) = node_size cards node \<and>
    (s \<noteq> t \<longrightarrow> set (service_ports plan cards node s) \<inter> set (service_ports plan cards node t) = {} \<and>
       map_of (cp_server_port plan) s \<noteq> map_of (cp_server_port plan) t) \<and>
    (\<exists>port. map_of (cp_server_port plan) s = Some port \<and> port \<notin> set (service_ports plan cards node t))"
  using cluster_port_facts [OF assms] by blast

theorem cluster_ports_witness:
  "\<exists>plan. plan_cluster demo_cards SERVER_BASE NODE_BASE True = Inr plan \<and>
     set (service_ports plan demo_cards ''10.0.0.2'' ''mavlink'') \<inter> set (service_ports plan demo_cards ''10.0.0.2'' ''tunnel'') = {}"
proof -
  obtain plan where p: "plan_cluster demo_cards SERVER_BASE NODE_BASE True = Inr plan" using demo_plan .
  have "''10.0.0.2'' \<in> node_key ` set demo_cards" by (simp add: demo_cards_def node_key_def Card_def)
  moreover have "''mavlink'' \<in> set (service_order True)" "''tunnel'' \<in> set (service_order True)" by (simp_all add: service_order_def SERVICE_ORDER_def)
  ultimately show ?thesis using cluster_ports [OF p, of "''mavlink''" "''tunnel''" "''10.0.0.2''"] p by auto
qed

text \<open>C37. The probe service is append-only: switching it on leaves the aggregator ports, the
  injector bases and the peers of the three base services, the nodes and the receive-only cards
  exactly as they were.\<close>

theorem probe_append_only:
  assumes "plan_cluster cards sb nb False = Inr plan"
  shows "\<exists>plan'. plan_cluster cards sb nb True = Inr plan' \<and> cp_nodes plan' = cp_nodes plan \<and> cp_rx_only plan' = cp_rx_only plan \<and>
     (\<forall>s \<in> set SERVICE_ORDER.
        map_of (cp_server_port plan') s = map_of (cp_server_port plan) s \<and>
        (\<forall>node \<in> node_key ` set cards. map_of (cp_injector_base plan') (node, s) = map_of (cp_injector_base plan) (node, s)) \<and>
        map_of (cp_peers plan') s = map_of (cp_peers plan) s)"
proof -
  obtain ids where ids: "rx_only_ids (group_cards cards) = Inr ids" "cp_rx_only plan = ids"
    using assms by (cases "rx_only_ids (group_cards cards)") (auto simp: plan_cluster_def Let_def)
  then obtain plan' where p: "plan_cluster cards sb nb True = Inr plan'" "cp_rx_only plan' = ids"
    by (simp add: plan_cluster_def Let_def)
  have "map_of (cp_server_port plan') s = map_of (cp_server_port plan) s \<and>
      (\<forall>node \<in> node_key ` set cards. map_of (cp_injector_base plan') (node, s) = map_of (cp_injector_base plan) (node, s)) \<and>
      map_of (cp_peers plan') s = map_of (cp_peers plan) s" if "s \<in> set SERVICE_ORDER" for s
  proof -
    obtain i where "i < length SERVICE_ORDER" "s = SERVICE_ORDER ! i" using \<open>s \<in> set SERVICE_ORDER\<close> by (auto simp: in_set_conv_nth)
    then have i: "i < length (service_order wp)" "service_order wp ! i = s" for wp by (simp_all add: service_order_def nth_append)
    note a = plan_shape [OF assms i(1), unfolded i(2)] and b = plan_shape [OF p(1) i(1), unfolded i(2)]
    have "map (\<lambda>m. peer_entry m (service_ports plan' cards m s)) (sort (map fst (group_cards cards))) =
        map (\<lambda>m. peer_entry m (service_ports plan cards m s)) (sort (map fst (group_cards cards)))"
      using a(3) b(3) group_cards_keys [of cards] by (intro map_cong) (auto simp: service_ports_def)
    then show ?thesis using a b by simp
  qed
  moreover have "cp_nodes plan' = cp_nodes plan"
    using assms p(1) ids by (auto simp: plan_cluster_def Let_def)
  ultimately show ?thesis using p ids by blast
qed

theorem probe_append_only_witness:
  "\<exists>plan plan'. plan_cluster demo_cards SERVER_BASE NODE_BASE False = Inr plan \<and> plan_cluster demo_cards SERVER_BASE NODE_BASE True = Inr plan' \<and>
     map_of (cp_peers plan') ''tunnel'' = map_of (cp_peers plan) ''tunnel''"
proof -
  obtain plan where p: "plan_cluster demo_cards SERVER_BASE NODE_BASE False = Inr plan" using demo_plan .
  have "''tunnel'' \<in> set SERVICE_ORDER" by (simp add: SERVICE_ORDER_def)
  then show ?thesis using probe_append_only [OF p] p by blast
qed

lemma node_session_facts:
  assumes "0 < b" "b \<le> m" "s = fold ns_step evs (ns_start ok now (NodeSession b m r))"
  shows "ns_alive s = (ns_phase s = Watching) \<and> ns_phase s \<noteq> Stopped"
    and "b \<le> ns_delay s \<and> ns_delay s \<le> m"
    and "\<forall>i < length (ns_log s). ns_log s ! i = odd i"
    and "ns_phase s = Sleeping \<Longrightarrow> ns_alive (ns_retry True t s)"
    and "ns_phase s = Sleeping \<Longrightarrow> ns_delay (fold ns_step (map (Ev_retry False) ts) s) = min (ns_delay s * 2 ^ length ts) m"
proof -
  have ok: "session_ok s" using session_ok_run session_ok_start assms by blast
  have "ns_backoff (ns_step ev u) = ns_backoff u \<and> ns_max_backoff (ns_step ev u) = ns_max_backoff u" for ev u
    by (cases ev) (auto simp: ns_exit_def ns_retry_def ns_spawn_def Let_def)
  then have c: "ns_backoff (fold ns_step evs u) = ns_backoff u \<and> ns_max_backoff (fold ns_step evs u) = ns_max_backoff u" for u
    by (induction evs arbitrary: u) auto
  then have bm: "ns_backoff s = b" "ns_max_backoff s = m"
    unfolding assms(3) by (auto simp: ns_start_def ns_watch_head_def ns_spawn_def NodeSession_def)
  show "ns_alive s = (ns_phase s = Watching) \<and> ns_phase s \<noteq> Stopped" "b \<le> ns_delay s \<and> ns_delay s \<le> m"
    "\<forall>i < length (ns_log s). ns_log s ! i = odd i"
    using ok bm by (auto simp: session_ok_def)
  show "ns_alive (ns_retry True t s)" if "ns_phase s = Sleeping"
    using ok that by (simp add: session_ok_def ns_retry_def ns_spawn_def Let_def)
  show "ns_delay (fold ns_step (map (Ev_retry False) ts) s) = min (ns_delay s * 2 ^ length ts) m" if "ns_phase s = Sleeping"
    using failed_retries_delay [OF that, of ts] ok bm by (simp add: session_ok_def Let_def)
qed

text \<open>C38. A node that cannot be reached degrades and never gives up: after any sequence of process
  exits and respawn attempts a started session is either up or sleeping before another attempt, its
  delay lies between the base and the maximum and doubles with every failure in a row up to that
  maximum, its reports to the engine alternate between down and up, and the next spawn that
  succeeds brings it up.\<close>

theorem node_session_keeps_trying:
  assumes "0 < b" "b \<le> m" "s = fold ns_step evs (ns_start ok now (NodeSession b m r))"
  shows "ns_alive s = (ns_phase s = Watching) \<and> ns_phase s \<noteq> Stopped \<and> b \<le> ns_delay s \<and> ns_delay s \<le> m \<and>
    (\<forall>i < length (ns_log s). ns_log s ! i = odd i) \<and>
    (ns_phase s = Sleeping \<longrightarrow> (\<forall>t. ns_alive (ns_retry True t s)) \<and>
       (\<forall>ts. ns_delay (fold ns_step (map (Ev_retry False) ts) s) = min (ns_delay s * 2 ^ length ts) m))"
  using node_session_facts [OF assms] by blast

theorem node_session_keeps_trying_witness:
  "ns_phase (ns_start False 0 (NodeSession 2 30 None)) = Sleeping \<and>
   ns_delay (fold ns_step (map (Ev_retry False) [2, 6, 14, 30, 60]) (ns_start False 0 (NodeSession 2 30 None))) = 30"
proof
  show p: "ns_phase (ns_start False 0 (NodeSession 2 30 None)) = Sleeping"
    by (simp add: ns_start_def ns_watch_head_def ns_spawn_def NodeSession_def)
  have d: "ns_delay (ns_start False 0 (NodeSession 2 30 None)) = 2"
    by (simp add: ns_start_def ns_watch_head_def ns_spawn_def NodeSession_def)
  show "ns_delay (fold ns_step (map (Ev_retry False) [2, 6, 14, 30, 60]) (ns_start False 0 (NodeSession 2 30 None))) = 30"
    using node_session_keeps_trying [of 2 30 "ns_start False 0 (NodeSession 2 30 None)" "[]" False 0 None] p d
    by (auto dest!: spec [of _ "[2, 6, 14, 30, 60]"])
qed

end
