(* ===== verification/Tunnel.thy ===== *)
theory Tunnel
  imports Agg_Queue Byte_Codec
begin

text \<open>
  \<open>src/gs/fpvdgs/wfb/tunnel.py\<close>: the IP tunnel between the tun device and the radio's unix
  datagram sockets. The state is that of \<open>TunnelService\<close> together with the sockets the process
  holds open (\<open>opened\<close>); sockets are numbered in the order they are created. Sending on an open
  socket emits a datagram; on a closed one the \<open>OSError\<close> is logged and nothing is sent.

  The environment supplies what the kernel answers: whether a \<open>connect\<close> succeeds, what a read
  of the tun device returns, how a write ends, and the clock of the event loop.

  Results: the batch framing splits what it joined and a truncated batch yields a prefix; the
  service interprets \<open>framed_channel\<close>, so the peer receives the packets read from the tun
  device, in order; opening the device under \<open>EBUSY\<close> gives up after a bounded number of tries;
  the keepalive goes to every socket after two silent intervals; no socket leaks.
\<close>

section \<open>Definitions\<close>

subsection \<open>Wire framing\<close>

definition pack_tun :: "bytes \<Rightarrow> bytes res" where
  "pack_tun data = res_bind (pack_be 2 (int (length data))) (\<lambda>h. Inr (h @ data))"

function unpack_batch :: "bytes \<Rightarrow> bytes list" where
  "unpack_batch msg =
     (if msg = [] then []
      else if length msg < 2 then []
      else let pkt_size = nat (be_val (take 2 msg)); body = drop 2 msg
           in if length body < pkt_size then []
              else take pkt_size body # unpack_batch (drop pkt_size body))"
  by pat_completeness auto
termination by (relation "measure length") auto

declare unpack_batch.simps [simp del]

subsection \<open>Opening the tun device\<close>

datatype open_result = Opened | Busy | OpenError

definition TUN_OPEN_RETRY_DELAY_S :: real where "TUN_OPEN_RETRY_DELAY_S = 5 / 100"
definition TUN_OPEN_RETRY_MAX_DELAY_S :: real where "TUN_OPEN_RETRY_MAX_DELAY_S = 1 / 2"
definition TUN_OPEN_RETRY_BUDGET_S :: real where "TUN_OPEN_RETRY_BUDGET_S = 5"

definition next_delay :: "real \<Rightarrow> real" where
  "next_delay delay = min (delay * (3 / 2)) TUN_OPEN_RETRY_MAX_DELAY_S"

text \<open>\<open>factory k\<close> is how the \<open>k\<close>-th attempt ends and \<open>lag k\<close> the time it takes (with the
  oversleep before it). The result carries the number of attempts made.\<close>

partial_function (option) open_loop ::
  "(nat \<Rightarrow> open_result) \<Rightarrow> (nat \<Rightarrow> real) \<Rightarrow> real \<Rightarrow> real \<Rightarrow> real \<Rightarrow> nat \<Rightarrow> (nat \<times> unit res) option" where
  "open_loop factory lag deadline now delay k =
     (case factory k of
        Opened \<Rightarrow> Some (Suc k, Inr ())
      | OpenError \<Rightarrow> Some (Suc k, Inl OSError)
      | Busy \<Rightarrow> if now + lag k \<ge> deadline then Some (Suc k, Inl OSError)
                else open_loop factory lag deadline (now + lag k + delay) (next_delay delay) (Suc k))"

definition open_tun_retrying :: "(nat \<Rightarrow> open_result) \<Rightarrow> (nat \<Rightarrow> real) \<Rightarrow> real \<Rightarrow> (nat \<times> unit res) option" where
  "open_tun_retrying factory lag now =
     open_loop factory lag (now + TUN_OPEN_RETRY_BUDGET_S) now TUN_OPEN_RETRY_DELAY_S 0"

text \<open>The time slept over \<open>m\<close> retries, from a first delay.\<close>

fun slept :: "real \<Rightarrow> nat \<Rightarrow> real" where
  "slept delay 0 = 0"
| "slept delay (Suc m) = delay + slept (next_delay delay) m"

subsection \<open>The service\<close>

type_synonym sock = nat

record tunnel_config =
  ifname :: string
  ifaddr :: string
  mtu :: nat
  agg_timeout :: real
  keepalive_s :: real

definition TunnelConfig :: tunnel_config where
  "TunnelConfig = \<lparr> ifname = ''gs-wfb'', ifaddr = ''10.5.0.1/24'', mtu = 1445,
     agg_timeout = 5 / 1000, keepalive_s = 5 / 100 \<rparr>"

record tunnel =
  cfg :: tunnel_config
  tun :: "nat option" \<comment> \<open>the mtu of the open device\<close>
  agg :: "agg_queue option"
  rx_transport :: bool
  tx_socks :: "(string \<times> sock) list"
  tx_sock_name :: "string option"
  tx_sock :: "sock option"
  pkt_in_sem :: nat
  pkt_out_sem :: nat
  keepalive_handle :: bool
  dropped_tun_writes :: nat
  opened :: "sock list"
  next_sock :: sock

definition new_tunnel :: "tunnel_config \<Rightarrow> tunnel" where
  "new_tunnel c = \<lparr> cfg = c, tun = None, agg = None, rx_transport = False, tx_socks = [],
     tx_sock_name = None, tx_sock = None, pkt_in_sem = 0, pkt_out_sem = 0,
     keepalive_handle = False, dropped_tun_writes = 0, opened = [], next_sock = 0 \<rparr>"

type_synonym datagrams = "(sock \<times> bytes) list"

definition sock_close :: "sock \<Rightarrow> tunnel \<Rightarrow> tunnel" where
  "sock_close s t = t\<lparr> opened := removeAll s (opened t) \<rparr>"

definition sock_send :: "tunnel \<Rightarrow> sock \<Rightarrow> bytes \<Rightarrow> datagrams" where
  "sock_send t s data = (if s \<in> set (opened t) then [(s, data)] else [])"

text \<open>\<open>_connect_tx_socket\<close>: a socket whose \<open>connect\<close> fails is closed again.\<close>

definition connect_tx_socket :: "(string \<Rightarrow> bool) \<Rightarrow> string \<Rightarrow> tunnel \<Rightarrow> tunnel \<times> sock option" where
  "connect_tx_socket conn name t =
     (let s = next_sock t; t1 = t\<lparr> next_sock := Suc s \<rparr>
      in if conn name then (t1\<lparr> opened := opened t1 @ [s] \<rparr>, Some s) else (t1, None))"

fun connect_all :: "(string \<Rightarrow> bool) \<Rightarrow> string list \<Rightarrow> (string \<times> sock) list \<Rightarrow> (string \<times> sock) list \<Rightarrow> tunnel \<Rightarrow>
    tunnel \<times> (string \<times> sock) list \<times> (string \<times> sock) list" where
  "connect_all conn [] old new t = (t, old, new)"
| "connect_all conn (name # names) old new t =
     (let t1 = (case map_of old name of None \<Rightarrow> t | Some s \<Rightarrow> sock_close s t);
          (t2, s) = connect_tx_socket conn name t1
      in connect_all conn names (AList.delete name old)
           (case s of None \<Rightarrow> new | Some s \<Rightarrow> AList.update name s new) t2)"

definition set_all_tx_sockets :: "(string \<Rightarrow> bool) \<Rightarrow> string list \<Rightarrow> tunnel \<Rightarrow> tunnel" where
  "set_all_tx_sockets conn names t =
     (let (t1, old, new) = connect_all conn names (tx_socks t) [] t;
          t2 = fold (\<lambda>(_, s). sock_close s) old t1;
          t3 = t2\<lparr> tx_socks := new \<rparr>
      in case tx_sock_name t3 of
           None \<Rightarrow> t3
         | Some n \<Rightarrow> t3\<lparr> tx_sock := map_of new n,
                        tx_sock_name := (if map_of new n = None then None else Some n) \<rparr>)"

definition set_tx_socket :: "(string \<Rightarrow> bool) \<Rightarrow> string option \<Rightarrow> tunnel \<Rightarrow> tunnel" where
  "set_tx_socket conn nm t = (case nm of
     None \<Rightarrow> t\<lparr> tx_sock_name := None, tx_sock := None \<rparr>
   | Some name \<Rightarrow>
       let t1 = (case map_of (tx_socks t) name of None \<Rightarrow> t | Some s \<Rightarrow> sock_close s t);
           t2 = t1\<lparr> tx_socks := AList.delete name (tx_socks t1) \<rparr>;
           (t3, s) = connect_tx_socket conn name t2
       in case s of None \<Rightarrow> t3
          | Some s \<Rightarrow> t3\<lparr> tx_socks := AList.update name s (tx_socks t3), tx_sock_name := Some name, tx_sock := Some s \<rparr>)"

definition broadcast :: "tunnel \<Rightarrow> bytes \<Rightarrow> datagrams" where
  "broadcast t data = concat (map (\<lambda>(_, s). sock_send t s data) (tx_socks t))"

definition send_to_current_tx :: "tunnel \<Rightarrow> bytes \<Rightarrow> datagrams" where
  "send_to_current_tx t data = (case tx_sock t of None \<Rightarrow> [] | Some s \<Rightarrow> sock_send t s data)"

definition keepalive_tick :: "tunnel \<Rightarrow> tunnel \<times> datagrams" where
  "keepalive_tick t =
     (t\<lparr> pkt_in_sem := (if pkt_in_sem t > 0 then pkt_in_sem t - 1 else pkt_in_sem t),
         pkt_out_sem := (if pkt_out_sem t > 0 then pkt_out_sem t - 1 else pkt_out_sem t) \<rparr>,
      if pkt_in_sem t = 0 then broadcast t []
      else if pkt_out_sem t = 0 then send_to_current_tx t []
      else [])"

text \<open>\<open>_keepalive_loop\<close> and \<open>_schedule_keepalive\<close>: the tick re-arms its own timer.\<close>

definition keepalive_loop :: "tunnel \<Rightarrow> tunnel \<times> datagrams" where
  "keepalive_loop t = (let (t1, out) = keepalive_tick t in (t1\<lparr> keepalive_handle := True \<rparr>, out))"

definition tunnel_start :: "nat \<times> unit res \<Rightarrow> tunnel \<Rightarrow> tunnel res" where
  "tunnel_start opened_tun t = (case snd opened_tun of
     Inl e \<Rightarrow> Inl e
   | Inr _ \<Rightarrow> Inr (t\<lparr> tun := Some (mtu (cfg t) - 2),
       agg := Some (new_agg_queue (Some (mtu (cfg t))) (agg_timeout (cfg t) \<noteq> 0)),
       rx_transport := True, keepalive_handle := True \<rparr>))"

definition tunnel_stop :: "tunnel \<Rightarrow> tunnel \<times> datagrams" where
  "tunnel_stop t =
     (let out = (case agg t of None \<Rightarrow> []
                 | Some q \<Rightarrow> concat (map (send_to_current_tx t) (snd (flush q))));
          t1 = fold (\<lambda>(_, s). sock_close s) (tx_socks t) t
      in (t1\<lparr> keepalive_handle := False, rx_transport := False, agg := None, tx_socks := [],
             tx_sock := None, tx_sock_name := None, tun := None \<rparr>, out))"

subsection \<open>Uplink and downlink\<close>

datatype read_result = ReadData bytes | ReadBlocks | ReadError

definition on_tun_readable :: "read_result \<Rightarrow> tunnel \<Rightarrow> (tunnel \<times> datagrams) \<times> py_exn option" where
  "on_tun_readable r t = (case r of
     ReadBlocks \<Rightarrow> ((t, []), None)
   | ReadError \<Rightarrow> ((t, []), None)
   | ReadData data \<Rightarrow>
       if data = [] then ((t, []), None)
       else let t1 = t\<lparr> pkt_out_sem := 1 \<rparr> in
         case agg t1 of
           None \<Rightarrow> ((t1, []), None)
         | Some q \<Rightarrow> (case pack_tun data of
             Inl e \<Rightarrow> ((t1, []), Some e)
           | Inr msg \<Rightarrow> let (q', out) = put q msg
                         in ((t1\<lparr> agg := Some q' \<rparr>, concat (map (send_to_current_tx t1) out)), None)))"

datatype write_result = Written | WriteBlocks | WriteError

text \<open>\<open>_write_to_tun\<close> for the packets of a batch; \<open>wr k\<close> is how the kernel takes the \<open>k\<close>-th
  packet. Any error but a busy device ends the batch with the exception. Returns the packets
  that reached the device.\<close>

fun write_all_to_tun :: "(nat \<Rightarrow> write_result) \<Rightarrow> nat \<Rightarrow> bytes list \<Rightarrow> tunnel \<Rightarrow> (tunnel \<times> bytes list) \<times> py_exn option" where
  "write_all_to_tun wr k [] t = ((t, []), None)"
| "write_all_to_tun wr k (pkt # pkts) t =
     (if tun t = None then write_all_to_tun wr (Suc k) pkts t
      else case wr k of
        Written \<Rightarrow> let ((t', ps), e) = write_all_to_tun wr (Suc k) pkts t in ((t', pkt # ps), e)
      | WriteBlocks \<Rightarrow> write_all_to_tun wr (Suc k) pkts (t\<lparr> dropped_tun_writes := Suc (dropped_tun_writes t) \<rparr>)
      | WriteError \<Rightarrow> ((t, []), Some OSError))"

definition on_rx_batch :: "(nat \<Rightarrow> write_result) \<Rightarrow> bytes \<Rightarrow> tunnel \<Rightarrow> (tunnel \<times> bytes list) \<times> py_exn option" where
  "on_rx_batch wr data t =
     (let t1 = t\<lparr> pkt_in_sem := 2 \<rparr>
      in if data = [] then ((t1, []), None) else write_all_to_tun wr 0 (unpack_batch data) t1)"

text \<open>The aggregation timer expires.\<close>

definition agg_timer :: "tunnel \<Rightarrow> tunnel \<times> datagrams" where
  "agg_timer t = (case agg t of None \<Rightarrow> (t, [])
     | Some q \<Rightarrow> let (q', out) = fire q in (t\<lparr> agg := Some q' \<rparr>, concat (map (send_to_current_tx t) out)))"

subsection \<open>Runs\<close>

datatype tun_event = TunReadable read_result | AggTimer | KeepaliveTimer | RxBatch "nat \<Rightarrow> write_result" bytes

fun tun_step :: "tunnel \<Rightarrow> tun_event \<Rightarrow> tunnel \<times> datagrams" where
  "tun_step t (TunReadable r) = fst (on_tun_readable r t)"
| "tun_step t AggTimer = agg_timer t"
| "tun_step t KeepaliveTimer = keepalive_loop t"
| "tun_step t (RxBatch wr data) = (fst (fst (on_rx_batch wr data t)), [])"

text \<open>What one step puts on the socket that is current, and a run of such steps.\<close>

definition up_step :: "tunnel \<Rightarrow> tun_event \<Rightarrow> tunnel \<times> bytes list" where
  "up_step t e = (let (t', out) = tun_step t e
     in (t', map snd (filter (\<lambda>(s, _). Some s = tx_sock t) out)))"

fun up_run :: "tunnel \<Rightarrow> tun_event list \<Rightarrow> tunnel \<times> bytes list" where
  "up_run t [] = (t, [])"
| "up_run t (e # es) = (let (t1, o1) = up_step t e; (t2, o2) = up_run t1 es in (t2, o1 @ o2))"

definition up_inv :: "tunnel \<Rightarrow> bool" where
  "up_inv t = (\<exists>q s. agg t = Some q \<and> aggq_inv q \<and> max_size q = Some (mtu (cfg t)) \<and> timeout_on q \<and>
     tx_sock t = Some s \<and> s \<in> set (opened t) \<and> 2 \<le> mtu (cfg t) \<and> mtu (cfg t) < 65536)"

definition up_waiting :: "tunnel \<Rightarrow> bytes list" where
  "up_waiting t = (case agg t of None \<Rightarrow> [] | Some q \<Rightarrow> queue q)"

text \<open>The packets an event hands to the tunnel: what was read, if it is not empty and fits.\<close>

definition up_sent :: "tunnel \<Rightarrow> tun_event \<Rightarrow> bytes list" where
  "up_sent t e = (case e of TunReadable (ReadData d) \<Rightarrow>
     if d \<noteq> [] \<and> length d + 2 \<le> mtu (cfg t) \<and> length d < 65536 then [d] else [] | _ \<Rightarrow> [])"

definition frame :: "bytes \<Rightarrow> bytes" where
  "frame d = be_bytes 2 (int (length d)) @ d"

definition ticks :: "tun_event list \<Rightarrow> nat" where
  "ticks es = length (filter (\<lambda>e. case e of KeepaliveTimer \<Rightarrow> True | _ \<Rightarrow> False) es)"

definition no_rx :: "tun_event list \<Rightarrow> bool" where
  "no_rx es = list_all (\<lambda>e. case e of RxBatch _ _ \<Rightarrow> False | _ \<Rightarrow> True) es"

datatype sock_op = SetAll "string \<Rightarrow> bool" "string list" | SetOne "string \<Rightarrow> bool" "string option"

fun sock_step :: "tunnel \<Rightarrow> sock_op \<Rightarrow> tunnel" where
  "sock_step t (SetAll conn names) = set_all_tx_sockets conn names t"
| "sock_step t (SetOne conn nm) = set_tx_socket conn nm t"

definition sock_op_ok :: "sock_op \<Rightarrow> bool" where
  "sock_op_ok e = (case e of SetAll _ names \<Rightarrow> distinct names | _ \<Rightarrow> True)"

text \<open>Every open socket is one of the registered ones, once, and the current one is among them.\<close>

definition sockets_inv :: "tunnel \<Rightarrow> bool" where
  "sockets_inv t = (set (opened t) = set (map snd (tx_socks t)) \<and> distinct (map fst (tx_socks t)) \<and>
     distinct (map snd (tx_socks t)) \<and> (\<forall>s \<in> set (opened t). s < next_sock t))"

section \<open>Framing\<close>

lemma pack_tun_frame: "length d < 65536 \<Longrightarrow> pack_tun d = Inr (frame d)"
  by (simp add: pack_tun_def pack_be_def frame_def)

lemma pack_tun_error: "65536 \<le> length d \<Longrightarrow> pack_tun d = Inl StructError"
  by (simp add: pack_tun_def pack_be_def)

lemma length_frame [simp]: "length (frame d) = length d + 2"
  by (simp add: frame_def)

lemma frame_header: "length d < 65536 \<Longrightarrow> nat (be_val (take 2 (frame d @ rest))) = length d"
  by (simp add: frame_def be_val_be_bytes_id del: be_bytes.simps)

lemma unpack_batch_Nil [simp]: "unpack_batch [] = []"
  by (simp add: unpack_batch.simps)

lemma unpack_frame_append:
  assumes "length d < 65536"
  shows "unpack_batch (frame d @ rest) = d # unpack_batch rest"
proof -
  have l: "\<not> length (frame d @ rest) < 2" by simp
  then have "frame d @ rest \<noteq> []" by force
  moreover note l
  moreover have "drop 2 (frame d @ rest) = d @ rest" by (simp add: frame_def del: be_bytes.simps)
  ultimately show ?thesis
    using frame_header [OF assms, of rest] by (subst unpack_batch.simps) (simp add: Let_def)
qed

lemma unpack_frames:
  "list_all (\<lambda>d. length d < 65536) ds \<Longrightarrow> unpack_batch (concat (map frame ds)) = ds"
  by (induction ds) (simp_all add: unpack_frame_append)

text \<open>Cutting a batch anywhere loses packets only at its end.\<close>

lemma unpack_truncated: "\<exists>rest. unpack_batch msg = unpack_batch (take k msg) @ rest"
proof (induction msg arbitrary: k rule: unpack_batch.induct)
  case (1 msg)
  let ?n = "nat (be_val (take 2 msg))"
  show ?case
  proof (cases "length (take k msg) < 2 \<or> length (drop 2 (take k msg)) < nat (be_val (take 2 (take k msg)))")
    case True
    then have "unpack_batch (take k msg) = []"
      by (subst unpack_batch.simps) (auto simp: Let_def)
    then show ?thesis by simp
  next
    case False
    then have k: "2 \<le> k" "2 \<le> length msg" by auto
    then have t: "take 2 (take k msg) = take 2 msg" by simp
    have body: "drop 2 (take k msg) = take (k - 2) (drop 2 msg)" by (simp add: drop_take)
    have len: "?n \<le> k - 2" "?n \<le> length (drop 2 msg)" using False t by auto
    have m: "unpack_batch msg = take ?n (drop 2 msg) # unpack_batch (drop ?n (drop 2 msg))"
      using k len by (subst unpack_batch.simps) (auto simp: Let_def)
    have u: "unpack_batch (take k msg) = take ?n (drop 2 msg) # unpack_batch (take (k - 2 - ?n) (drop ?n (drop 2 msg)))"
      using False k len t body
      by (subst unpack_batch.simps) (auto simp: Let_def drop_take min_def)
    have "\<exists>rest. unpack_batch (drop ?n (drop 2 msg)) =
        unpack_batch (take (k - 2 - ?n) (drop ?n (drop 2 msg))) @ rest"
      using k len by (intro 1) auto
    then show ?thesis using m u by auto
  qed
qed

section \<open>The uplink as a framed channel\<close>

lemma send_current: "tx_sock t = Some s \<Longrightarrow> s \<in> set (opened t) \<Longrightarrow> send_to_current_tx t d = [(s, d)]"
  by (simp add: send_to_current_tx_def sock_send_def)

lemma sent_on_current:
  assumes "tx_sock t = Some s" "s \<in> set (opened t)"
  shows "map snd (filter (\<lambda>(u, _). Some u = tx_sock t) (concat (map (send_to_current_tx t) out))) = out"
  using assms by (induction out) (simp_all add: send_current)

text \<open>Keepalives are empty datagrams.\<close>

lemma keepalive_empty: "(s, d) \<in> set (snd (keepalive_loop t)) \<Longrightarrow> d = []"
  by (auto simp: keepalive_loop_def keepalive_tick_def broadcast_def send_to_current_tx_def sock_send_def
      split: if_splits option.splits)

lemma write_all_keeps:
  "let t' = fst (fst (write_all_to_tun wr k pkts t)) in
     cfg t' = cfg t \<and> agg t' = agg t \<and> tx_sock t' = tx_sock t \<and> opened t' = opened t"
proof (induction pkts arbitrary: k t)
  case (Cons p pkts)
  show ?case
    using Cons [of "Suc k" t] Cons [of "Suc k" "t\<lparr> dropped_tun_writes := Suc (dropped_tun_writes t) \<rparr>"]
    by (cases "wr k") (simp_all add: Let_def case_prod_beta)
qed simp

lemma up_inv_agg:
  assumes "up_inv t"
  obtains q s where "agg t = Some q" "aggq_inv q" "max_size q = Some (mtu (cfg t))" "timeout_on q"
    "tx_sock t = Some s" "s \<in> set (opened t)" "2 \<le> mtu (cfg t)" "mtu (cfg t) < 65536"
  using assms by (auto simp: up_inv_def)

text \<open>One law for every operation of the aggregation queue: the batches it sends are the ones
  that leave on the current socket.\<close>

lemma up_agg_op:
  assumes inv: "up_inv t" and q: "agg t = Some q" and op: "agg_op_step q e = (q', out)"
    and t': "agg t' = Some q'" "cfg t' = cfg t" "tx_sock t' = tx_sock t" "opened t' = opened t"
  shows "up_inv t' \<and> (\<exists>batches. out = map concat batches \<and> concat batches @ up_waiting t' = up_waiting t @ queued_by q e)"
proof -
  obtain s where s: "aggq_inv q" "max_size q = Some (mtu (cfg t))" "timeout_on q" "tx_sock t = Some s"
    "s \<in> set (opened t)" "2 \<le> mtu (cfg t)" "mtu (cfg t) < 65536"
    using inv q by (elim up_inv_agg) auto
  have "aggq_inv q'" using agg_op_laws [OF s(1) op] by simp
  moreover have "max_size q' = Some (mtu (cfg t)) \<and> timeout_on q'" using agg_op_bound [OF s(1-3) op] by simp
  ultimately have "up_inv t'" using s t' by (auto simp: up_inv_def)
  then show ?thesis using agg_op_laws [OF s(1) op] t' q by (auto simp: up_waiting_def)
qed

text \<open>Steps that leave the queue alone and emit only empty datagrams.\<close>

lemma up_quiet:
  assumes "up_inv t" "agg t' = agg t" "cfg t' = cfg t" "tx_sock t' = tx_sock t" "opened t' = opened t"
    and "\<forall>d \<in> set out. d = []"
  shows "up_inv t' \<and> (\<exists>batches. out = map concat batches \<and> concat batches @ up_waiting t' = up_waiting t @ [])"
proof -
  have "out = map concat (map (\<lambda>_. []) out)" using assms(6) by (induction out) auto
  moreover have "concat (map (\<lambda>_. []) out) @ up_waiting t' = up_waiting t" using assms by (simp add: up_waiting_def)
  ultimately show ?thesis using assms unfolding up_inv_def by force
qed

lemma up_step_read:
  assumes inv: "up_inv t" and step: "up_step t (TunReadable (ReadData d)) = (t', out)"
  shows "cfg t' = cfg t \<and> up_inv t' \<and> (\<exists>batches. out = map concat batches \<and>
    concat batches @ up_waiting t' = up_waiting t @ map frame (up_sent t (TunReadable (ReadData d))))"
proof -
  obtain q s where q: "agg t = Some q" "max_size q = Some (mtu (cfg t))" "timeout_on q"
    "tx_sock t = Some s" "s \<in> set (opened t)" "2 \<le> mtu (cfg t)" "mtu (cfg t) < 65536"
    using inv by (elim up_inv_agg) auto
  consider "d = []" | "65536 \<le> length d" | "d \<noteq> []" "length d < 65536" by fastforce
  then show ?thesis
  proof cases
    case 1
    then have "t' = t" "out = []" using step by (auto simp: up_step_def on_tun_readable_def)
    then show ?thesis using 1 up_quiet [OF inv, of t "[]"] by (simp add: up_sent_def)
  next
    case 2
    then have "d \<noteq> []" by auto
    then have "t' = t\<lparr> pkt_out_sem := 1 \<rparr>" "out = []"
      using step q pack_tun_error [OF 2] by (auto simp: up_step_def on_tun_readable_def Let_def)
    then show ?thesis using 2 up_quiet [OF inv, of "t\<lparr> pkt_out_sem := 1 \<rparr>" "[]"] by (simp add: up_sent_def)
  next
    case 3
    let ?t1 = "t\<lparr> pkt_out_sem := 1 \<rparr>"
    obtain q' o1 where put: "put q (frame d) = (q', o1)" by fastforce
    have s1: "tx_sock ?t1 = Some s" "s \<in> set (opened ?t1)" using q by simp_all
    have "t' = ?t1\<lparr> agg := Some q' \<rparr>" and "out = o1"
      using step 3 q put sent_on_current [OF s1, of o1]
      by (auto simp: up_step_def on_tun_readable_def pack_tun_frame Let_def)
    moreover have "queued_by q (Put (frame d)) = map frame (up_sent t (TunReadable (ReadData d)))"
      using 3 q by (simp add: queued_by_def accepts_def up_sent_def)
    ultimately show ?thesis
      using up_agg_op [OF inv q(1), of "Put (frame d)" q' o1 t'] put by simp
  qed
qed

lemma up_step_timer:
  assumes inv: "up_inv t" and step: "up_step t AggTimer = (t', out)"
  shows "cfg t' = cfg t \<and> up_inv t' \<and> (\<exists>batches. out = map concat batches \<and>
    concat batches @ up_waiting t' = up_waiting t)"
proof -
  obtain q s where q: "agg t = Some q" "tx_sock t = Some s" "s \<in> set (opened t)"
    using inv by (elim up_inv_agg) auto
  obtain q' o1 where f: "fire q = (q', o1)" by fastforce
  have "t' = t\<lparr> agg := Some q' \<rparr>" and "out = o1"
    using step q f sent_on_current [OF q(2,3), of o1] by (auto simp: up_step_def agg_timer_def Let_def)
  then show ?thesis using up_agg_op [OF inv q(1), of Fire q' o1 t'] f by (simp add: queued_by_def)
qed

lemma up_step_quiet:
  assumes inv: "up_inv t" and step: "up_step t e = (t', out)"
    and e: "e = KeepaliveTimer \<or> (\<exists>wr d. e = RxBatch wr d) \<or> e = TunReadable ReadBlocks \<or> e = TunReadable ReadError"
  shows "cfg t' = cfg t \<and> up_inv t' \<and> (\<exists>batches. out = map concat batches \<and>
    concat batches @ up_waiting t' = up_waiting t)"
proof -
  have k: "agg t' = agg t \<and> cfg t' = cfg t \<and> tx_sock t' = tx_sock t \<and> opened t' = opened t \<and> (\<forall>d \<in> set out. d = [])"
    using e
  proof (elim disjE exE)
    assume "e = KeepaliveTimer"
    then show ?thesis
      using step keepalive_empty [of _ _ t]
      by (fastforce simp: up_step_def keepalive_loop_def keepalive_tick_def Let_def)
  next
    fix wr d assume "e = RxBatch wr d"
    then show ?thesis
      using step write_all_keeps [of wr 0 "unpack_batch d" "t\<lparr> pkt_in_sem := 2 \<rparr>"]
      by (auto simp: up_step_def on_rx_batch_def Let_def)
  qed (use step in \<open>auto simp: up_step_def on_tun_readable_def\<close>)
  then show ?thesis using up_quiet [OF inv, of t' out] by simp
qed

lemma up_step_laws:
  assumes "up_inv t" "up_step t e = (t', out)"
  shows "cfg t' = cfg t \<and> up_inv t' \<and> (\<exists>batches. out = map concat batches \<and>
    concat batches @ up_waiting t' = up_waiting t @ map frame (up_sent t e))"
proof (cases e)
  case (TunReadable r)
  then show ?thesis
  proof (cases r)
    case (ReadData d)
    then show ?thesis using up_step_read assms TunReadable by blast
  qed (use up_step_quiet [OF assms] TunReadable in \<open>simp_all add: up_sent_def\<close>)
next
  case AggTimer
  then show ?thesis using up_step_timer [of t t' out] assms by (simp add: up_sent_def)
qed (use up_step_quiet [OF assms] in \<open>simp_all add: up_sent_def\<close>)

interpretation uplink: framed_channel up_step up_run up_inv up_waiting "\<lambda>t e. map frame (up_sent t e)"
  frame unpack_batch "\<lambda>d. length d < 65536" up_sent
proof
  show "up_inv t' \<and> (\<forall>x. map frame (up_sent t' x) = map frame (up_sent t x))"
    if "up_inv t" "up_step t e = (t', out)" for t e t' out
  proof -
    have "cfg t' = cfg t" "up_inv t'" using up_step_laws [OF that] by auto
    then show ?thesis by (simp add: up_sent_def split: tun_event.split read_result.split)
  qed
  show "\<exists>batches. out = map concat batches \<and> concat batches @ up_waiting t' = up_waiting t @ map frame (up_sent t e)"
    if "up_inv t" "up_step t e = (t', out)" for t e t' out
    using up_step_laws [OF that] by simp
  show "list_all (\<lambda>d. length d < 65536) (up_sent t e)" for t e
    by (simp add: up_sent_def split: tun_event.split read_result.split)
qed (simp_all add: unpack_frames)

section \<open>Opening the device\<close>

lemma open_loop_ends:
  assumes "\<forall>k. 0 \<le> lag k"
  shows "deadline \<le> now + slept delay m \<Longrightarrow>
    \<exists>n r. open_loop factory lag deadline now delay k = Some (Suc n, r) \<and> k \<le> n \<and> n \<le> k + m \<and>
      (\<forall>i. k \<le> i \<and> i < n \<longrightarrow> factory i = Busy) \<and> (r = Inr () \<longleftrightarrow> factory n = Opened)"
proof (induction m arbitrary: now delay k)
  case 0
  then have "deadline \<le> now + lag k" using assms by (simp add: add_increasing2)
  then show ?case
    by (subst open_loop.simps) (cases "factory k"; auto)
next
  case (Suc m)
  show ?case
  proof (cases "factory k = Busy \<and> now + lag k < deadline")
    case True
    have "deadline \<le> (now + lag k + delay) + slept (next_delay delay) m"
      using Suc.prems assms [rule_format, of k] by simp
    from Suc.IH [OF this, of "Suc k"] obtain n r where
      n: "open_loop factory lag deadline (now + lag k + delay) (next_delay delay) (Suc k) = Some (Suc n, r)"
        "Suc k \<le> n" "n \<le> Suc k + m" "\<forall>i. Suc k \<le> i \<and> i < n \<longrightarrow> factory i = Busy"
        "r = Inr () \<longleftrightarrow> factory n = Opened"
      by blast
    have "\<forall>i. k \<le> i \<and> i < n \<longrightarrow> factory i = Busy"
      using n(4) True by (metis Suc_leI le_neq_implies_less)
    then show ?thesis
      using n True by (intro exI [of _ n] exI [of _ r]) (subst open_loop.simps, simp)
  next
    case False
    then show ?thesis by (subst open_loop.simps) (cases "factory k"; auto)
  qed
qed

section \<open>Keepalive\<close>

lemma tun_step_in_sem:
  "case e of RxBatch _ _ \<Rightarrow> False | _ \<Rightarrow> True \<Longrightarrow>
     pkt_in_sem (fst (tun_step t e)) = pkt_in_sem t - ticks [e]"
  by (cases e) (auto simp: on_tun_readable_def agg_timer_def keepalive_loop_def keepalive_tick_def ticks_def Let_def
      split: read_result.split option.split sum.split prod.split)

lemma pkt_in_sem_run:
  "no_rx es \<Longrightarrow> pkt_in_sem (foldl (\<lambda>t e. fst (tun_step t e)) t es) = pkt_in_sem t - ticks es"
proof (induction es arbitrary: t)
  case (Cons e es)
  then have "case e of RxBatch _ _ \<Rightarrow> False | _ \<Rightarrow> True" "no_rx es" by (simp_all add: no_rx_def)
  then have "pkt_in_sem (fst (tun_step t e)) = pkt_in_sem t - ticks [e]"
    and "pkt_in_sem (foldl (\<lambda>t e. fst (tun_step t e)) (fst (tun_step t e)) es) =
      pkt_in_sem (fst (tun_step t e)) - ticks es"
    using tun_step_in_sem Cons.IH by blast+
  moreover have "ticks (e # es) = ticks [e] + ticks es" by (simp add: ticks_def)
  ultimately show ?case by simp
qed (simp add: ticks_def)

lemma write_all_in_sem: "pkt_in_sem (fst (fst (write_all_to_tun wr k pkts t))) = pkt_in_sem t"
proof (induction pkts arbitrary: k t)
  case (Cons p pkts)
  show ?case by (cases "wr k") (simp_all add: Let_def case_prod_beta Cons)
qed simp

section \<open>Sockets\<close>

lemma snd_delete:
  assumes "distinct (map fst al)" "distinct (map snd al)" "map_of al k = Some v"
  shows "snd ` set (AList.delete k al) = snd ` set al - {v}"
proof -
  have "(k, v) \<in> set al" using assms(3) by (rule map_of_SomeD)
  then have "\<And>p. p \<in> set al \<Longrightarrow> fst p = k \<longleftrightarrow> snd p = v"
    using assms(1,2) unfolding distinct_map inj_on_def by (metis fst_conv snd_conv)
  then show ?thesis by (auto simp: set_alist_delete)
qed

lemma opened_fold_close: "set (opened (fold (\<lambda>(_, s). sock_close s) al t)) = set (opened t) - snd ` set al"
  by (induction al arbitrary: t) (auto simp: sock_close_def)

lemma next_fold_close: "next_sock (fold (\<lambda>(_, s). sock_close s) al t) = next_sock t"
  by (induction al arbitrary: t) (auto simp: sock_close_def)

text \<open>Closing the socket registered under a name, as both reconnect operations begin.\<close>

lemma close_registered:
  assumes "distinct (map fst old)" "distinct (map snd (old @ new))" "set (opened t) = snd ` set (old @ new)"
    and t1: "t1 = (case map_of old name of None \<Rightarrow> t | Some s \<Rightarrow> sock_close s t)"
  shows "set (opened t1) = snd ` set (AList.delete name old @ new)" "distinct (map fst (AList.delete name old))"
    "distinct (map snd (AList.delete name old @ new))" "next_sock t1 = next_sock t" "tx_socks t1 = tx_socks t"
proof -
  show "distinct (map fst (AList.delete name old))" using assms(1) by (rule distinct_delete)
  have "set (AList.delete name old) \<subseteq> set old" by (auto simp: set_alist_delete)
  moreover have "distinct (map snd (AList.delete name old))"
    using assms(2) by (simp add: AList.delete_eq distinct_map_filter)
  ultimately show "distinct (map snd (AList.delete name old @ new))" using assms(2) by auto
  show "next_sock t1 = next_sock t" "tx_socks t1 = tx_socks t"
    by (simp_all add: t1 sock_close_def split: option.split)
  show "set (opened t1) = snd ` set (AList.delete name old @ new)"
  proof (cases "map_of old name")
    case None
    then have "name \<notin> fst ` set old" by (simp add: map_of_eq_None_iff)
    then show ?thesis using assms(3) None t1 by simp
  next
    case (Some s)
    have "s \<notin> snd ` set new" using assms(2) map_of_SomeD [OF Some] by force
    then show ?thesis
      using Some snd_delete [OF assms(1) _ Some] assms(2,3) t1 by (auto simp: sock_close_def)
  qed
qed

text \<open>The invariant of the reconnect loop: what is open is what is registered, old or new.\<close>

lemma connect_all_inv:
  assumes "connect_all conn names old new t = (t', old', new')"
    and "distinct names" "set names \<inter> fst ` set new = {}"
    and "distinct (map fst old)" "distinct (map fst new)" "distinct (map snd (old @ new))"
    and "set (opened t) = snd ` set (old @ new)" "\<forall>s \<in> set (opened t). s < next_sock t"
  shows "distinct (map fst new') \<and> distinct (map snd (old' @ new')) \<and>
    set (opened t') = snd ` set (old' @ new') \<and> (\<forall>s \<in> set (opened t'). s < next_sock t')"
  using assms
proof (induction names arbitrary: old new t)
  case (Cons name names)
  let ?t1 = "case map_of old name of None \<Rightarrow> t | Some s \<Rightarrow> sock_close s t"
  let ?old = "AList.delete name old"
  note c = close_registered [OF Cons.prems(4,6,7), of ?t1 name, OF refl]
  note o1 = c(1) and d1 = c(2) and d2 = c(3) and n1 = c(4)
  have fresh: "\<forall>s \<in> snd ` set (?old @ new). s < next_sock t"
    using Cons.prems(7,8) by (auto simp: set_alist_delete)
  show ?case
  proof (cases "conn name")
    case False
    let ?t2 = "?t1\<lparr> next_sock := Suc (next_sock t) \<rparr>"
    have r: "connect_all conn names ?old new ?t2 = (t', old', new')"
      using Cons.prems(1) False n1 by (simp add: connect_tx_socket_def Let_def)
    show ?thesis
      using Cons.prems fresh o1
      by (intro Cons.IH [OF r _ _ d1 _ d2]) (auto intro: less_SucI)
  next
    case True
    let ?s = "next_sock t"
    let ?t2 = "?t1\<lparr> next_sock := Suc ?s, opened := opened ?t1 @ [?s] \<rparr>"
    let ?new = "AList.update name ?s new"
    have new: "?new = new @ [(name, ?s)]"
      using Cons.prems(3) by (intro alist_update_new) auto
    have r: "connect_all conn names ?old ?new ?t2 = (t', old', new')"
      using Cons.prems(1) True n1 by (simp add: connect_tx_socket_def Let_def)
    have sn: "?s \<notin> snd ` set (?old @ new)" using fresh by blast
    show ?thesis
      using Cons.prems fresh o1 d2 sn unfolding new
      by (intro Cons.IH [OF r [unfolded new] _ _ d1]) (auto intro: less_SucI)
  qed
qed auto

lemma set_all_sockets_inv:
  assumes "sockets_inv t" "distinct names"
  shows "sockets_inv (set_all_tx_sockets conn names t)"
proof -
  obtain t1 old new where c: "connect_all conn names (tx_socks t) [] t = (t1, old, new)"
    by (metis prod_cases3)
  let ?t2 = "fold (\<lambda>(_, s). sock_close s) old t1"
  have i: "distinct (map fst new)" "distinct (map snd (old @ new))"
    "set (opened t1) = snd ` set (old @ new)" "\<forall>s \<in> set (opened t1). s < next_sock t1"
    using connect_all_inv [OF c assms(2)] assms(1) by (auto simp: sockets_inv_def)
  have "set (opened ?t2) = snd ` set new"
    using i(2,3) by (auto simp: opened_fold_close)
  moreover have "\<forall>s \<in> set (opened ?t2). s < next_sock ?t2"
    using i(4) by (auto simp: opened_fold_close next_fold_close)
  ultimately show ?thesis
    using i(1,2) by (simp add: set_all_tx_sockets_def c Let_def sockets_inv_def split: option.split)
qed

lemma set_one_sockets_inv:
  assumes "sockets_inv t"
  shows "sockets_inv (set_tx_socket conn nm t)"
proof (cases nm)
  case None
  then show ?thesis using assms by (simp add: set_tx_socket_def sockets_inv_def)
next
  case (Some name)
  let ?t1 = "case map_of (tx_socks t) name of None \<Rightarrow> t | Some s \<Rightarrow> sock_close s t"
  let ?al = "AList.delete name (tx_socks t)"
  have i: "distinct (map fst (tx_socks t))" "distinct (map snd (tx_socks t @ []))"
    "set (opened t) = snd ` set (tx_socks t @ [])"
    using assms by (auto simp: sockets_inv_def)
  note c = close_registered [OF i, of ?t1 name, OF refl, unfolded append_Nil2]
  have fresh: "\<forall>s \<in> snd ` set ?al. s < next_sock t"
    using assms by (auto simp: sockets_inv_def set_alist_delete)
  have n: "name \<notin> fst ` set ?al" by (auto simp: set_alist_delete)
  have sn: "next_sock t \<notin> snd ` set ?al" using fresh by blast
  show ?thesis
    using Some c fresh n sn
    by (auto simp: set_tx_socket_def connect_tx_socket_def Let_def sockets_inv_def alist_update_new
        intro: less_SucI)
qed

lemma stop_closes_all:
  assumes "sockets_inv t"
  shows "opened (fst (tunnel_stop t)) = []"
proof -
  have "set (opened (fold (\<lambda>(_, s). sock_close s) (tx_socks t) t)) = {}"
    using assms by (simp add: opened_fold_close sockets_inv_def)
  then show ?thesis by (simp add: tunnel_stop_def Let_def)
qed

interpretation socks: machine sock_step sock_op_ok sockets_inv
proof
  show "sockets_inv (sock_step t e)" if "sockets_inv t" "sock_op_ok e" for t e
    using that set_all_sockets_inv set_one_sockets_inv by (cases e) (auto simp: sock_op_ok_def)
qed

section \<open>Properties\<close>



text \<open>C33. Opening the tun device always ends: whatever the kernel answers and however long the
  attempts take, \<open>_open_tun_retrying\<close> returns or raises after at most 15 attempts. Every attempt
  but the last found the device busy, and it succeeds exactly when the last attempt opened it.\<close>

theorem tun_open_terminates:
  assumes "\<forall>k. 0 \<le> lag k"
  shows "\<exists>n r. open_tun_retrying factory lag now = Some (Suc n, r) \<and> Suc n \<le> 15 \<and>
    (\<forall>i < n. factory i = Busy) \<and> (r = Inr () \<longleftrightarrow> factory n = Opened)"
proof -
  have "now + TUN_OPEN_RETRY_BUDGET_S \<le> now + slept TUN_OPEN_RETRY_DELAY_S 14"
    by (simp add: eval_nat_numeral TUN_OPEN_RETRY_BUDGET_S_def TUN_OPEN_RETRY_DELAY_S_def next_delay_def
        TUN_OPEN_RETRY_MAX_DELAY_S_def)
  from open_loop_ends [OF assms this, of factory 0] show ?thesis
    unfolding open_tun_retrying_def by fastforce
qed

theorem tun_open_terminates_witness:
  "\<exists>n r. open_tun_retrying (\<lambda>k. if k < 3 then Busy else Opened) (\<lambda>k. 1 / 100) 7 = Some (Suc n, r) \<and> Suc n \<le> 15"
  using tun_open_terminates [of "\<lambda>k. 1 / 100" "\<lambda>k. if k < 3 then Busy else Opened" 7] by auto

text \<open>The keepalive schedule: with \<open>es\<close> the events since the last batch from the peer, the
  next tick broadcasts an empty datagram on every registered socket exactly when two or more
  ticks have passed; otherwise it sends one on the current socket if nothing was sent since
  the previous tick, and nothing at all if something was.\<close>

theorem keepalive_schedule:
  assumes "no_rx es"
    and "t = foldl (\<lambda>t e. fst (tun_step t e)) t0 (RxBatch wr data # es)"
  shows "snd (keepalive_tick t) =
    (if 2 \<le> ticks es then broadcast t []
     else if pkt_out_sem t = 0 then send_to_current_tx t [] else [])"
proof -
  have "pkt_in_sem (fst (tun_step t0 (RxBatch wr data))) = 2"
    by (simp add: on_rx_batch_def Let_def write_all_in_sem)
  then have "pkt_in_sem t = 2 - ticks es"
    unfolding assms(2) foldl_Cons pkt_in_sem_run [OF assms(1)] by (rule arg_cong)
  then show ?thesis by (auto simp: keepalive_tick_def)
qed

theorem keepalive_schedule_witness:
  "let t0 = (new_tunnel TunnelConfig)\<lparr> tx_socks := [(''a'', 0), (''b'', 1)], opened := [0, 1] \<rparr>;
       es = [KeepaliveTimer, KeepaliveTimer];
       t = foldl (\<lambda>t e. fst (tun_step t e)) t0 (RxBatch (\<lambda>_. Written) [] # es)
   in snd (keepalive_tick t) = [(0, []), (1, [])]"
  using keepalive_schedule [of "[KeepaliveTimer, KeepaliveTimer]" _
      "(new_tunnel TunnelConfig)\<lparr> tx_socks := [(''a'', 0), (''b'', 1)], opened := [0, 1] \<rparr>" "\<lambda>_. Written" "[]"]
  by (simp add: no_rx_def ticks_def keepalive_loop_def keepalive_tick_def on_rx_batch_def new_tunnel_def
      broadcast_def sock_send_def Let_def)

text \<open>No socket leaks: after any sequence of \<open>set_all_tx_sockets\<close> (with distinct names) and
  \<open>set_tx_socket\<close>, whichever connects fail, the open sockets are exactly the registered ones,
  and \<open>stop\<close> closes them all.\<close>

theorem no_socket_leak:
  assumes "list_all sock_op_ok ops" "t = foldl sock_step (new_tunnel c) ops"
  shows "set (opened t) = snd ` set (tx_socks t) \<and> opened (fst (tunnel_stop t)) = []"
proof -
  have "sockets_inv (new_tunnel c)" by (simp add: sockets_inv_def new_tunnel_def)
  then have "sockets_inv t" using socks.inv_run assms by blast
  then show ?thesis using stop_closes_all by (simp add: sockets_inv_def)
qed

theorem no_socket_leak_witness:
  "opened (fst (tunnel_stop (foldl sock_step (new_tunnel TunnelConfig)
     [SetAll (\<lambda>n. n \<noteq> ''c'') [''a'', ''b'', ''c''], SetOne (\<lambda>_. True) (Some ''a'')]))) = []"
  using no_socket_leak [of "[SetAll (\<lambda>n. n \<noteq> ''c'') [''a'', ''b'', ''c''], SetOne (\<lambda>_. True) (Some ''a'')]"
      _ TunnelConfig]
  by (simp add: sock_op_ok_def)

text \<open>What the current socket can be: it is registered and open, except after a reconnect of the
  current name failed, when it still refers to the socket just closed.\<close>

lemma failed_reconnect_keeps_closed_socket:
  "let t = foldl sock_step (new_tunnel TunnelConfig) [SetOne (\<lambda>_. True) (Some ''a''), SetOne (\<lambda>_. False) (Some ''a'')]
   in tx_sock t = Some 0 \<and> tx_sock_name t = Some ''a'' \<and> opened t = [] \<and> send_to_current_tx t [1] = []"
  by (simp add: set_tx_socket_def connect_tx_socket_def new_tunnel_def sock_close_def Let_def
      send_to_current_tx_def sock_send_def)

end
