(* ===== verification/Graph.thy ===== *)
theory Graph
  imports Cluster Tunnel
begin

text \<open>
  \<open>src/gs/fpvdgs/wfb/graph.py\<close>: the argument vectors of the radio processes of the station, for
  local cards (\<open>build_graph\<close>) and for a cluster with remote nodes (\<open>build_graph_remote\<close>). The
  identifier of the link is the head of a SHA-1 digest, which is defined here in full. A random
  suffix is an argument, and so is \<open>rp\<close>, \<open>str\<close> of a float, a list or a dictionary.

  The lemmas say which legs a graph has and what they are wired to: every forwarder sends to the
  port on which the aggregator of its service listens, and every distributor sends to the ports
  from which the injectors of its service count.
\<close>

section \<open>Definitions\<close>

subsection \<open>SHA-1\<close>

definition word_of_bytes :: "bytes \<Rightarrow> 32 word" where
  "word_of_bytes bs = foldl (\<lambda>w b. push_bit 8 w OR ucast b) 0 bs"

definition bytes_of_word :: "32 word \<Rightarrow> bytes" where
  "bytes_of_word w = [ucast (drop_bit 24 w), ucast (drop_bit 16 w), ucast (drop_bit 8 w), ucast w]"

definition rol :: "nat \<Rightarrow> 32 word \<Rightarrow> 32 word" where
  "rol n w = push_bit n w OR drop_bit (32 - n) w"

definition sha1_pad :: "bytes \<Rightarrow> bytes" where
  "sha1_pad msg =
     (let bits = 8 * int (length msg)
      in msg @ [0x80] @ replicate (63 - (length msg + 8) mod 64) 0 @ map (\<lambda>i. word_of_int (bits div 256 ^ i)) [7, 6, 5, 4, 3, 2, 1, 0])"

text \<open>The schedule is kept newest first.\<close>

fun sha1_schedule :: "nat \<Rightarrow> 32 word list \<Rightarrow> 32 word list" where
  "sha1_schedule 0 ws = ws"
| "sha1_schedule (Suc n) ws = sha1_schedule n (rol 1 (ws ! 2 XOR ws ! 7 XOR ws ! 13 XOR ws ! 15) # ws)"

type_synonym sha1_state = "32 word \<times> 32 word \<times> 32 word \<times> 32 word \<times> 32 word"

definition sha1_round :: "(32 word \<Rightarrow> 32 word \<Rightarrow> 32 word \<Rightarrow> 32 word) \<Rightarrow> 32 word \<Rightarrow> 32 word \<Rightarrow> sha1_state \<Rightarrow> sha1_state" where
  "sha1_round f k w = (\<lambda>(a, b, c, d, e). (rol 5 a + f b c d + e + k + w, a, rol 30 b, c, d))"

definition sha1_block :: "32 word list \<Rightarrow> sha1_state \<Rightarrow> sha1_state" where
  "sha1_block block = (\<lambda>(a, b, c, d, e).
     let ws = rev (sha1_schedule 64 (rev block));
         parity = \<lambda>b c d. b XOR c XOR d;
         s = fold (sha1_round (\<lambda>b c d. (b AND c) OR (NOT b AND d)) 0x5A827999) (take 20 ws) (a, b, c, d, e);
         s = fold (sha1_round parity 0x6ED9EBA1) (take 20 (drop 20 ws)) s;
         s = fold (sha1_round (\<lambda>b c d. (b AND c) OR (b AND d) OR (c AND d)) 0x8F1BBCDC) (take 20 (drop 40 ws)) s
     in case fold (sha1_round parity 0xCA62C1D6) (drop 60 ws) s of
          (a', b', c', d', e') \<Rightarrow> (a + a', b + b', c + c', d + d', e + e'))"

definition chunks :: "nat \<Rightarrow> 'a list \<Rightarrow> 'a list list" where
  "chunks n xs = map (\<lambda>i. take n (drop (i * n) xs)) [0..<(length xs + n - 1) div n]"

definition sha1 :: "bytes \<Rightarrow> bytes" where
  "sha1 msg =
     (case fold (\<lambda>blk. sha1_block (map word_of_bytes (chunks 4 blk))) (chunks 64 (sha1_pad msg))
             (0x67452301, 0xEFCDAB89, 0x98BADCFE, 0x10325476, 0xC3D2E1F0) of
        (a, b, c, d, e) \<Rightarrow> concat (map bytes_of_word [a, b, c, d, e]))"

text \<open>\<open>str.encode()\<close> for characters up to U+00FF.\<close>

definition utf8_char :: "char \<Rightarrow> bytes" where
  "utf8_char c = (let n = code c in if n < 128 then [of_nat n] else [of_nat (192 + n div 64), of_nat (128 + n mod 64)])"

definition link_id :: "string \<Rightarrow> int" where
  "link_id link_domain = foldl (\<lambda>a b. a * 256 + uint b) 0 (take 3 (sha1 (concat (map utf8_char link_domain))))"

subsection \<open>Argument vectors\<close>

definition WFB_BIN_DIR :: string where
  "WFB_BIN_DIR = ''/usr/bin''"

definition GS_KEY :: string where
  "GS_KEY = ''/etc/gs.key''"

definition LOG_INTERVAL :: int where
  "LOG_INTERVAL = 100"

definition BUF_R :: int where
  "BUF_R = 2097152"

definition BUF_S :: int where
  "BUF_S = 2097152"

definition VIDEO_UDP_PORT :: int where
  "VIDEO_UDP_PORT = 5600"

definition PROBE_RADIO_PORT :: int where
  "PROBE_RADIO_PORT = 50"

definition PROBE_SINK_PORT :: int where
  "PROBE_SINK_PORT = 7000"

definition LOCAL_NODE :: string where
  "LOCAL_NODE = ''127.0.0.1''"

record service_spec =
  sp_name :: string
  sp_kind :: string
  sp_argv :: "json list"
  sp_parser :: "string option"
  sp_unix :: "string option"

record gs_graph =
  video_rx :: service_spec
  mavlink_rx :: service_spec
  mavlink_tx :: service_spec
  tunnel_rx :: service_spec
  tunnel_tx :: service_spec
  mav_rx_sock :: string
  mav_peer :: json
  tun_rx_sock :: string
  tun_cfg :: tunnel_config
  local_forwarders :: "service_spec list"
  local_injectors :: "service_spec list"
  node_scripts :: "(string \<times> string) list"
  probe_rx :: "service_spec option"

definition rx_common_tail :: "int \<Rightarrow> string list" where
  "rx_common_tail lid = [''-R'', show_int BUF_R, ''-s'', show_int BUF_S, ''-l'', show_int LOG_INTERVAL, ''-i'', show_int lid]"

definition rx_argv :: "string list \<Rightarrow> string list \<Rightarrow> int \<Rightarrow> json list \<Rightarrow> string list \<Rightarrow> string list \<Rightarrow> json list" where
  "rx_argv head key lid tail extra cluster_flag =
     map JStr ([WFB_BIN_DIR @ ''/wfb_rx''] @ cluster_flag @ head @ key @ rx_common_tail lid @ extra) @ tail"

definition tx_middle :: "int \<Rightarrow> string \<Rightarrow> string list \<Rightarrow> string \<Rightarrow> int \<Rightarrow> string list" where
  "tx_middle port unix_path key bandwidth lid =
     [''-f'', ''data'', ''-p'', show_int port, ''-U'', unix_path] @ key @
     [''-B'', bandwidth, ''-G'', ''long'', ''-S'', show_int 1, ''-L'', show_int 1, ''-M'', show_int 1, ''-k'', show_int 1, ''-n'', show_int 2,
      ''-T'', show_int 0, ''-F'', show_int 0, ''-i'', show_int lid, ''-R'', show_int BUF_R, ''-s'', show_int BUF_S,
      ''-l'', show_int LOG_INTERVAL, ''-C'', ''0'']"

definition tx_argv :: "int \<Rightarrow> string \<Rightarrow> string list \<Rightarrow> string \<Rightarrow> int \<Rightarrow> json list \<Rightarrow> string list \<Rightarrow> json list" where
  "tx_argv port unix_path key bandwidth lid tail cluster_flag =
     map JStr ([WFB_BIN_DIR @ ''/wfb_tx''] @ cluster_flag @ tx_middle port unix_path key bandwidth lid) @ tail"

subsection \<open>What both builders read from the configuration\<close>

text \<open>\<open>min(max(width, 10), 20)\<close>.\<close>

definition uplink_bw :: "json \<Rightarrow> json res" where
  "uplink_bw width = (case num_of width of
     None \<Rightarrow> Inl TypeError
   | Some w \<Rightarrow> Inr (if w < 10 then JInt 10 else if 20 < w then JInt 20 else width))"

text \<open>\<open>sorted(raw)\<close> in the warning about \<open>wfb.raw\<close>: an object or a string, or a list of strings or
  of numbers.\<close>

definition raw_warning :: "json \<Rightarrow> unit res" where
  "raw_warning raw = (case raw of
     JObj _ \<Rightarrow> Inr () | JStr _ \<Rightarrow> Inr ()
   | JList xs \<Rightarrow> raise_if (1 < length xs \<and> \<not> list_all is_str xs \<and> \<not> list_all is_num xs) TypeError
   | _ \<Rightarrow> raise_if (truthy raw) TypeError)"

definition probe_enabled :: "json \<Rightarrow> bool res" where
  "probe_enabled dl =
     res_bind (jget dl ''enabled'' (JBool False)) (\<lambda>en.
       if \<not> truthy en then Inr False
       else res_bind (jget dl ''probe'' JNull) (\<lambda>pr. res_bind (jget (or_empty pr) ''enabled'' (JBool False)) (\<lambda>pe. Inr (truthy pe))))"

record graph_params =
  gp_link :: json
  gp_wfb :: json
  gp_dl :: json
  gp_lid :: int
  gp_bw :: string
  gp_video_key :: "string list"
  gp_tap :: "string list"

definition key_flag :: "string list" where
  "key_flag = [''-K'', GS_KEY]"

definition tap_flag :: "(json \<Rightarrow> string) \<Rightarrow> json \<Rightarrow> string list res" where
  "tap_flag rp tap =
     res_bind (jget tap ''enabled'' (JBool True)) (\<lambda>en.
       if truthy en then res_bind (jget tap ''port'' (JInt 8110)) (\<lambda>port. Inr [''-D'', py_str rp port]) else Inr [])"

definition graph_params_of :: "(json \<Rightarrow> string) \<Rightarrow> dict \<Rightarrow> graph_params res" where
  "graph_params_of rp effective =
     (let link = or_empty (dget effective ''link'' (JObj []));
          wfb = or_empty (dget effective ''wfb'' (JObj []));
          dl = or_empty (dget effective ''dynamicLink'' (JObj [])) in
      res_bind (jget dl ''tap'' (JObj [])) (\<lambda>tap.
      res_bind (jget wfb ''raw'' JNull) (\<lambda>raw.
      res_bind (raw_warning (or_empty raw)) (\<lambda>_.
      res_bind (jget link ''width'' (JInt 20)) (\<lambda>width.
      res_bind (uplink_bw width) (\<lambda>bw.
      res_bind (jget link ''videoEncryption'' (JBool True)) (\<lambda>enc.
      res_bind (tap_flag rp (or_empty tap)) (\<lambda>tapf.
        Inr \<lparr> gp_link = link, gp_wfb = wfb, gp_dl = dl, gp_lid = link_id ''default'', gp_bw = py_str rp bw,
              gp_video_key = (if truthy enc then key_flag else []), gp_tap = tapf \<rparr>))))))))"

text \<open>\<open>wfb.mavlink.peer\<close> is required.\<close>

definition mavlink_peer :: "json \<Rightarrow> json res" where
  "mavlink_peer wfb =
     res_bind (jget wfb ''mavlink'' (JObj [])) (\<lambda>mav. res_bind (jget (or_empty mav) ''peer'' JNull) (\<lambda>p.
       if truthy p then Inr p else Inl ValueError))"

definition rx_spec :: "string \<Rightarrow> json list \<Rightarrow> string option \<Rightarrow> service_spec" where
  "rx_spec name argv sock = \<lparr> sp_name = name, sp_kind = ''rx'', sp_argv = argv, sp_parser = Some ''rx'', sp_unix = sock \<rparr>"

definition tx_spec :: "string \<Rightarrow> json list \<Rightarrow> string option \<Rightarrow> service_spec" where
  "tx_spec name argv sock = \<lparr> sp_name = name, sp_kind = ''tx'', sp_argv = argv, sp_parser = Some ''tx'', sp_unix = sock \<rparr>"

definition video_head :: "string list" where
  "video_head = [''-p'', ''0'', ''-c'', ''127.0.0.1'', ''-u'', show_int VIDEO_UDP_PORT]"

definition probe_head :: "string list" where
  "probe_head = [''-p'', show_int PROBE_RADIO_PORT, ''-c'', ''127.0.0.1'', ''-u'', show_int PROBE_SINK_PORT]"

definition probe_spec :: "json list \<Rightarrow> service_spec" where
  "probe_spec argv = \<lparr> sp_name = ''probe_rx'', sp_kind = ''rx'', sp_argv = argv, sp_parser = Some ''probe'', sp_unix = None \<rparr>"

subsection \<open>Local cards\<close>

definition build_graph :: "(json \<Rightarrow> string) \<Rightarrow> (nat \<Rightarrow> string) \<Rightarrow> dict \<Rightarrow> json list \<Rightarrow> gs_graph res" where
  "build_graph rp rand effective wlans =
     res_bind (graph_params_of rp effective) (\<lambda>g.
       let lid = gp_lid g; mrx = ''mavlink-rx-'' @ rand 0; mtx = ''mavlink-tx-'' @ rand 1; trx = ''tunnel-rx-'' @ rand 2; ttx = ''tunnel-tx-'' @ rand 3
       in res_bind (mavlink_peer (gp_wfb g)) (\<lambda>p. res_bind (probe_enabled (gp_dl g)) (\<lambda>probe.
         Inr \<lparr> video_rx = rx_spec ''video_rx'' (rx_argv video_head (gp_video_key g) lid wlans (gp_tap g) []) None,
               mavlink_rx = rx_spec ''mavlink_rx'' (rx_argv [''-p'', ''16'', ''-U'', mrx] key_flag lid wlans [] []) (Some mrx),
               mavlink_tx = tx_spec ''mavlink_tx'' (tx_argv 144 mtx key_flag (gp_bw g) lid wlans []) (Some mtx),
               tunnel_rx = rx_spec ''tunnel_rx'' (rx_argv [''-p'', ''32'', ''-U'', trx] key_flag lid wlans [] []) (Some trx),
               tunnel_tx = tx_spec ''tunnel_tx'' (tx_argv 160 ttx key_flag (gp_bw g) lid wlans []) (Some ttx),
               mav_rx_sock = mrx, mav_peer = p, tun_rx_sock = trx, tun_cfg = TunnelConfig,
               local_forwarders = [], local_injectors = [], node_scripts = [],
               probe_rx = (if probe then Some (probe_spec (rx_argv probe_head key_flag lid wlans [] [])) else None) \<rparr>)))"

subsection \<open>Clusters\<close>

definition fwd_spec :: "string \<Rightarrow> json list \<Rightarrow> service_spec" where
  "fwd_spec service argv = \<lparr> sp_name = service @ '' fwd'', sp_kind = ''rx'', sp_argv = argv, sp_parser = None, sp_unix = None \<rparr>"

definition inj_spec :: "string \<Rightarrow> json list \<Rightarrow> service_spec" where
  "inj_spec service argv = \<lparr> sp_name = service @ '' inj'', sp_kind = ''tx'', sp_argv = argv, sp_parser = None, sp_unix = None \<rparr>"

definition fwd_argv :: "int \<Rightarrow> int \<Rightarrow> int \<Rightarrow> json list \<Rightarrow> json list" where
  "fwd_argv port rx_id lid ifaces =
     map JStr [WFB_BIN_DIR @ ''/wfb_rx'', ''-f'', ''-c'', ''127.0.0.1'', ''-u'', show_int port, ''-p'', show_int rx_id,
               ''-i'', show_int lid, ''-R'', show_int BUF_R] @ ifaces"

definition inj_argv :: "int \<Rightarrow> json list \<Rightarrow> json list" where
  "inj_argv injector_base ifaces = map JStr [WFB_BIN_DIR @ ''/wfb_tx'', ''-I'', show_int injector_base, ''-R'', show_int BUF_R] @ ifaces"

text \<open>The forwarder and the injector of a service on the station itself.\<close>

definition local_legs :: "cluster_plan \<Rightarrow> int \<Rightarrow> json list \<Rightarrow> string \<times> service_streams \<Rightarrow> (service_spec list \<times> service_spec list) res" where
  "local_legs plan lid ifaces = (\<lambda>(service, streams).
     res_bind (case rx_stream streams of None \<Rightarrow> Inr []
               | Some rx_id \<Rightarrow> res_bind (key_error (map_of (cp_server_port plan) service)) (\<lambda>port.
                   Inr [fwd_spec service (fwd_argv port rx_id lid ifaces)])) (\<lambda>fwd.
     res_bind (case tx_stream streams of None \<Rightarrow> Inr []
               | Some tx_id \<Rightarrow> res_bind (key_error (map_of (cp_injector_base plan) (LOCAL_NODE, service))) (\<lambda>base.
                   Inr [inj_spec service (inj_argv base ifaces)])) (\<lambda>inj.
       Inr (fwd, inj))))"

definition local_node_legs :: "wifi_card list \<Rightarrow> cluster_plan \<Rightarrow> int \<Rightarrow> bool \<Rightarrow> (service_spec list \<times> service_spec list) res" where
  "local_node_legs cards plan lid probe =
     (case map_of (cp_nodes plan) LOCAL_NODE of
        Some (c # cs) \<Rightarrow>
          res_bind (res_map (local_legs plan lid (local_ifaces cards)) (streams_for probe)) (\<lambda>legs.
            Inr (concat (map fst legs), concat (map snd legs)))
      | _ \<Rightarrow> Inr ([], []))"

definition remote_scripts :: "(json \<Rightarrow> string) \<Rightarrow> cluster_plan \<Rightarrow> dict \<Rightarrow> int \<Rightarrow> string \<Rightarrow> bool \<Rightarrow> (string \<times> string) list res" where
  "remote_scripts rp plan link lid server_address probe =
     res_map (\<lambda>node. res_bind (render_node_script rp node (the (map_of (cp_nodes plan) node)) plan link lid server_address True (streams_for probe))
                       (\<lambda>script. Inr (node, script)))
       (filter (\<lambda>node. node \<noteq> LOCAL_NODE) (sort (map fst (cp_nodes plan))))"

text \<open>The aggregators and distributors; \<open>a s\<close> is the flag of the aggregator of service \<open>s\<close>.\<close>

definition link_dict :: "json \<Rightarrow> dict" where
  "link_dict link = (case link of JObj d \<Rightarrow> d | _ \<Rightarrow> [])"

definition build_graph_remote ::
  "(json \<Rightarrow> string) \<Rightarrow> (nat \<Rightarrow> string) \<Rightarrow> dict \<Rightarrow> wifi_card list \<Rightarrow> cluster_plan \<Rightarrow> json \<Rightarrow> gs_graph res" where
  "build_graph_remote rp rand effective cards plan server_address =
     res_bind (graph_params_of rp effective) (\<lambda>g.
     res_bind (probe_enabled (gp_dl g)) (\<lambda>probe.
     res_bind (key_error (map_of (cp_server_port plan) ''video'')) (\<lambda>video_port.
     res_bind (key_error (map_of (cp_server_port plan) ''mavlink'')) (\<lambda>mav_port.
     res_bind (key_error (map_of (cp_server_port plan) ''tunnel'')) (\<lambda>tun_port.
     res_bind (key_error (map_of (cp_peers plan) ''mavlink'')) (\<lambda>mav_peers.
     res_bind (key_error (map_of (cp_peers plan) ''tunnel'')) (\<lambda>tun_peers.
     res_bind (mavlink_peer (gp_wfb g)) (\<lambda>p.
     res_bind (if probe then res_bind (key_error (map_of (cp_server_port plan) ''probe'')) (\<lambda>port. Inr (Some port)) else Inr None) (\<lambda>probe_port.
     res_bind (local_node_legs cards plan (gp_lid g) probe) (\<lambda>(fwds, injs).
     res_bind (remote_scripts rp plan (link_dict (gp_link g)) (gp_lid g) (py_str rp server_address) probe) (\<lambda>scripts.
       let lid = gp_lid g; mrx = ''mavlink-rx-'' @ rand 0; mtx = ''mavlink-tx-'' @ rand 1; trx = ''tunnel-rx-'' @ rand 2; ttx = ''tunnel-tx-'' @ rand 3;
           agg_flag = (\<lambda>port. [''-a'', show_int port])
       in Inr \<lparr> video_rx = rx_spec ''video_rx'' (rx_argv video_head (gp_video_key g) lid [] (gp_tap g) (agg_flag video_port)) None,
                mavlink_rx = rx_spec ''mavlink_rx'' (rx_argv [''-p'', ''16'', ''-U'', mrx] key_flag lid [] [] (agg_flag mav_port)) (Some mrx),
                mavlink_tx = tx_spec ''mavlink_tx'' (tx_argv 144 mtx key_flag (gp_bw g) lid (map JStr mav_peers) [''-d'']) (Some mtx),
                tunnel_rx = rx_spec ''tunnel_rx'' (rx_argv [''-p'', ''32'', ''-U'', trx] key_flag lid [] [] (agg_flag tun_port)) (Some trx),
                tunnel_tx = tx_spec ''tunnel_tx'' (tx_argv 160 ttx key_flag (gp_bw g) lid (map JStr tun_peers) [''-d'']) (Some ttx),
                mav_rx_sock = mrx, mav_peer = p, tun_rx_sock = trx, tun_cfg = TunnelConfig,
                local_forwarders = fwds, local_injectors = injs, node_scripts = scripts,
                probe_rx = map_option (\<lambda>port. probe_spec (rx_argv probe_head key_flag lid [] [] (agg_flag port))) probe_port \<rparr>)))))))))))"

subsection \<open>What the graph promises\<close>

text \<open>A flag with its value in an argument vector; the receiving and the transmitting leg of a service.\<close>

definition has_flag :: "string \<Rightarrow> string \<Rightarrow> json list \<Rightarrow> bool" where
  "has_flag f v argv = (\<exists>i. Suc i < length argv \<and> argv ! i = JStr f \<and> argv ! Suc i = JStr v)"

definition rx_leg :: "gs_graph \<Rightarrow> string \<Rightarrow> service_spec option" where
  "rx_leg g s = (if s = ''video'' then Some (video_rx g) else if s = ''mavlink'' then Some (mavlink_rx g)
     else if s = ''tunnel'' then Some (tunnel_rx g) else if s = ''probe'' then probe_rx g else None)"

definition tx_leg :: "gs_graph \<Rightarrow> string \<Rightarrow> service_spec option" where
  "tx_leg g s = (if s = ''mavlink'' then Some (mavlink_tx g) else if s = ''tunnel'' then Some (tunnel_tx g) else None)"

text \<open>The block of the configuration that decides about the probe.\<close>

definition dl_block :: "dict \<Rightarrow> json" where
  "dl_block effective = or_empty (dget effective ''dynamicLink'' (JObj []))"

section \<open>Lemmas\<close>

subsection \<open>Flags\<close>

lemma has_flag_append: "has_flag f v (xs @ map JStr [f, v] @ ys)"
  unfolding has_flag_def by (rule exI [of _ "length xs"]) (simp add: nth_append)

lemma has_flagI: "argv = xs @ [JStr f, JStr v] @ ys \<Longrightarrow> has_flag f v argv"
  using has_flag_append [of f v xs ys] by simp

lemma rx_argv_flags:
  "has_flag ''-i'' (show_int lid) (rx_argv head key lid tail extra flag)"
  "has_flag ''-p'' p (rx_argv (''-p'' # p # rest) key lid tail extra flag)"
  "has_flag ''-a'' a (rx_argv head key lid tail extra [''-a'', a])"
proof -
  let ?b = "WFB_BIN_DIR @ ''/wfb_rx''"
  show "has_flag ''-i'' (show_int lid) (rx_argv head key lid tail extra flag)"
    by (rule has_flagI [of _ "map JStr ([?b] @ flag @ head @ key @ [''-R'', show_int BUF_R, ''-s'', show_int BUF_S, ''-l'', show_int LOG_INTERVAL])" _ _
          "map JStr extra @ tail"]) (simp add: rx_argv_def rx_common_tail_def)
  show "has_flag ''-p'' p (rx_argv (''-p'' # p # rest) key lid tail extra flag)"
    by (rule has_flagI [of _ "map JStr ([?b] @ flag)" _ _ "map JStr (rest @ key @ rx_common_tail lid @ extra) @ tail"]) (simp add: rx_argv_def)
  show "has_flag ''-a'' a (rx_argv head key lid tail extra [''-a'', a])"
    by (rule has_flagI [of _ "[JStr ?b]" _ _ "map JStr (head @ key @ rx_common_tail lid @ extra) @ tail"]) (simp add: rx_argv_def)
qed

lemma tx_argv_flags:
  "has_flag ''-p'' (show_int port) (tx_argv port sock key bw lid tail flag)"
  "has_flag ''-i'' (show_int lid) (tx_argv port sock key bw lid tail flag)"
proof -
  let ?b = "WFB_BIN_DIR @ ''/wfb_tx''"
  show "has_flag ''-p'' (show_int port) (tx_argv port sock key bw lid tail flag)"
    by (rule has_flagI [of _ "map JStr ([?b] @ flag @ [''-f'', ''data''])" _ _ "map JStr (drop 4 (tx_middle port sock key bw lid)) @ tail"])
      (simp add: tx_argv_def tx_middle_def)
  show "has_flag ''-i'' (show_int lid) (tx_argv port sock key bw lid tail flag)"
    by (rule has_flagI [of _ "map JStr ([?b] @ flag @ [''-f'', ''data'', ''-p'', show_int port, ''-U'', sock] @ key @
          [''-B'', bw, ''-G'', ''long'', ''-S'', show_int 1, ''-L'', show_int 1, ''-M'', show_int 1, ''-k'', show_int 1, ''-n'', show_int 2,
           ''-T'', show_int 0, ''-F'', show_int 0])" _ _
          "map JStr [''-R'', show_int BUF_R, ''-s'', show_int BUF_S, ''-l'', show_int LOG_INTERVAL, ''-C'', ''0''] @ tail"])
      (simp add: tx_argv_def tx_middle_def)
qed

lemma tx_argv_split: "\<exists>pre. tx_argv port sock key bw lid tail flag = pre @ tail"
  by (simp add: tx_argv_def)

subsection \<open>Scripts\<close>

lemma res_map_mem: "res_map f xs = Inr ys \<Longrightarrow> x \<in> set xs \<Longrightarrow> \<exists>y \<in> set ys. f x = Inr y"
proof (induction xs arbitrary: ys)
  case (Cons a xs)
  obtain b bs where "f a = Inr b" "res_map f xs = Inr bs" "ys = b # bs"
    using Cons.prems(1) by (cases "f a"; cases "res_map f xs") auto
  then show ?case using Cons by auto
qed simp

lemma res_bind_assoc: "res_bind (res_bind r f) h = res_bind r (\<lambda>x. res_bind (f x) h)"
  by (cases r) simp_all

lemma key_error_Some [simp]: "key_error (Some x) = Inr x"
  by (simp add: key_error_def)

lemma key_error_Inr [simp]: "key_error v = Inr x \<longleftrightarrow> v = Some x"
  by (simp add: key_error_def split: option.split)

lemma service_lines_mem:
  assumes "service_lines node plan lid addr wl (s, st) = Inr ls"
  shows "rx_stream st = Some r \<Longrightarrow> map_of (cp_server_port plan) s = Some port \<Longrightarrow> fwd_line addr port r lid wl \<in> set ls"
    and "tx_stream st = Some t \<Longrightarrow> map_of (cp_injector_base plan) (node, s) = Some base \<Longrightarrow> inj_line base wl \<in> set ls"
  using assms by (auto simp: service_lines_def key_error_def res_bind_def split: if_splits option.splits sum.splits)

lemma node_script_mem:
  assumes "node_script_lines rp node cs plan link lid addr ssh streams = Inr lines" "(s, st) \<in> set streams"
  obtains wl where "join_strs (map cd_iface cs) = Inr wl"
    and "\<And>r port. rx_stream st = Some r \<Longrightarrow> map_of (cp_server_port plan) s = Some port \<Longrightarrow> fwd_line addr port r lid wl \<in> set lines"
    and "\<And>t base. tx_stream st = Some t \<Longrightarrow> map_of (cp_injector_base plan) (node, s) = Some base \<Longrightarrow> inj_line base wl \<in> set lines"
proof -
  obtain wl where wl: "join_strs (map cd_iface cs) = Inr wl"
    using assms(1) by (cases "join_strs (map cd_iface cs)") (auto simp: node_script_lines_def Let_def)
  obtain custom inits svc where svc: "res_map (service_lines node plan lid addr wl) streams = Inr svc"
    and lines: "lines = script_head @ custom @ [''iw reg set '' @ py_str rp (dget link ''region'' JNull), []] @ concat inits @ concat svc @
      (if ssh then script_watch else []) @ script_tail"
    using assms(1) wl by (auto simp: node_script_lines_def Let_def res_bind_def split: sum.splits)
  obtain ls where ls: "ls \<in> set svc" "service_lines node plan lid addr wl (s, st) = Inr ls"
    using res_map_mem [OF svc assms(2)] by blast
  have "set ls \<subseteq> set lines" using ls(1) by (auto simp: lines)
  then show ?thesis using that [OF wl] service_lines_mem [OF ls(2)] by blast
qed

lemma remote_scripts_keys: "remote_scripts rp plan link lid addr probe = Inr scripts \<Longrightarrow>
    map fst scripts = filter (\<lambda>node. node \<noteq> LOCAL_NODE) (sort (map fst (cp_nodes plan)))"
proof -
  have "res_map (\<lambda>n. res_bind (f n) (\<lambda>x. Inr (n, x))) ns = Inr ys \<Longrightarrow> map fst ys = ns" for f :: "string \<Rightarrow> string res" and ns ys
  proof (induction ns arbitrary: ys)
    case (Cons n ns)
    then show ?case by (cases "f n"; cases "res_map (\<lambda>n. res_bind (f n) (\<lambda>x. Inr (n, x))) ns") auto
  qed simp
  then show "remote_scripts rp plan link lid addr probe = Inr scripts \<Longrightarrow> ?thesis" unfolding remote_scripts_def .
qed

lemma remote_scripts_lookup:
  assumes "remote_scripts rp plan link lid addr probe = Inr scripts" "node \<in> fst ` set (cp_nodes plan)" "node \<noteq> LOCAL_NODE"
    and "distinct (map fst (cp_nodes plan))"
  obtains lines where "map_of scripts node = Some (join_with (CHR 0x0A) lines)"
    and "node_script_lines rp node (the (map_of (cp_nodes plan) node)) plan link lid addr True (streams_for probe) = Inr lines"
proof -
  have n: "node \<in> set (filter (\<lambda>node. node \<noteq> LOCAL_NODE) (sort (map fst (cp_nodes plan))))" using assms(2,3) by simp
  obtain y where y: "y \<in> set scripts"
    "res_bind (render_node_script rp node (the (map_of (cp_nodes plan) node)) plan link lid addr True (streams_for probe)) (\<lambda>script. Inr (node, script)) = Inr y"
    using res_map_mem [OF assms(1) [unfolded remote_scripts_def] n] by blast
  obtain lines where l: "node_script_lines rp node (the (map_of (cp_nodes plan) node)) plan link lid addr True (streams_for probe) = Inr lines"
    "y = (node, join_with (CHR 0x0A) lines)"
    using y(2) by (cases "node_script_lines rp node (the (map_of (cp_nodes plan) node)) plan link lid addr True (streams_for probe)")
      (auto simp: render_node_script_def)
  have "distinct (map fst scripts)" unfolding remote_scripts_keys [OF assms(1)] using assms(4) by simp
  then have "map_of scripts node = Some (join_with (CHR 0x0A) lines)" using y(1) l(2) by simp
  then show ?thesis using that l(1) by blast
qed

subsection \<open>The legs of a cluster\<close>

lemma graph_params_dl: "graph_params_of rp effective = Inr gp \<Longrightarrow> gp_dl gp = dl_block effective \<and> gp_lid gp = link_id ''default''"
  by (auto simp: graph_params_of_def dl_block_def Let_def res_bind_def split: sum.splits)

lemma streams_for_cases:
  assumes "(s, st) \<in> set (streams_for probe)"
  shows "(s = ''video'' \<and> st = \<lparr> rx_stream = Some 0, tx_stream = None \<rparr>) \<or> (s = ''mavlink'' \<and> st = \<lparr> rx_stream = Some 16, tx_stream = Some 144 \<rparr>) \<or>
    (s = ''tunnel'' \<and> st = \<lparr> rx_stream = Some 32, tx_stream = Some 160 \<rparr>) \<or> (probe \<and> s = ''probe'' \<and> st = \<lparr> rx_stream = Some 50, tx_stream = None \<rparr>)"
  using assms by (auto simp: streams_for_def DEFAULT_STREAMS_def PROBE_STREAMS_def PROBE_SERVICE_def split: if_splits)

lemma streams_services: "(s, st) \<in> set (streams_for probe) \<Longrightarrow> s \<in> set (service_order probe)"
  using streams_for_cases [of s st probe] by (auto simp: service_order_def SERVICE_ORDER_def PROBE_SERVICE_def)

lemma show_streams: "show_int 0 = ''0''" "show_int 16 = ''16''" "show_int 32 = ''32''"
  by code_simp+

lemma remote_graph:
  assumes "build_graph_remote rp rand effective cards plan addr = Inr g" "probe_enabled (dl_block effective) = Inr probe"
  obtains gp where "graph_params_of rp effective = Inr gp"
    and "local_node_legs cards plan (link_id ''default'') probe = Inr (local_forwarders g, local_injectors g)"
    and "remote_scripts rp plan (link_dict (gp_link gp)) (link_id ''default'') (py_str rp addr) probe = Inr (node_scripts g)"
    and "\<forall>s st r. (s, st) \<in> set (streams_for probe) \<longrightarrow> rx_stream st = Some r \<longrightarrow>
      (\<exists>port leg. map_of (cp_server_port plan) s = Some port \<and> rx_leg g s = Some leg \<and> has_flag ''-a'' (show_int port) (sp_argv leg) \<and>
        has_flag ''-p'' (show_int r) (sp_argv leg) \<and> has_flag ''-i'' (show_int (link_id ''default'')) (sp_argv leg))"
    and "\<forall>s st t. (s, st) \<in> set (streams_for probe) \<longrightarrow> tx_stream st = Some t \<longrightarrow>
      (\<exists>peers leg pre. map_of (cp_peers plan) s = Some peers \<and> tx_leg g s = Some leg \<and> sp_argv leg = pre @ map JStr peers \<and>
        has_flag ''-p'' (show_int t) (sp_argv leg) \<and> has_flag ''-i'' (show_int (link_id ''default'')) (sp_argv leg))"
proof -
  obtain gp prb vp mp tp mps tps peer pp fwds injs scripts where gp: "graph_params_of rp effective = Inr gp"
    and prb: "probe_enabled (gp_dl gp) = Inr prb"
    and k: "map_of (cp_server_port plan) ''video'' = Some vp" "map_of (cp_server_port plan) ''mavlink'' = Some mp"
      "map_of (cp_server_port plan) ''tunnel'' = Some tp" "map_of (cp_peers plan) ''mavlink'' = Some mps" "map_of (cp_peers plan) ''tunnel'' = Some tps"
      "mavlink_peer (gp_wfb gp) = Inr peer"
    and pp': "(if prb then res_bind (key_error (map_of (cp_server_port plan) ''probe'')) (\<lambda>port. Inr (Some port)) else Inr None) = Inr pp"
    and l': "local_node_legs cards plan (gp_lid gp) prb = Inr (fwds, injs)"
    and sc': "remote_scripts rp plan (link_dict (gp_link gp)) (gp_lid gp) (py_str rp addr) prb = Inr scripts"
    and g': "Inr \<lparr> video_rx = rx_spec ''video_rx'' (rx_argv video_head (gp_video_key gp) (gp_lid gp) [] (gp_tap gp) [''-a'', show_int vp]) None,
        mavlink_rx = rx_spec ''mavlink_rx'' (rx_argv [''-p'', ''16'', ''-U'', ''mavlink-rx-'' @ rand 0] key_flag (gp_lid gp) [] [] [''-a'', show_int mp])
          (Some (''mavlink-rx-'' @ rand 0)),
        mavlink_tx = tx_spec ''mavlink_tx'' (tx_argv 144 (''mavlink-tx-'' @ rand 1) key_flag (gp_bw gp) (gp_lid gp) (map JStr mps) [''-d''])
          (Some (''mavlink-tx-'' @ rand 1)),
        tunnel_rx = rx_spec ''tunnel_rx'' (rx_argv [''-p'', ''32'', ''-U'', ''tunnel-rx-'' @ rand 2] key_flag (gp_lid gp) [] [] [''-a'', show_int tp])
          (Some (''tunnel-rx-'' @ rand 2)),
        tunnel_tx = tx_spec ''tunnel_tx'' (tx_argv 160 (''tunnel-tx-'' @ rand 3) key_flag (gp_bw gp) (gp_lid gp) (map JStr tps) [''-d''])
          (Some (''tunnel-tx-'' @ rand 3)),
        mav_rx_sock = ''mavlink-rx-'' @ rand 0, mav_peer = peer, tun_rx_sock = ''tunnel-rx-'' @ rand 2, tun_cfg = TunnelConfig,
        local_forwarders = fwds, local_injectors = injs, node_scripts = scripts,
        probe_rx = map_option (\<lambda>port. probe_spec (rx_argv probe_head key_flag (gp_lid gp) [] [] [''-a'', show_int port])) pp \<rparr> = Inr g"
    using assms(1) unfolding build_graph_remote_def res_bind_eq_Inr key_error_Inr split_paired_Ex prod.case Let_def
    by (elim exE conjE) blast
  have gd: "gp_dl gp = dl_block effective" "gp_lid gp = link_id ''default''" using graph_params_dl [OF gp] by simp_all
  have "prb = probe" using prb assms(2) gd by simp
  note pp = pp' [unfolded this] and l = l' [unfolded this gd(2)] and sc = sc' [unfolded this gd(2)] and g = g' [unfolded gd(2) sum.inject, symmetric]
  have pr: "\<exists>port. map_of (cp_server_port plan) ''probe'' = Some port \<and> pp = Some port" if probe
  proof -
    have "res_bind (key_error (map_of (cp_server_port plan) ''probe'')) (\<lambda>port. Inr (Some port)) = Inr pp" using pp that by simp
    then show ?thesis by (cases "map_of (cp_server_port plan) ''probe''") (auto simp: key_error_def)
  qed
  show ?thesis
  proof (rule that [OF gp], goal_cases)
    case 1
    show ?case using l g by simp
  next
    case 2
    show ?case using sc g by simp
  next
    case 3
    have "\<exists>port leg. map_of (cp_server_port plan) s = Some port \<and> rx_leg g s = Some leg \<and> has_flag ''-a'' (show_int port) (sp_argv leg) \<and>
        has_flag ''-p'' (show_int r) (sp_argv leg) \<and> has_flag ''-i'' (show_int (link_id ''default'')) (sp_argv leg)"
      if m: "(s, st) \<in> set (streams_for probe)" and r: "rx_stream st = Some r" for s st r
      using streams_for_cases [OF m]
    proof (elim disjE conjE)
      assume "s = ''probe''" probe "st = \<lparr> rx_stream = Some 50, tx_stream = None \<rparr>"
      moreover obtain port where "map_of (cp_server_port plan) ''probe'' = Some port" "pp = Some port" using pr [OF \<open>probe\<close>] by blast
      ultimately show ?thesis using r
        by (simp add: g rx_leg_def probe_spec_def rx_argv_flags probe_head_def PROBE_RADIO_PORT_def)
    qed (use r k(1-3) in \<open>simp_all add: g rx_leg_def rx_spec_def rx_argv_flags video_head_def show_streams\<close>)
    then show ?case by blast
  next
    case 4
    have "\<exists>peers leg pre. map_of (cp_peers plan) s = Some peers \<and> tx_leg g s = Some leg \<and> sp_argv leg = pre @ map JStr peers \<and>
        has_flag ''-p'' (show_int t) (sp_argv leg) \<and> has_flag ''-i'' (show_int (link_id ''default'')) (sp_argv leg)"
      if m: "(s, st) \<in> set (streams_for probe)" and t: "tx_stream st = Some t" for s st t
      using streams_for_cases [OF m]
      by (elim disjE conjE) (use t k(4,5) in \<open>simp_all add: g tx_leg_def tx_spec_def tx_argv_flags tx_argv_split\<close>)
    then show ?case by blast
  qed
qed

lemma local_node_legs_mem:
  assumes "local_node_legs cards plan lid probe = Inr (fwds, injs)" "map_of (cp_nodes plan) LOCAL_NODE = Some (c # cs)" "(s, st) \<in> set (streams_for probe)"
  shows "rx_stream st = Some r \<Longrightarrow> map_of (cp_server_port plan) s = Some port \<Longrightarrow> fwd_spec s (fwd_argv port r lid (local_ifaces cards)) \<in> set fwds"
    and "tx_stream st = Some t \<Longrightarrow> map_of (cp_injector_base plan) (LOCAL_NODE, s) = Some base \<Longrightarrow> inj_spec s (inj_argv base (local_ifaces cards)) \<in> set injs"
proof -
  obtain legs where legs: "res_map (local_legs plan lid (local_ifaces cards)) (streams_for probe) = Inr legs"
    "fwds = concat (map fst legs)" "injs = concat (map snd legs)"
    using assms(1,2) by (cases "res_map (local_legs plan lid (local_ifaces cards)) (streams_for probe)") (auto simp: local_node_legs_def)
  obtain y where y: "y \<in> set legs" "local_legs plan lid (local_ifaces cards) (s, st) = Inr y" using res_map_mem [OF legs(1) assms(3)] by blast
  have "fwd_spec s (fwd_argv port r lid (local_ifaces cards)) \<in> set (fst y)"
    if "rx_stream st = Some r" "map_of (cp_server_port plan) s = Some port"
    using y(2) that by (auto simp: local_legs_def res_bind_def split: sum.splits)
  then show "rx_stream st = Some r \<Longrightarrow> map_of (cp_server_port plan) s = Some port \<Longrightarrow> fwd_spec s (fwd_argv port r lid (local_ifaces cards)) \<in> set fwds"
    using y(1) legs(2) by auto
  have "inj_spec s (inj_argv base (local_ifaces cards)) \<in> set (snd y)"
    if "tx_stream st = Some t" "map_of (cp_injector_base plan) (LOCAL_NODE, s) = Some base"
    using y(2) that by (auto simp: local_legs_def res_bind_def split: sum.splits)
  then show "tx_stream st = Some t \<Longrightarrow> map_of (cp_injector_base plan) (LOCAL_NODE, s) = Some base \<Longrightarrow> inj_spec s (inj_argv base (local_ifaces cards)) \<in> set injs"
    using y(1) legs(3) by auto
qed

text \<open>No remote card claims to be on the station itself.\<close>

definition hosts_ok :: "wifi_card list \<Rightarrow> bool" where
  "hosts_ok cards = (\<forall>c \<in> set (remote_cards cards). node_key c \<noteq> LOCAL_NODE)"

lemma node_key_local: "is_local c \<Longrightarrow> node_key c = LOCAL_NODE"
  by (simp add: is_local_def node_key_def LOCAL_NODE_def)

lemma local_size: "hosts_ok cards \<Longrightarrow> node_size cards LOCAL_NODE = length (local_ifaces cards)"
proof -
  assume "hosts_ok cards"
  then have "filter (\<lambda>c. node_key c = LOCAL_NODE) cards = filter is_local cards"
    using node_key_local by (intro filter_cong) (auto simp: hosts_ok_def remote_cards_def)
  then show ?thesis by (simp add: node_size_def local_ifaces_def)
qed

lemma plan_lookup:
  assumes "plan_cluster cards sb nb probe = Inr plan" "s \<in> set (service_order probe)" "node \<in> node_key ` set cards"
  obtains base where "map_of (cp_injector_base plan) (node, s) = Some base" "service_ports plan cards node s = port_block base (node_size cards node)"
    "map_of (cp_nodes plan) node = Some (filter (\<lambda>c. node_key c = node) cards)" "filter (\<lambda>c. node_key c = node) cards \<noteq> []"
proof -
  obtain i where i: "i < length (service_order probe)" "s = service_order probe ! i" using assms(2) by (auto simp: in_set_conv_nth)
  have ne: "filter (\<lambda>c. node_key c = node) cards \<noteq> []" using assms(3) by (auto simp: filter_empty_conv)
  show ?thesis
    using that [OF plan_shape(3) [OF assms(1) i(1), folded i(2), rule_format, OF assms(3)] _ _ ne] ne
      service_ports_closed [OF assms(1) i(1) assms(3), folded i(2)] plan_shape(1) [OF assms(1) i(1)]
    by (simp add: group_cards_lookup)
qed

lemma plan_peers:
  assumes "plan_cluster cards sb nb probe = Inr plan" "s \<in> set (service_order probe)"
  shows "map_of (cp_peers plan) s = Some (map (\<lambda>m. peer_entry m (service_ports plan cards m s)) (sort (map fst (cp_nodes plan))))"
proof -
  obtain i where i: "i < length (service_order probe)" "s = service_order probe ! i" using assms(2) by (auto simp: in_set_conv_nth)
  show ?thesis using plan_shape(1,4) [OF assms(1) i(1)] i(2) by simp
qed

text \<open>The script of a node has a line, which names the interfaces of the node.\<close>

definition node_runs :: "gs_graph \<Rightarrow> wifi_card list \<Rightarrow> string \<Rightarrow> (string \<Rightarrow> string) \<Rightarrow> bool" where
  "node_runs g cards node line = (\<exists>lines wl. map_of (node_scripts g) node = Some (join_with (CHR 0x0A) lines) \<and>
     join_strs (map cd_iface (filter (\<lambda>c. node_key c = node) cards)) = Inr wl \<and> line wl \<in> set lines)"

lemma script_runs:
  assumes "plan_cluster cards sb nb probe = Inr plan" "remote_scripts rp plan link lid addr probe = Inr (node_scripts g)"
    and "hosts_ok cards" "(s, st) \<in> set (streams_for probe)" "node \<in> node_key ` set (remote_cards cards)"
  shows "rx_stream st = Some r \<Longrightarrow> map_of (cp_server_port plan) s = Some port \<Longrightarrow> node_runs g cards node (fwd_line addr port r lid)"
    and "tx_stream st = Some t \<Longrightarrow> map_of (cp_injector_base plan) (node, s) = Some base \<Longrightarrow> node_runs g cards node (inj_line base)"
proof -
  have n1: "node \<noteq> LOCAL_NODE" "node \<in> node_key ` set cards" using assms(3,5) by (auto simp: hosts_ok_def remote_cards_def)
  obtain bs where c: "map_of (cp_nodes plan) node = Some (filter (\<lambda>c. node_key c = node) cards)"
    using plan_lookup [OF assms(1) streams_services [OF assms(4)] n1(2)] .
  have nodes: "cp_nodes plan = group_cards cards" using plan_shape(1) [OF assms(1), of 0] by (simp add: service_order_def SERVICE_ORDER_def)
  have n2: "node \<in> fst ` set (cp_nodes plan)" using n1(2) group_cards_keys [of cards] by (simp add: nodes)
  have d: "distinct (map fst (cp_nodes plan))" unfolding nodes by (rule group_cards_distinct)
  obtain lines where l: "map_of (node_scripts g) node = Some (join_with (CHR 0x0A) lines)"
    "node_script_lines rp node (the (map_of (cp_nodes plan) node)) plan link lid addr True (streams_for probe) = Inr lines"
    using remote_scripts_lookup [OF assms(2) n2 n1(1) d] .
  show "node_runs g cards node (fwd_line addr port r lid)" if "rx_stream st = Some r" "map_of (cp_server_port plan) s = Some port"
    using node_script_mem [OF l(2) assms(4)] l(1) that unfolding c node_runs_def option.sel by metis
  show "node_runs g cards node (inj_line base)" if "tx_stream st = Some t" "map_of (cp_injector_base plan) (node, s) = Some base"
    using node_script_mem [OF l(2) assms(4)] l(1) that unfolding c node_runs_def option.sel by metis
qed

lemma local_node:
  assumes "plan_cluster cards sb nb probe = Inr plan" "s \<in> set (service_order probe)" "local_ifaces cards \<noteq> []" "hosts_ok cards"
  obtains base c cs where "map_of (cp_nodes plan) LOCAL_NODE = Some (c # cs)" "map_of (cp_injector_base plan) (LOCAL_NODE, s) = Some base"
    "service_ports plan cards LOCAL_NODE s = port_block base (length (local_ifaces cards))"
proof -
  obtain c where "c \<in> set cards" "is_local c" using assms(3) by (auto simp: local_ifaces_def filter_empty_conv)
  then have "LOCAL_NODE \<in> node_key ` set cards" using node_key_local by (intro image_eqI [of _ _ c]) simp_all
  then obtain base where b: "map_of (cp_injector_base plan) (LOCAL_NODE, s) = Some base" "service_ports plan cards LOCAL_NODE s = port_block base (node_size cards LOCAL_NODE)"
    "map_of (cp_nodes plan) LOCAL_NODE = Some (filter (\<lambda>c. node_key c = LOCAL_NODE) cards)" "filter (\<lambda>c. node_key c = LOCAL_NODE) cards \<noteq> []"
    using plan_lookup [OF assms(1,2)] by blast
  then obtain d ds where "filter (\<lambda>c. node_key c = LOCAL_NODE) cards = d # ds" by (cases "filter (\<lambda>c. node_key c = LOCAL_NODE) cards") auto
  then show ?thesis using that [of d ds base] b local_size [OF assms(4)] by simp
qed

subsection \<open>The builder succeeds\<close>

text \<open>The cards of a node can be initialised: their interfaces and their snippets are strings and
  the channel, width and power give commands.\<close>

definition node_init_ok :: "(json \<Rightarrow> string) \<Rightarrow> dict \<Rightarrow> wifi_card list \<Rightarrow> bool" where
  "node_init_ok rp link cs = (\<not> isl (join_strs (map cd_iface cs)) \<and> \<not> isl (custom_init [] cs) \<and>
     \<not> isl (res_map (card_lines rp (dget link ''channel'' JNull) (dget link ''width'' (JInt 20))) cs))"

lemma not_isl_obtain: "\<not> isl r \<Longrightarrow> \<exists>x. r = Inr x"
  by (cases r) auto

lemma plan_lookups:
  assumes "plan_cluster cards sb nb probe = Inr plan" "s \<in> set (service_order probe)"
  shows "\<exists>port. map_of (cp_server_port plan) s = Some port"
    and "node \<in> node_key ` set cards \<Longrightarrow> \<exists>base. map_of (cp_injector_base plan) (node, s) = Some base"
proof -
  obtain i where i: "i < length (service_order probe)" "s = service_order probe ! i" using assms(2) by (auto simp: in_set_conv_nth)
  show "\<exists>port. map_of (cp_server_port plan) s = Some port" using plan_shape(2) [OF assms(1) i(1)] i(2) by simp
  show "node \<in> node_key ` set cards \<Longrightarrow> \<exists>base. map_of (cp_injector_base plan) (node, s) = Some base"
    using plan_shape(3) [OF assms(1) i(1)] i(2) by auto
qed

lemma service_lines_ok:
  assumes "plan_cluster cards sb nb probe = Inr plan" "node \<in> node_key ` set cards" "(s, st) \<in> set (streams_for probe)"
  shows "\<exists>ls. service_lines node plan lid addr wl (s, st) = Inr ls" "\<exists>legs. node = LOCAL_NODE \<longrightarrow> local_legs plan lid ifaces (s, st) = Inr legs"
proof -
  obtain port base where "map_of (cp_server_port plan) s = Some port" "map_of (cp_injector_base plan) (node, s) = Some base"
    using plan_lookups [OF assms(1) streams_services [OF assms(3)]] assms(2) by blast
  then show "\<exists>ls. service_lines node plan lid addr wl (s, st) = Inr ls" "\<exists>legs. node = LOCAL_NODE \<longrightarrow> local_legs plan lid ifaces (s, st) = Inr legs"
    by (auto simp: service_lines_def local_legs_def split: option.split)
qed

lemma remote_scripts_ok:
  assumes "plan_cluster cards sb nb probe = Inr plan"
    and "\<forall>node \<in> node_key ` set cards. node_init_ok rp link (filter (\<lambda>c. node_key c = node) cards)"
  shows "\<exists>scripts. remote_scripts rp plan link lid addr probe = Inr scripts"
  unfolding remote_scripts_def
proof (rule res_map_ok)
  fix node assume n: "node \<in> set (filter (\<lambda>node. node \<noteq> LOCAL_NODE) (sort (map fst (cp_nodes plan))))"
  have nodes: "cp_nodes plan = group_cards cards" using plan_shape(1) [OF assms(1), of 0] by (simp add: service_order_def SERVICE_ORDER_def)
  have k: "node \<in> node_key ` set cards" using n group_cards_keys [of cards] by (simp add: nodes)
  let ?cs = "filter (\<lambda>c. node_key c = node) cards"
  have cs: "the (map_of (cp_nodes plan) node) = ?cs" using k by (auto simp: nodes group_cards_lookup Let_def filter_empty_conv)
  obtain wl where wl: "join_strs (map cd_iface ?cs) = Inr wl" using assms(2) k not_isl_obtain by (auto simp: node_init_ok_def)
  obtain custom where cu: "custom_init [] ?cs = Inr custom" using assms(2) k not_isl_obtain by (auto simp: node_init_ok_def)
  obtain inits where ini: "res_map (card_lines rp (dget link ''channel'' JNull) (dget link ''width'' (JInt 20))) ?cs = Inr inits"
    using assms(2) k not_isl_obtain by (auto simp: node_init_ok_def)
  obtain svc where svc: "res_map (service_lines node plan lid addr wl) (streams_for probe) = Inr svc"
    using res_map_ok [of "streams_for probe" "service_lines node plan lid addr wl"] service_lines_ok(1) [OF assms(1) k] by (metis surj_pair)
  show "\<exists>y. res_bind (render_node_script rp node (the (map_of (cp_nodes plan) node)) plan link lid addr True (streams_for probe)) (\<lambda>script. Inr (node, script)) = Inr y"
    unfolding cs by (simp add: render_node_script_def node_script_lines_def Let_def wl cu ini svc)
qed

text \<open>The engine gives the builder and the planner the same decision about the probe: no lookup in
  the plan fails.\<close>

lemma remote_graph_ok:
  assumes "plan_cluster cards sb nb probe = Inr plan" "graph_params_of rp effective = Inr gp" "probe_enabled (dl_block effective) = Inr probe"
    and "mavlink_peer (gp_wfb gp) = Inr p"
    and "\<forall>node \<in> node_key ` set cards. node_init_ok rp (link_dict (gp_link gp)) (filter (\<lambda>c. node_key c = node) cards)"
  shows "\<exists>g. build_graph_remote rp rand effective cards plan addr = Inr g"
proof -
  have sv: "''video'' \<in> set (service_order probe)" "''mavlink'' \<in> set (service_order probe)" "''tunnel'' \<in> set (service_order probe)"
    by (simp_all add: service_order_def SERVICE_ORDER_def)
  obtain vp mp tp where ports: "map_of (cp_server_port plan) ''video'' = Some vp" "map_of (cp_server_port plan) ''mavlink'' = Some mp"
    "map_of (cp_server_port plan) ''tunnel'' = Some tp" 
    using plan_lookups(1) [OF assms(1) sv(1)] plan_lookups(1) [OF assms(1) sv(2)] plan_lookups(1) [OF assms(1) sv(3)] by blast
  obtain mps tps where peers: "map_of (cp_peers plan) ''mavlink'' = Some mps" "map_of (cp_peers plan) ''tunnel'' = Some tps"
    using plan_peers [OF assms(1) sv(2)] plan_peers [OF assms(1) sv(3)] by blast
  have "\<exists>pp. (if probe then res_bind (key_error (map_of (cp_server_port plan) ''probe'')) (\<lambda>port. Inr (Some port)) else Inr None) = Inr pp"
    using plan_lookups(1) [OF assms(1), of "''probe''"] by (auto simp: service_order_def PROBE_SERVICE_def)
  then obtain pp where pp: "(if probe then res_bind (key_error (map_of (cp_server_port plan) ''probe'')) (\<lambda>port. Inr (Some port)) else Inr None) = Inr pp" ..
  have "\<exists>legs. local_node_legs cards plan lid probe = Inr legs" for lid
  proof (cases "map_of (cp_nodes plan) LOCAL_NODE")
    case (Some cs)
    have nodes: "cp_nodes plan = group_cards cards" using plan_shape(1) [OF assms(1), of 0] by (simp add: service_order_def SERVICE_ORDER_def)
    have "LOCAL_NODE \<in> node_key ` set cards" using Some group_cards_keys [of cards] by (metis nodes map_of_SomeD fst_conv image_eqI set_map)
    then obtain legs where "res_map (local_legs plan lid (local_ifaces cards)) (streams_for probe) = Inr legs"
      using res_map_ok [of "streams_for probe" "local_legs plan lid (local_ifaces cards)"] service_lines_ok(2) [OF assms(1)] by (metis surj_pair)
    then show ?thesis using Some by (cases cs) (simp_all add: local_node_legs_def)
  qed (simp add: local_node_legs_def)
  then obtain fwds injs where legs: "local_node_legs cards plan (gp_lid gp) probe = Inr (fwds, injs)" by fastforce
  obtain scripts where "remote_scripts rp plan (link_dict (gp_link gp)) (gp_lid gp) (py_str rp addr) probe = Inr scripts"
    using remote_scripts_ok [OF assms(1,5)] by blast
  then show ?thesis
    using assms(2-4) graph_params_dl [OF assms(2)] ports peers pp legs by (simp add: build_graph_remote_def Let_def)
qed

section \<open>Properties\<close>

lemma cluster_wiring_facts:
  assumes "plan_cluster cards SERVER_BASE NODE_BASE probe = Inr plan"
    and "build_graph_remote rp rand effective cards plan addr = Inr g"
    and "probe_enabled (dl_block effective) = Inr probe" "hosts_ok cards" "(s, st) \<in> set (streams_for probe)"
  defines "lid \<equiv> link_id ''default''"
  shows "rx_stream st = Some r \<Longrightarrow>
      \<exists>port leg. rx_leg g s = Some leg \<and> has_flag ''-a'' (show_int port) (sp_argv leg) \<and>
        has_flag ''-p'' (show_int r) (sp_argv leg) \<and> has_flag ''-i'' (show_int lid) (sp_argv leg) \<and>
        (local_ifaces cards \<noteq> [] \<longrightarrow> fwd_spec s (fwd_argv port r lid (local_ifaces cards)) \<in> set (local_forwarders g)) \<and>
        (\<forall>node \<in> node_key ` set (remote_cards cards). node_runs g cards node (fwd_line (py_str rp addr) port r lid))"
    and "tx_stream st = Some t \<Longrightarrow>
      \<exists>leg pre. tx_leg g s = Some leg \<and> has_flag ''-p'' (show_int t) (sp_argv leg) \<and> has_flag ''-i'' (show_int lid) (sp_argv leg) \<and>
        sp_argv leg = pre @ map (\<lambda>node. JStr (peer_entry node (service_ports plan cards node s))) (sort (map fst (cp_nodes plan))) \<and>
        (local_ifaces cards \<noteq> [] \<longrightarrow> (\<exists>base. inj_spec s (inj_argv base (local_ifaces cards)) \<in> set (local_injectors g) \<and>
           service_ports plan cards LOCAL_NODE s = port_block base (length (local_ifaces cards)))) \<and>
        (\<forall>node \<in> node_key ` set (remote_cards cards). \<exists>base.
           node_runs g cards node (inj_line base) \<and> service_ports plan cards node s = port_block base (node_size cards node))"
proof -
  obtain gp where gp: "graph_params_of rp effective = Inr gp" and loc: "local_node_legs cards plan lid probe = Inr (local_forwarders g, local_injectors g)"
    and rem: "remote_scripts rp plan (link_dict (gp_link gp)) lid (py_str rp addr) probe = Inr (node_scripts g)"
    and rx: "\<forall>s st r. (s, st) \<in> set (streams_for probe) \<longrightarrow> rx_stream st = Some r \<longrightarrow>
      (\<exists>port leg. map_of (cp_server_port plan) s = Some port \<and> rx_leg g s = Some leg \<and> has_flag ''-a'' (show_int port) (sp_argv leg) \<and>
        has_flag ''-p'' (show_int r) (sp_argv leg) \<and> has_flag ''-i'' (show_int lid) (sp_argv leg))"
    and tx: "\<forall>s st t. (s, st) \<in> set (streams_for probe) \<longrightarrow> tx_stream st = Some t \<longrightarrow>
      (\<exists>peers leg pre. map_of (cp_peers plan) s = Some peers \<and> tx_leg g s = Some leg \<and> sp_argv leg = pre @ map JStr peers \<and>
        has_flag ''-p'' (show_int t) (sp_argv leg) \<and> has_flag ''-i'' (show_int lid) (sp_argv leg))"
    using remote_graph [OF assms(2,3), folded lid_def] .
  have svc: "s \<in> set (service_order probe)" using streams_services [OF assms(5)] .
  note runs = script_runs [OF assms(1) rem assms(4,5)]
  show "\<exists>port leg. rx_leg g s = Some leg \<and> has_flag ''-a'' (show_int port) (sp_argv leg) \<and>
        has_flag ''-p'' (show_int r) (sp_argv leg) \<and> has_flag ''-i'' (show_int lid) (sp_argv leg) \<and>
        (local_ifaces cards \<noteq> [] \<longrightarrow> fwd_spec s (fwd_argv port r lid (local_ifaces cards)) \<in> set (local_forwarders g)) \<and>
        (\<forall>node \<in> node_key ` set (remote_cards cards). node_runs g cards node (fwd_line (py_str rp addr) port r lid))"
    if r: "rx_stream st = Some r"
  proof -
    obtain port leg where pl: "map_of (cp_server_port plan) s = Some port" "rx_leg g s = Some leg"
      "has_flag ''-a'' (show_int port) (sp_argv leg)" "has_flag ''-p'' (show_int r) (sp_argv leg)" "has_flag ''-i'' (show_int lid) (sp_argv leg)"
      using rx assms(5) r by blast
    have "fwd_spec s (fwd_argv port r lid (local_ifaces cards)) \<in> set (local_forwarders g)" if "local_ifaces cards \<noteq> []"
      using local_node [OF assms(1) svc that assms(4)] local_node_legs_mem(1) [OF loc _ assms(5) r pl(1)] by blast
    then show ?thesis using pl runs(1) [OF _ r pl(1)] by (intro exI [of _ port] exI [of _ leg]) simp
  qed
  show "\<exists>leg pre. tx_leg g s = Some leg \<and> has_flag ''-p'' (show_int t) (sp_argv leg) \<and> has_flag ''-i'' (show_int lid) (sp_argv leg) \<and>
        sp_argv leg = pre @ map (\<lambda>node. JStr (peer_entry node (service_ports plan cards node s))) (sort (map fst (cp_nodes plan))) \<and>
        (local_ifaces cards \<noteq> [] \<longrightarrow> (\<exists>base. inj_spec s (inj_argv base (local_ifaces cards)) \<in> set (local_injectors g) \<and>
           service_ports plan cards LOCAL_NODE s = port_block base (length (local_ifaces cards)))) \<and>
        (\<forall>node \<in> node_key ` set (remote_cards cards). \<exists>base.
           node_runs g cards node (inj_line base) \<and> service_ports plan cards node s = port_block base (node_size cards node))"
    if t: "tx_stream st = Some t"
  proof -
    obtain peers leg pre where pl: "map_of (cp_peers plan) s = Some peers" "tx_leg g s = Some leg" "sp_argv leg = pre @ map JStr peers"
      "has_flag ''-p'' (show_int t) (sp_argv leg)" "has_flag ''-i'' (show_int lid) (sp_argv leg)"
      using tx assms(5) t by blast
    have pe: "map JStr peers = map (\<lambda>node. JStr (peer_entry node (service_ports plan cards node s))) (sort (map fst (cp_nodes plan)))"
      using pl(1) plan_peers [OF assms(1) svc] by (auto simp: comp_def)
    have lo: "\<exists>base. inj_spec s (inj_argv base (local_ifaces cards)) \<in> set (local_injectors g) \<and>
        service_ports plan cards LOCAL_NODE s = port_block base (length (local_ifaces cards))" if "local_ifaces cards \<noteq> []"
      using local_node [OF assms(1) svc that assms(4)] local_node_legs_mem(2) [OF loc _ assms(5) t] by metis
    have "\<exists>base. node_runs g cards node (inj_line base) \<and> service_ports plan cards node s = port_block base (node_size cards node)"
      if n: "node \<in> node_key ` set (remote_cards cards)" for node
    proof -
      have "node \<in> node_key ` set cards" using n by (auto simp: remote_cards_def)
      then obtain base where "map_of (cp_injector_base plan) (node, s) = Some base" "service_ports plan cards node s = port_block base (node_size cards node)"
        using plan_lookup [OF assms(1) svc] by blast
      then show ?thesis using runs(2) [OF n t] by blast
    qed
    then show ?thesis using pl(2-5) lo by (intro exI [of _ leg] exI [of _ pre]) (simp add: pe)
  qed
qed


text \<open>A station with one card of its own and one remote card, and its configuration.\<close>

definition demo_effective :: dict where
  "demo_effective =
     [(''link'', JObj [(''channel'', JInt 132), (''width'', JInt 20), (''region'', JStr ''US''), (''linkId'', JInt 7669206)]),
      (''wfb'', JObj [(''mavlink'', JObj [(''peer'', JStr ''connect://127.0.0.1:14550'')])]),
      (''dynamicLink'', JObj [(''enabled'', JBool False)])]"

lemma demo_params:
  "graph_params_of rp demo_effective = Inr \<lparr> gp_link = the (map_of demo_effective ''link''), gp_wfb = the (map_of demo_effective ''wfb''),
     gp_dl = the (map_of demo_effective ''dynamicLink''), gp_lid = link_id ''default'', gp_bw = show_int 20, gp_video_key = key_flag, gp_tap = [''-D'', show_int 8110] \<rparr>"
  by (simp add: graph_params_of_def demo_effective_def dget_def jget_def or_empty_def uplink_bw_def num_of_def raw_warning_def tap_flag_def py_str_def)

lemma demo_probe: "probe_enabled (dl_block demo_effective) = Inr False"
  by (simp add: probe_enabled_def dl_block_def demo_effective_def dget_def jget_def or_empty_def)

lemma demo_graph:
  assumes "plan_cluster demo_cards sb nb False = Inr plan"
  shows "\<exists>g. build_graph_remote rp rand demo_effective demo_cards plan addr = Inr g"
proof (rule remote_graph_ok [OF assms demo_params demo_probe])
  show "mavlink_peer (gp_wfb \<lparr> gp_link = the (map_of demo_effective ''link''), gp_wfb = the (map_of demo_effective ''wfb''),
     gp_dl = the (map_of demo_effective ''dynamicLink''), gp_lid = link_id ''default'', gp_bw = show_int 20, gp_video_key = key_flag,
     gp_tap = [''-D'', show_int 8110] \<rparr>) = Inr (JStr ''connect://127.0.0.1:14550'')"
    by (simp add: mavlink_peer_def demo_effective_def jget_def or_empty_def dget_def)
qed (auto simp: demo_cards_def node_key_def Card_def node_init_ok_def join_strs_def init_snippet_def card_lines_def demo_effective_def link_dict_def
    dget_def iw_args_def htmode_def hashable_def is_list_def is_dict_def num_gt_def num_of_def txpower_lines_def)


lemma gp_link_other:
  "gp_link (g\<lparr> gp_link := x \<rparr>) = x" "gp_wfb (g\<lparr> gp_link := x \<rparr>) = gp_wfb g" "gp_dl (g\<lparr> gp_link := x \<rparr>) = gp_dl g"
  "gp_lid (g\<lparr> gp_link := x \<rparr>) = gp_lid g" "gp_bw (g\<lparr> gp_link := x \<rparr>) = gp_bw g"
  "gp_video_key (g\<lparr> gp_link := x \<rparr>) = gp_video_key g" "gp_tap (g\<lparr> gp_link := x \<rparr>) = gp_tap g"
  by simp_all



end
