(* ===== verification/Spec2Isabelle.thy ===== *)
theory Spec2Isabelle
  imports Controller Mavlink Statsd Supervise Beamforming Graph
begin

text \<open>
  A verification development for fpvd's ground station (\<open>src/gs/fpvdgs\<close>), the daemon that drives a
  wfb-ng video link, and for the part of the drone (\<open>src/drone/src/dynlink\<close>) that receives its
  decisions. The station starts the radio processes, aggregates their statistics, chooses the
  modulation (MCS) of the drone's transmitter, carries MAVLink and IP traffic over the radio, and
  is configured over HTTP.

  \<^bold>\<open>Conventions\<close> (\<open>Fpvd_Prelude\<close>, \<open>Py_Str\<close>, \<open>Py_Json\<close>). A Python int is an \<open>int\<close>, a float a \<open>real\<close>
  (exact arithmetic: rounding, infinities and NaN are not modelled), bytes are \<open>8 word list\<close>, a
  string is a \<open>string\<close> of characters up to U+00FF. An exception is a value of \<open>py_exn\<close> in the left
  summand of \<open>'a res\<close>; \<open>res_bind\<close> runs statements in order and stops at the first that raises. A
  dictionary that is iterated is an association list in insertion order, one that is only looked
  up a map. A JSON value is a \<open>json\<close>; its accessors raise what Python raises on a value of another
  type. Objects are records, methods are functions that return the updated record together with
  their result, callbacks are events, and clocks, files, sockets, processes and answers of the
  kernel are arguments. Sequences of events are lists, and a property over a run is proved by
  induction on the list. The locales \<open>machine\<close> (an invariant kept by every step of a state machine)
  and \<open>rate_limited\<close> (an event at most once per window) of the prelude are interpreted for the
  components that have this shape.

  \<^bold>\<open>The adaptive link.\<close> The radio reports how it receives; the policy chooses a rung of the MCS
  ladder; the decision goes to the drone.
  \<^item> \<open>Stats_Events\<close> (\<open>dynlink/stats_client.py\<close>): statistics records as events, with their validation.
  \<^item> \<open>Tap_Wire\<close> (\<open>dynlink/tap_wire.py\<close>): the binary records of the receiver's tap; the decoder accepts
    exactly the encodings.
  \<^item> \<open>Signals\<close> (\<open>dynlink/signals.py\<close>): the aggregator that smooths both sources into one signal
    vector; ten tap records equal one statistics record.
  \<^item> \<open>Knee_Model\<close> (\<open>dynlink/learned_prior.py\<close>): the learned SNR knee of every rung, its updates and
    its persistence; locale \<open>viability_prior\<close>.
  \<^item> \<open>Selector\<close> and \<open>Policy\<close> (\<open>dynlink/policy.py\<close>, \<open>decision.py\<close>): one rung per tick, emergency and
    predictive demotes, three ways to promote, flap damping, the fast loss path; the lemmas keep the
    rung on the ladder, limit the rate of demotes and account for every promote and failure.
  \<^item> \<open>Probe\<close> (\<open>probe/parser.py\<close>, \<open>feed.py\<close>): error rates measured on a probe stream.
  \<^item> \<open>Byte_Codec\<close> and \<open>Wire\<close> (\<open>dynlink/wire.py\<close>, \<open>wire.cpp\<close>): the decision packet, encoded by the
    station, decoded by the drone; the CRC rejects every single-byte change.
  \<^item> \<open>Drone_Link\<close> (\<open>dedup.cpp\<close>, \<open>watchdog.cpp\<close>, the intake of \<open>controller.cpp\<close>): the drone applies a
    decision only when its number is newer.
  \<^item> \<open>Flightlog\<close> (\<open>dynlink/flightlog.py\<close>): one file per flight, never truncated.
  \<^item> \<open>Schema\<close>, \<open>Config\<close> and \<open>Dl_Config\<close> (\<open>schema.py\<close>, \<open>config.py\<close>, \<open>config_defaults.py\<close>,
    \<open>dynlink/config_build.py\<close>): validation, the store with its pending and effective configuration,
    and the settings of the policy; what validates builds.
  \<^item> \<open>Controller\<close> (\<open>dynlink/controller.py\<close>, \<open>return_link.py\<close>, \<open>tap_client.py\<close>): the loop that composes
    all of these.

  \<^bold>\<open>The radio data plane.\<close>
  \<^item> \<open>Cards\<close> (\<open>wfb/cards.py\<close>) and \<open>Radio\<close> (\<open>radio.py\<close>): the cards of the station and the commands that
    tune them.
  \<^item> \<open>Cluster\<close> (\<open>wfb/cluster.py\<close>): the ports of a cluster of local and remote cards in closed form, the
    script of a remote node, and the session that keeps it alive.
  \<^item> \<open>Graph\<close> (\<open>wfb/graph.py\<close>): the argument vectors of the radio processes; the wiring of a cluster
    closes.
  \<^item> \<open>Lineproto\<close>, \<open>Stats_Hub\<close> and \<open>Statsd\<close> (\<open>wfb/lineproto.py\<close>, \<open>aggregator.py\<close>, \<open>txsel.py\<close>,
    \<open>statsd.py\<close>): the telemetry lines of the processes, their aggregation with the choice of the
    transmit card, and the server that publishes them.
  \<^item> \<open>Agg_Queue\<close>, \<open>Tunnel\<close> and \<open>Mavlink\<close> (\<open>wfb/agg_queue.py\<close>, \<open>tunnel.py\<close>, \<open>mavproxy.py\<close>): batching of
    packets (locales \<open>batcher\<close> and \<open>framed_channel\<close>), the IP tunnel and the MAVLink proxy on top of it;
    nothing is lost, duplicated or reordered on the way into the radio.
  \<^item> \<open>Beamforming\<close> (\<open>beamforming.py\<close>, \<open>beamforming_armer.py\<close>, \<open>drone_client.py\<close>): the beamformee and the
    loop that reconciles it with the configuration.

  \<^bold>\<open>Supervision.\<close>
  \<^item> \<open>Supervise\<close> (\<open>runner_supervisor.py\<close>, \<open>wfb/children.py\<close>): both supervisors restart a crashed child
    within one budget (locale \<open>crash_loop\<close>).
  \<^item> \<open>Conn_Monitor\<close> (\<open>connection_monitor.py\<close>, \<open>events.py\<close>): connects and disconnects alternate, and the
    bus caches the last.

  This theory holds the property that spans the components: from a validated configuration to the
  decisions that the drone applies.

  \<^bold>\<open>Bounds and fuel.\<close> No definition uses fuel: every loop of the code recurs on the list it iterates
  over, on a counter or on the size of a value. The retry loop of the tunnel device is a recursion
  on the attempts left, and it is proved to end. The numbers of the decision packets are 32-bit and
  compared modulo \<open>2 ^ 32\<close> as in the code; the end-to-end property is stated for fewer than \<open>2 ^ 31\<close>
  packets, beyond which a late packet may look new. Loops of threads and tasks that run for the
  life of the daemon are runs over arbitrary lists of events.

  \<^bold>\<open>Not modelled.\<close>
  \<^item> \<open>wfb/engine.py\<close>, \<open>api.py\<close> and \<open>supervisor.py\<close>: the threads, the event loop, the HTTP server and the
    construction of the objects. What they decide (the graph, the plan, the validation, the commit)
    is in the modelled parts.
  \<^item> \<open>pixelpilot.py\<close>, \<open>idr_relay.py\<close>, \<open>status.py\<close>, \<open>node_radio.py\<close>: a command line, a datagram relay, a
    report for display and commands run over ssh.
  \<^item> \<open>wfb/cli.py\<close> and \<open>tools/\<close>: debugging and offline analysis.
  \<^item> The rest of the drone's daemon (\<open>src/drone/src\<close>) and the deployment scripts.
  \<^item> Inside modelled parts: sockets, files and processes as such, logging, and locks (every method
    that holds its lock throughout is one step).
\<close>

section \<open>Properties that span components\<close>

lemma drone_hears_newest:
  assumes "int (length ms) < 2 ^ 31" "\<forall>m \<in> set ms. 0 \<le> m \<and> m < 256" "set (k # ks) \<subseteq> {1..int (length ms)}" "length ts = length ks"
  shows "map decision_of (fst (snd (intake_run (start_intake timeout)
      (map2 Datagram (t # ts) (map (\<lambda>k. packets 1 ms ! nat (k - 1)) (k # ks)))))) =
    map (\<lambda>k. (k, ms ! nat (k - 1))) (k # records_above k ks)"
proof -
  let ?m = "\<lambda>k. ms ! nat (k - 1)"
  have r: "\<forall>x \<in> set (k # ks). 1 \<le> x \<and> x < 1 + int (length ms)" using assms(3) by auto
  have m: "0 \<le> ?m x \<and> ?m x < 256" if "x \<in> set (k # ks)" for x
    using that r assms(2) by (auto simp: nat_less_iff intro!: bspec [OF assms(2)])
  have "map2 Datagram (t # ts) (map (\<lambda>k. packets 1 ms ! nat (k - 1)) (k # ks)) = arrivals ?m (t # ts) (k # ks)"
    by (rule packets_arrivals) (use assms(4) r in auto)
  moreover have "\<forall>x \<in> set (k # ks). 0 \<le> x \<and> x < 0 + 2 ^ 31 \<and> 0 \<le> ?m x \<and> ?m x < 256" using r m assms(1) by fastforce
  moreover have "set (records_above k ks) \<subseteq> set ks" by (rule records_above_subset)
  moreover have "x mod 2 ^ 32 = x" if "x \<in> set (k # ks)" for x using that r assms(1) by fastforce
  ultimately show ?thesis using accepts_newest [of k ks 0 ?m ts timeout t] assms(4) by (auto simp: subset_iff)
qed



end
